(* ===== verification/Prelude.thy ===== *)
theory Prelude
  imports Main
    "HOL-Library.Word"
    "HOL-Library.Char_ord"
    "HOL-Library.List_Lexorder"
    "HOL-Library.Product_Lexorder"
begin

text \<open>
  Shared vocabulary of the development: the types the components exchange, the
  collections of facts the proofs use, and generic facts on tables (lists of rows
  with a key), on sums as results and on sorting.

  A table of the database is a list of rows in storage order. The order of that list is
  the arbitrary physical order of the table; wherever the code asks for an order it
  sorts, and where the code leaves a choice open (a \<open>LIMIT\<close> without \<open>ORDER BY\<close>) the
  list order makes it, so that a theorem about all tables covers every choice.
\<close>

section \<open>Types\<close>

text \<open>Byte strings (Go's \<open>string\<close>, \<open>[]byte\<close>, \<open>json.RawMessage\<close>).\<close>

type_synonym bytes = string

text \<open>
  Instants are nanoseconds since Go's zero \<open>time.Time\<close> (so \<open>IsZero\<close> is \<open>= 0\<close>) and
  durations are nanoseconds.
\<close>

type_synonym time = int
type_synonym duration = int

abbreviation second :: duration where
  "second \<equiv> 1000000000"

abbreviation minute :: duration where
  "minute \<equiv> 60 * second"

section \<open>Fact collections\<close>

named_theorems row_simps \<open>fields of updated rows\<close>
named_theorems op_defs \<open>definitions of the store operations\<close>

section \<open>Optional values\<close>

definition null_if_empty :: "string \<Rightarrow> string option" where
  "null_if_empty s = (if s = '''' then None else Some s)"

lemma null_if_empty_None [simp]: "null_if_empty s = None \<longleftrightarrow> s = ''''"
  by (simp add: null_if_empty_def)

lemma null_if_empty_Some [simp]: "null_if_empty s = Some t \<longleftrightarrow> s = t \<and> s \<noteq> ''''"
  by (auto simp: null_if_empty_def)

text \<open>SQL's comparison with a nullable column: unknown, hence not selected, on NULL.\<close>

definition before :: "time option \<Rightarrow> time \<Rightarrow> bool" where
  "before t now = (case t of None \<Rightarrow> False | Some x \<Rightarrow> x < now)"

lemma before_simps [simp]:
  "\<not> before None now" "before (Some x) now \<longleftrightarrow> x < now"
  by (simp_all add: before_def)

lemma before_mono: "before t now \<Longrightarrow> now \<le> now' \<Longrightarrow> before t now'"
  by (auto simp: before_def split: option.splits)

section \<open>Tables\<close>

text \<open>SQL's \<open>UPDATE ... SET ... WHERE ...\<close> on a list of rows.\<close>

definition update_where :: "('r \<Rightarrow> bool) \<Rightarrow> ('r \<Rightarrow> 'r) \<Rightarrow> 'r list \<Rightarrow> 'r list" where
  "update_where P f rows = map (\<lambda>r. if P r then f r else r) rows"

text \<open>Selection of the row with a key.\<close>

definition row_at :: "('r \<Rightarrow> 'k) \<Rightarrow> 'k \<Rightarrow> 'r list \<Rightarrow> 'r option" where
  "row_at key k rows = find (\<lambda>r. key r = k) rows"

lemma update_where_Nil [simp]: "update_where P f [] = []"
  by (simp add: update_where_def)

lemma update_where_Cons [simp]:
  "update_where P f (r # rows) = (if P r then f r else r) # update_where P f rows"
  by (simp add: update_where_def)

lemma set_update_where:
  "set (update_where P f rows) = (\<lambda>r. if P r then f r else r) ` set rows"
  by (simp add: update_where_def)

lemma length_update_where [simp]: "length (update_where P f rows) = length rows"
  by (simp add: update_where_def)

lemma update_where_none: "(\<And>r. r \<in> set rows \<Longrightarrow> \<not> P r) \<Longrightarrow> update_where P f rows = rows"
  by (induction rows) auto

lemma map_key_update_where:
  "(\<And>r. key (f r) = key r) \<Longrightarrow> map key (update_where P f rows) = map key rows"
  by (induction rows) auto

lemma ball_update_where:
  assumes "\<forall>r\<in>set rows. Q r" and "\<And>r. r \<in> set rows \<Longrightarrow> Q r \<Longrightarrow> P r \<Longrightarrow> Q' (f r)"
    and "\<And>r. r \<in> set rows \<Longrightarrow> Q r \<Longrightarrow> \<not> P r \<Longrightarrow> Q' r"
  shows "\<forall>r\<in>set (update_where P f rows). Q' r"
  using assms by (auto simp: set_update_where)

lemma row_at_Nil [simp]: "row_at key k [] = None"
  by (simp add: row_at_def)

lemma row_at_Cons [simp]:
  "row_at key k (r # rows) = (if key r = k then Some r else row_at key k rows)"
  by (simp add: row_at_def)

lemma row_at_None: "row_at key k rows = None \<longleftrightarrow> k \<notin> key ` set rows"
  by (induction rows) auto

lemma row_at_key: "row_at key k rows = Some r \<Longrightarrow> key r = k"
  by (induction rows) (auto split: if_splits)

lemma row_at_in: "row_at key k rows = Some r \<Longrightarrow> r \<in> set rows"
  by (induction rows) (auto split: if_splits)

lemma row_atI: "distinct (map key rows) \<Longrightarrow> r \<in> set rows \<Longrightarrow> row_at key (key r) rows = Some r"
  by (induction rows) force+

lemma row_at_iff:
  "distinct (map key rows) \<Longrightarrow> row_at key k rows = Some r \<longleftrightarrow> r \<in> set rows \<and> key r = k"
  by (metis row_atI row_at_in row_at_key)

lemma row_at_update_where:
  "(\<And>r. key (f r) = key r) \<Longrightarrow>
   row_at key k (update_where P f rows) =
     map_option (\<lambda>r. if P r then f r else r) (row_at key k rows)"
  by (induction rows) auto

lemma row_at_append:
  "row_at key k (xs @ ys) = (case row_at key k xs of None \<Rightarrow> row_at key k ys | Some r \<Rightarrow> Some r)"
  by (induction xs) auto

lemma row_at_filter_key:
  "(\<And>r. r \<in> set rows \<Longrightarrow> key r = k \<Longrightarrow> P r) \<Longrightarrow> row_at key k (filter P rows) = row_at key k rows"
  by (induction rows) auto

lemma row_at_filter:
  "distinct (map key rows) \<Longrightarrow>
   row_at key k (filter P rows) =
     (case row_at key k rows of None \<Rightarrow> None | Some r \<Rightarrow> if P r then Some r else None)"
proof (induction rows)
  case (Cons a rows)
  then have a: "row_at key (key a) rows = None" by (simp add: row_at_None)
  have "row_at key (key a) (filter P rows) = None"
    using Cons.prems by (auto simp: row_at_None)
  with a Cons show ?case by auto
qed simp

lemma distinct_map_filter_key: "distinct (map key rows) \<Longrightarrow> distinct (map key (filter P rows))"
  by (induction rows) auto

lemma distinct_keys_eq:
  "distinct (map key rows) \<Longrightarrow> r \<in> set rows \<Longrightarrow> s \<in> set rows \<Longrightarrow> key r = key s \<Longrightarrow> r = s"
  by (auto simp: distinct_map inj_on_def)

section \<open>Sorting\<close>

lemma sorted_take: "sorted (map f xs) \<Longrightarrow> sorted (map f (take n xs))"
  by (metis sorted_wrt_take take_map)

lemma filter_sort_key:
  "filter P (sort_key f xs) = sort_key f (filter P xs)"
  by (simp add: filter_sort)

lemma sorted_take_drop:
  "sorted (map f xs) \<Longrightarrow> x \<in> set (take n xs) \<Longrightarrow> y \<in> set (drop n xs) \<Longrightarrow> f x \<le> f y"
proof -
  assume "sorted (map f xs)" and xy: "x \<in> set (take n xs)" "y \<in> set (drop n xs)"
  then have "sorted (map f (take n xs) @ map f (drop n xs))"
    by (simp flip: map_append)
  with xy show ?thesis by (auto simp: sorted_append)
qed

lemma take_all_or_full: "length (take n xs) < n \<Longrightarrow> take n xs = xs"
  by (simp add: min_def split: if_splits)

end
