(* ===== verification/Goerr.thy ===== *)
theory Goerr
  imports Prelude
begin

text \<open>
  Go error values as \<open>internal/engine\<close> builds and inspects them
  (\<open>errors.go\<close>, \<open>sleep.go\<close>, the sentinels of \<open>job.go\<close>): package-level sentinels,
  opaque errors, \<open>fmt.Errorf\<close> with one wrapped error, the permanent marker, the
  suspension request and \<open>errors.Join\<close>. An error interface that is nil is the absence
  of an error, the \<open>Inr\<close> of a result or the \<open>None\<close> of an option.
\<close>

section \<open>Error values\<close>

text \<open>
  A sentinel is compared by identity; \<open>App_error\<close> stands for a package-level error
  variable of an application, identified by its message.
\<close>

datatype sentinel =
    ErrNotFound
  | ErrInvalidTransition
  | ErrInvalidStatus
  | ErrPermanent
  | App_error string

text \<open>
  \<open>Wrapf pre err post\<close> is \<open>fmt.Errorf\<close> whose format has one \<open>%w\<close>, with the text before
  and after it. \<open>PermanentError\<close> is \<open>permanentError\<close>, \<open>SuspendError\<close> the pointer type of
  \<open>sleep.go\<close> with its \<open>RunAfter\<close>.
\<close>

datatype goerr =
    Sentinel sentinel
  | New string
  | Wrapf string goerr string
  | PermanentError goerr
  | SuspendError time
  | Join "goerr list"

text \<open>\<open>errors.Is\<close> against a sentinel: identity, then the \<open>Is\<close> method, then what is wrapped.\<close>

fun errors_Is :: "goerr \<Rightarrow> sentinel \<Rightarrow> bool" where
  "errors_Is (Sentinel s) target = (s = target)"
| "errors_Is (New msg) target = False"
| "errors_Is (Wrapf pre err post) target = errors_Is err target"
| "errors_Is (PermanentError err) target = (target = ErrPermanent \<or> errors_Is err target)"
| "errors_Is (SuspendError t) target = False"
| "errors_Is (Join errs) target = list_ex (\<lambda>err. errors_Is err target) errs"

text \<open>\<open>errors.As\<close> for \<open>*SuspendError\<close>: the first suspension in the tree, depth first.\<close>

fun first_some :: "'a option list \<Rightarrow> 'a option" where
  "first_some [] = None"
| "first_some (None # xs) = first_some xs"
| "first_some (Some x # xs) = Some x"

fun errors_As_suspend :: "goerr \<Rightarrow> time option" where
  "errors_As_suspend (Sentinel s) = None"
| "errors_As_suspend (New msg) = None"
| "errors_As_suspend (Wrapf pre err post) = errors_As_suspend err"
| "errors_As_suspend (PermanentError err) = errors_As_suspend err"
| "errors_As_suspend (SuspendError t) = Some t"
| "errors_As_suspend (Join errs) = first_some (map errors_As_suspend errs)"

section \<open>The permanent marker\<close>

text \<open>\<open>Permanent\<close> maps nil to nil.\<close>

definition Permanent :: "goerr option \<Rightarrow> goerr option" where
  "Permanent err = (case err of None \<Rightarrow> None | Some x \<Rightarrow> Some (PermanentError x))"

definition IsPermanent :: "goerr \<Rightarrow> bool" where
  "IsPermanent err = errors_Is err ErrPermanent"

section \<open>Messages\<close>

text \<open>\<open>fmt\<close>'s \<open>%q\<close> on printable text: double quotes with the escapes of \<open>strconv.Quote\<close>.\<close>

definition hex_digit :: "int \<Rightarrow> char" where
  "hex_digit n = char_of (if n mod 16 < 10 then 48 + n mod 16 else 87 + n mod 16)"

definition quote_char :: "char \<Rightarrow> string" where
  "quote_char c =
     (if c = CHR 0x22 then [CHR 0x5C, CHR 0x22]
      else if c = CHR 0x5C then [CHR 0x5C, CHR 0x5C]
      else if c = CHR 0x07 then [CHR 0x5C, CHR ''a'']
      else if c = CHR 0x08 then [CHR 0x5C, CHR ''b'']
      else if c = CHR 0x0C then [CHR 0x5C, CHR ''f'']
      else if c = CHR 0x0A then [CHR 0x5C, CHR ''n'']
      else if c = CHR 0x0D then [CHR 0x5C, CHR ''r'']
      else if c = CHR 0x09 then [CHR 0x5C, CHR ''t'']
      else if c = CHR 0x0B then [CHR 0x5C, CHR ''v'']
      else if of_char c < (32 :: int) \<or> of_char c = (127 :: int)
        then [CHR 0x5C, CHR ''x'', hex_digit (of_char c div 16), hex_digit (of_char c)]
      else [c])"

definition quoted :: "string \<Rightarrow> string" where
  "quoted s = [CHR 0x22] @ concat (map quote_char s) @ [CHR 0x22]"

text \<open>\<open>%d\<close> on an integer.\<close>

function digits :: "int \<Rightarrow> string" where
  "digits x =
     (if x < 10 then [char_of (48 + x)] else digits (x div 10) @ [char_of (48 + x mod 10)])"
  by pat_completeness auto
termination by (relation "measure nat") auto

declare digits.simps [simp del]

definition int_str :: "int \<Rightarrow> string" where
  "int_str n = (if n < 0 then ''-'' @ digits (- n) else digits n)"

section \<open>Facts\<close>

text \<open>Marking keeps every match, adds the permanent one, and hides no suspension.\<close>

lemma PermanentError_Is [simp]: "IsPermanent (PermanentError err)"
  by (simp add: IsPermanent_def)

lemma Permanent_Some [simp]: "Permanent (Some err) = Some (PermanentError err)"
  by (simp add: Permanent_def)

lemma Permanent_None [simp]: "Permanent None = None"
  by (simp add: Permanent_def)

lemma IsPermanent_simps [simp]:
  "IsPermanent (New msg) = False"
  "IsPermanent (Wrapf pre err post) = IsPermanent err"
  "IsPermanent (SuspendError t) = False"
  "IsPermanent (Sentinel s) = (s = ErrPermanent)"
  "IsPermanent (Join errs) = list_ex IsPermanent errs"
  by (simp_all add: IsPermanent_def [abs_def])

lemma first_some_None: "first_some xs = None \<longleftrightarrow> (\<forall>x\<in>set xs. x = None)"
  by (induction xs rule: first_some.induct) auto

lemma first_some_map_Some:
  "x \<in> set xs \<Longrightarrow> f x = Some y \<Longrightarrow> \<exists>z. first_some (map f xs) = Some z"
proof (induction xs)
  case (Cons a xs)
  then show ?case by (cases "f a") auto
qed simp

end
