(* ===== verification/Gotime.thy ===== *)
theory Gotime
  imports Goerr
begin

text \<open>
  What the program uses of Go's \<open>time\<close> package as text: \<open>Format(time.RFC3339)\<close> of an
  instant in UTC and the JSON form of a time (\<open>json.Marshal\<close> and \<open>json.Unmarshal\<close> of a
  \<open>time.Time\<close>), over the proleptic Gregorian calendar; and the message of every error
  value (\<open>err.Error()\<close>), since a suspension prints its due time.
\<close>

section \<open>Calendar\<close>

text \<open>
  Years count from 1, days from 1 January of year 1. \<open>year_days y\<close> is the number of days
  before year \<open>y\<close>; the year of a day is found by counting on from a year that cannot lie
  after it.
\<close>

definition year_days :: "int \<Rightarrow> int" where
  "year_days y = (let k = y - 1 in 365 * k + k div 4 - k div 100 + k div 400)"

definition leap :: "int \<Rightarrow> bool" where
  "leap y \<longleftrightarrow> y mod 4 = 0 \<and> (y mod 100 \<noteq> 0 \<or> y mod 400 = 0)"

lemma div_step:
  fixes k c :: int
  assumes "0 < c"
  shows "(k + 1) div c = k div c + (if (k + 1) mod c = 0 then 1 else 0)"
proof -
  have k: "k + 1 = c * (k div c) + (k mod c + 1)" by simp
  have r: "0 \<le> k mod c" "k mod c < c" using assms by simp_all
  show ?thesis
  proof (cases "k mod c + 1 = c")
    case True
    then have "k + 1 = c * (k div c + 1) + 0" using k by (simp add: algebra_simps)
    then have "(k + 1) div c = k div c + 1" "(k + 1) mod c = 0"
      using assms int_div_pos_eq int_mod_pos_eq by (metis order_refl)+
    then show ?thesis by simp
  next
    case False
    then have "(k + 1) div c = k div c" "(k + 1) mod c = k mod c + 1"
      using r int_div_pos_eq [OF k] int_mod_pos_eq [OF k] by simp_all
    then show ?thesis using r by simp
  qed
qed

lemma leap_step: "(k + 1) div 4 - (k + 1) div 100 + (k + 1) div 400
    = k div 4 - k div 100 + k div 400 + (if leap (k + 1) then 1 else 0)" for k :: int
proof -
  have "(400 :: int) dvd x \<Longrightarrow> 100 dvd x" "(100 :: int) dvd x \<Longrightarrow> 4 dvd x" for x
    by (auto intro: dvd_trans)
  then have m: "(k + 1) mod 400 = 0 \<Longrightarrow> (k + 1) mod 100 = 0" "(k + 1) mod 100 = 0 \<Longrightarrow> (k + 1) mod 4 = 0"
    by (simp_all add: dvd_eq_mod_eq_0 [symmetric])
  define a b c where "a \<longleftrightarrow> (k + 1) mod 4 = 0" and "b \<longleftrightarrow> (k + 1) mod 100 = 0" and "c \<longleftrightarrow> (k + 1) mod 400 = 0"
  have d: "(k + 1) div 4 = k div 4 + (if a then 1 else 0)" "(k + 1) div 100 = k div 100 + (if b then 1 else 0)"
    "(k + 1) div 400 = k div 400 + (if c then 1 else 0)"
    by (simp_all only: div_step a_def b_def c_def zero_less_numeral)
  have l: "leap (k + 1) \<longleftrightarrow> a \<and> (\<not> b \<or> c)" by (simp only: leap_def a_def b_def c_def)
  have "c \<Longrightarrow> b" "b \<Longrightarrow> a" using m by (simp_all only: a_def b_def c_def)
  then show ?thesis unfolding d l by (cases a; cases b; cases c) simp_all
qed

lemma year_days_Suc: "year_days (y + 1) = year_days y + (if leap y then 366 else 365)"
  using leap_step [of "y - 1"] by (simp add: year_days_def Let_def split: if_splits)

function year_from :: "int \<Rightarrow> int \<Rightarrow> int" where
  "year_from y n = (if year_days (y + 1) \<le> n then year_from (y + 1) n else y)"
  by pat_completeness auto
termination
proof (relation "measure (\<lambda>(y, n). nat (n - year_days y))")
  fix y n :: int assume "year_days (y + 1) \<le> n"
  moreover have "year_days y < year_days (y + 1)" by (simp add: year_days_Suc)
  ultimately show "((y + 1, n), y, n) \<in> measure (\<lambda>(y, n). nat (n - year_days y))" by simp
qed simp

declare year_from.simps [simp del]

definition year_of :: "int \<Rightarrow> int" where
  "year_of n = year_from (1 + min (n div 366) (n div 365)) n"

lemma year_from_bounds:
  "year_days y \<le> n \<Longrightarrow> year_days (year_from y n) \<le> n \<and> n < year_days (year_from y n + 1)"
proof (induction y n rule: year_from.induct)
  case (1 y n)
  then show ?case by (subst (1 2) year_from.simps) auto
qed

lemma year_start: "year_days (1 + min (n div 366) (n div 365)) \<le> n"
proof (cases "0 \<le> n")
  case True
  define k where "k = n div 366"
  have k: "0 \<le> k" "366 * k \<le> n" using True unfolding k_def by (simp, linarith)
  then have "k div 400 \<le> k div 100" "k div 4 \<le> k div 1" by (auto intro: zdiv_mono2)
  moreover have "min (n div 366) (n div 365) = k" using True by (simp add: k_def zdiv_mono2)
  ultimately show ?thesis using k by (simp add: year_days_def)
next
  case False
  define k where "k = n div 365"
  have k: "k < 0" "365 * k \<le> n" using False unfolding k_def by (simp add: neg_imp_zdiv_neg_iff, linarith)
  then have "k div 4 \<le> k div 100" "k div 400 \<le> 0" by (auto intro: zdiv_mono2_neg simp: div_nonpos_pos_le0)
  moreover have "min (n div 366) (n div 365) = k"
    using zdiv_mono2_neg [of n 365 366] False by (simp add: k_def)
  ultimately show ?thesis using k by (simp add: year_days_def)
qed

lemma year_of_bounds: "year_days (year_of n) \<le> n" "n < year_days (year_of n + 1)"
  unfolding year_of_def using year_from_bounds [OF year_start] by blast+

definition month_lengths :: "bool \<Rightarrow> int list" where
  "month_lengths lp = [31, if lp then 29 else 28, 31, 30, 31, 30, 31, 31, 30, 31, 30, 31]"

text \<open>The month and day of a day of the year, walking down the months.\<close>

fun split_month :: "int list \<Rightarrow> int \<Rightarrow> int \<Rightarrow> int \<times> int" where
  "split_month [] m n = (m, n + 1)"
| "split_month (l # ls) m n = (if n < l then (m, n + 1) else split_month ls (m + 1) (n - l))"

definition civil :: "int \<Rightarrow> int \<times> int \<times> int" where
  "civil n = (let y = year_of n; (m, dd) = split_month (month_lengths (leap y)) 1 (n - year_days y)
     in (y, m, dd))"

text \<open>The inverse, \<open>time.Date\<close> on a valid date.\<close>

definition day_number :: "int \<Rightarrow> int \<Rightarrow> int \<Rightarrow> int" where
  "day_number y m dd = year_days y + sum_list (take (nat (m - 1)) (month_lengths (leap y))) + dd - 1"

definition days_in :: "int \<Rightarrow> int \<Rightarrow> int" where
  "days_in y m = month_lengths (leap y) ! nat (m - 1)"

lemma split_month_correct:
  assumes "split_month ls m n = (m', dd)" and "0 \<le> n" and "n < sum_list ls"
  shows "m \<le> m' \<and> m' < m + int (length ls) \<and> 1 \<le> dd \<and> dd \<le> ls ! nat (m' - m)
    \<and> sum_list (take (nat (m' - m)) ls) + dd - 1 = n"
  using assms
proof (induction ls m n rule: split_month.induct)
  case (2 l ls m n)
  show ?case
  proof (cases "n < l")
    case False
    with 2 have ih: "m + 1 \<le> m'" "m' < m + 1 + int (length ls)" "1 \<le> dd" "dd \<le> ls ! nat (m' - (m + 1))"
      "sum_list (take (nat (m' - (m + 1))) ls) + dd - 1 = n - l" by auto
    then have "nat (m' - m) = Suc (nat (m' - (m + 1)))" by linarith
    with ih show ?thesis by simp
  qed (use 2 in auto)
qed simp

lemma sum_month_lengths: "sum_list (month_lengths lp) = (if lp then 366 else 365)"
  by (simp add: month_lengths_def)

lemma civil_correct:
  assumes "civil n = (y, m, dd)"
  shows "y = year_of n" and "1 \<le> m" "m \<le> 12" "1 \<le> dd" "dd \<le> days_in y m" and "day_number y m dd = n"
proof -
  show y: "y = year_of n" using assms by (simp add: civil_def Let_def split: prod.splits)
  have "n - year_days y < sum_list (month_lengths (leap y))" "0 \<le> n - year_days y"
    using year_of_bounds [of n] by (auto simp: y sum_month_lengths year_days_Suc)
  moreover have "split_month (month_lengths (leap y)) 1 (n - year_days y) = (m, dd)"
    using assms y by (simp add: civil_def Let_def split: prod.splits)
  ultimately have "1 \<le> m \<and> m < 1 + int (length (month_lengths (leap y))) \<and> 1 \<le> dd
      \<and> dd \<le> month_lengths (leap y) ! nat (m - 1)
      \<and> sum_list (take (nat (m - 1)) (month_lengths (leap y))) + dd - 1 = n - year_days y"
    by (intro split_month_correct)
  then show "1 \<le> m" "m \<le> 12" "1 \<le> dd" "dd \<le> days_in y m" and "day_number y m dd = n"
    by (auto simp: days_in_def day_number_def month_lengths_def)
qed

lemma days_in_le: "1 \<le> m \<Longrightarrow> m \<le> 12 \<Longrightarrow> days_in y m \<le> 31"
proof -
  assume m: "1 \<le> m" "m \<le> 12"
  then have "nat (m - 1) < length (month_lengths (leap y))" by (simp add: month_lengths_def)
  then have "days_in y m \<in> set (month_lengths (leap y))" unfolding days_in_def by (rule nth_mem)
  then show ?thesis by (auto simp: month_lengths_def split: if_splits)
qed

section \<open>Text\<close>

text \<open>A number in at least \<open>n\<close> digits, with leading zeros.\<close>

definition pad :: "nat \<Rightarrow> int \<Rightarrow> string" where
  "pad n x = (let s = int_str x in replicate (n - length s) CHR ''0'' @ s)"

text \<open>Date and time of day, to the second.\<close>

definition stamp :: "int \<Rightarrow> string" where
  "stamp s =
     (let sod = s mod 86400; (yy, mm, dd) = civil (s div 86400)
      in pad 4 yy @ ''-'' @ pad 2 mm @ ''-'' @ pad 2 dd @ ''T'' @ pad 2 (sod div 3600) @ '':''
         @ pad 2 (sod div 60 mod 60) @ '':'' @ pad 2 (sod mod 60))"

definition rfc3339 :: "time \<Rightarrow> string" where
  "rfc3339 t = stamp (t div second) @ ''Z''"

lemma rfc3339_examples:
  "rfc3339 0 = ''0001-01-01T00:00:00Z''"
  "rfc3339 (62135596800 * second) = ''1970-01-01T00:00:00Z''"
  "rfc3339 (63844847999 * second + 5) = ''2024-02-29T23:59:59Z''"
  by code_simp+

text \<open>\<open>RFC3339Nano\<close>: the fraction of the second without trailing zeros, nothing when zero.\<close>

definition fraction :: "int \<Rightarrow> string" where
  "fraction ns = (if ns = 0 then '''' else ''.'' @ rev (dropWhile (\<lambda>c. c = CHR ''0'') (rev (pad 9 ns))))"

definition rfc3339_nano :: "time \<Rightarrow> string" where
  "rfc3339_nano t = stamp (t div second) @ fraction (t mod second) @ ''Z''"

text \<open>\<open>Time.MarshalJSON\<close>: quoted, refused outside the years 0 to 9999.\<close>

definition marshal_time :: "time \<Rightarrow> bytes option" where
  "marshal_time t =
     (let y = year_of (t div second div 86400)
      in if 0 \<le> y \<and> y \<le> 9999
         then Some ([CHR 0x22] @ stamp (t div second) @ fraction (t mod second) @ ''Z'' @ [CHR 0x22])
         else None)"

section \<open>Parsing\<close>

definition is_digit :: "char \<Rightarrow> bool" where
  "is_digit c \<longleftrightarrow> 48 \<le> (of_char c :: nat) \<and> (of_char c :: nat) \<le> 57"

definition digit_value :: "char \<Rightarrow> int" where
  "digit_value c = of_char c - 48"

fun take_number :: "nat \<Rightarrow> int \<Rightarrow> string \<Rightarrow> (int \<times> string) option" where
  "take_number 0 acc s = Some (acc, s)"
| "take_number (Suc n) acc [] = None"
| "take_number (Suc n) acc (c # s) =
     (if is_digit c then take_number n (10 * acc + digit_value c) s else None)"

fun expect :: "char \<Rightarrow> string \<Rightarrow> string option" where
  "expect c [] = None"
| "expect c (x # s) = (if x = c then Some s else None)"

text \<open>A two-digit or four-digit field within bounds, after its separator.\<close>

definition field :: "string \<Rightarrow> nat \<Rightarrow> int \<Rightarrow> int \<Rightarrow> string \<Rightarrow> (int \<times> string) option" where
  "field sep n lo hi s =
     (if take (length sep) s = sep then
        (case take_number n 0 (drop (length sep) s) of
           None \<Rightarrow> None
         | Some (x, r) \<Rightarrow> if lo \<le> x \<and> x \<le> hi then Some (x, r) else None)
      else None)"

text \<open>Nanoseconds of an optional fraction: the first nine digits count.\<close>

definition parse_fraction :: "string \<Rightarrow> int \<times> string" where
  "parse_fraction s =
     (case s of
        p # c # r \<Rightarrow>
          if p = CHR ''.'' \<and> is_digit c then
            let ds = takeWhile is_digit (c # r); nine = take 9 (ds @ replicate 9 CHR ''0'')
            in (foldl (\<lambda>acc x. 10 * acc + digit_value x) 0 nine, dropWhile is_digit (c # r))
          else (0, s)
      | _ \<Rightarrow> (0, s))"

text \<open>\<open>Z\<close> or a numeric offset, in seconds.\<close>

definition parse_zone :: "string \<Rightarrow> int option" where
  "parse_zone s =
     (if s = ''Z'' then Some 0
      else if s \<noteq> [] \<and> hd s \<in> {CHR ''+'', CHR ''-''} then
        (case field '''' 2 0 23 (tl s) of None \<Rightarrow> None
         | Some (h, r) \<Rightarrow> (case field '':'' 2 0 59 r of
             Some (m, []) \<Rightarrow> Some ((if hd s = CHR ''-'' then -1 else 1) * (3600 * h + 60 * m))
           | _ \<Rightarrow> None))
      else None)"

definition parse_rfc3339 :: "string \<Rightarrow> time option" where
  "parse_rfc3339 s =
     (case field '''' 4 0 9999 s of None \<Rightarrow> None | Some (yy, s) \<Rightarrow>
      case field ''-'' 2 1 12 s of None \<Rightarrow> None | Some (mm, s) \<Rightarrow>
      case field ''-'' 2 1 (days_in yy mm) s of None \<Rightarrow> None | Some (dd, s) \<Rightarrow>
      case field ''T'' 2 0 23 s of None \<Rightarrow> None | Some (h, s) \<Rightarrow>
      case field '':'' 2 0 59 s of None \<Rightarrow> None | Some (mi, s) \<Rightarrow>
      case field '':'' 2 0 59 s of None \<Rightarrow> None | Some (sec, s) \<Rightarrow>
      let (ns, z) = parse_fraction s
      in case parse_zone z of None \<Rightarrow> None | Some off \<Rightarrow>
        Some ((day_number yy mm dd * 86400 + 3600 * h + 60 * mi + sec - off) * second + ns))"

text \<open>\<open>Time.UnmarshalJSON\<close> into a zero time: \<open>null\<close> leaves it zero.\<close>

definition unmarshal_time :: "bytes \<Rightarrow> time option" where
  "unmarshal_time s =
     (if s = ''null'' then Some 0
      else if 2 \<le> length s \<and> hd s = CHR 0x22 \<and> last s = CHR 0x22
        then parse_rfc3339 (butlast (tl s))
      else None)"

lemma time_json_examples:
  "marshal_time (63844847999 * second + 5000000) = Some ([CHR 0x22] @ ''2024-02-29T23:59:59.005Z'' @ [CHR 0x22])"
  "unmarshal_time ([CHR 0x22] @ ''2024-02-29T23:59:59.005Z'' @ [CHR 0x22]) = Some (63844847999 * second + 5000000)"
  "unmarshal_time ([CHR 0x22] @ ''2024-03-01T00:59:59+01:00'' @ [CHR 0x22]) = Some (63844847999 * second)"
  by code_simp+

section \<open>Round trip\<close>

text \<open>Fixed-width decimal numbers.\<close>

fun dig :: "nat \<Rightarrow> int \<Rightarrow> string" where
  "dig 0 x = []"
| "dig (Suc n) x = dig n (x div 10) @ [char_of (48 + x mod 10)]"

abbreviation decimal :: "int \<Rightarrow> string \<Rightarrow> int" where
  "decimal \<equiv> foldl (\<lambda>acc c. 10 * acc + digit_value c)"

lemma digit_char: "is_digit (char_of (48 + x mod 10 :: int))" "digit_value (char_of (48 + x mod 10 :: int)) = x mod 10"
proof -
  have r: "0 \<le> x mod 10" "x mod 10 < 10" by simp_all
  have v: "(48 + x mod 10) mod 256 = 48 + x mod 10" using r by simp
  have i: "of_char (char_of (48 + x mod 10 :: int)) = (48 + x mod 10 :: int)" using v by simp
  then show "digit_value (char_of (48 + x mod 10 :: int)) = x mod 10" by (simp add: digit_value_def)
  have "int (of_char (char_of (48 + x mod 10 :: int))) = 48 + x mod 10" using i by (simp only: of_nat_of_char)
  then show "is_digit (char_of (48 + x mod 10 :: int))" unfolding is_digit_def using r by linarith
qed

lemma dig_digits: "list_all is_digit (dig n x)" "length (dig n x) = n"
  by (induction n arbitrary: x) (simp_all add: digit_char)

lemma read_dig: "decimal acc (dig n x) = acc * 10 ^ n + x mod 10 ^ n"
proof (induction n arbitrary: x)
  case (Suc n)
  have "x mod 10 ^ Suc n = 10 * (x div 10 mod 10 ^ n) + x mod 10"
    by (simp add: zmod_zmult2_eq)
  with Suc show ?case by (simp add: digit_char algebra_simps)
qed simp

lemma take_number_read:
  "list_all is_digit ds \<Longrightarrow> take_number (length ds) acc (ds @ r) = Some (decimal acc ds, r)"
  by (induction ds arbitrary: acc) auto

lemma take_number_dig: "0 \<le> x \<Longrightarrow> x < 10 ^ n \<Longrightarrow> take_number n 0 (dig n x @ r) = Some (x, r)"
  using take_number_read [OF dig_digits(1), of n x 0 r] by (simp add: dig_digits(2) read_dig)

lemma dig_small: "0 \<le> x \<Longrightarrow> x < 10 \<Longrightarrow> dig (Suc n) x = replicate n CHR ''0'' @ [char_of (48 + x)]"
proof -
  have "dig n 0 = replicate n CHR ''0''" for n
    by (induction n) (simp_all add: replicate_append_same char_of_def)
  then show "0 \<le> x \<Longrightarrow> x < 10 \<Longrightarrow> dig (Suc n) x = replicate n CHR ''0'' @ [char_of (48 + x)]"
    by simp
qed

lemma pad_dig: "0 \<le> x \<Longrightarrow> x < 10 ^ Suc n \<Longrightarrow> pad (Suc n) x = dig (Suc n) x"
proof (induction n arbitrary: x)
  case 0
  then show ?case by (simp add: pad_def int_str_def Let_def digits.simps [of x])
next
  case (Suc n)
  show ?case
  proof (cases "x < 10")
    case True
    then show ?thesis
      using Suc.prems dig_small [of x "Suc n"] by (simp add: pad_def int_str_def Let_def digits.simps [of x] del: dig.simps)
  next
    case False
    have ih: "pad (Suc n) (x div 10) = dig (Suc n) (x div 10)" using Suc by simp
    have "digits x = digits (x div 10) @ [char_of (48 + x mod 10)]" using False by (subst digits.simps) simp
    then have "pad (Suc (Suc n)) x = pad (Suc n) (x div 10) @ [char_of (48 + x mod 10)]"
      using False Suc.prems by (simp add: pad_def int_str_def Let_def)
    then show ?thesis using ih by simp
  qed
qed

lemma field_pad:
  assumes "0 \<le> x" "x < 10 ^ Suc n" "lo \<le> x" "x \<le> hi"
  shows "field '''' (Suc n) lo hi (pad (Suc n) x @ r) = Some (x, r)"
    and "field [c] (Suc n) lo hi (c # pad (Suc n) x @ r) = Some (x, r)"
  using assms take_number_dig [of x "Suc n" r] by (simp_all add: field_def pad_dig)

lemma parse_fraction_fraction:
  assumes "0 \<le> ns" "ns < 10 ^ 9"
  shows "parse_fraction (fraction ns @ ''Z'') = (ns, ''Z'')"
proof (cases "ns = 0")
  case False
  let ?z = "\<lambda>c. c = CHR ''0''"
  define f where "f = rev (dropWhile ?z (rev (pad 9 ns)))"
  define k where "k = length (takeWhile ?z (rev (pad 9 ns)))"
  have p: "pad 9 ns = dig 9 ns" using pad_dig [of ns 8] assms by simp
  have "replicate k CHR ''0'' = takeWhile ?z (rev (pad 9 ns))"
    unfolding k_def by (rule replicate_length_same) (blast dest: set_takeWhileD)
  then have "rev (pad 9 ns) = replicate k CHR ''0'' @ rev f" unfolding f_def by simp
  then have "rev (rev (pad 9 ns)) = rev (replicate k CHR ''0'' @ rev f)" by (rule arg_cong)
  then have fk: "dig 9 ns = f @ replicate k CHR ''0''" by (simp add: p)
  have ds: "list_all is_digit f" using dig_digits(1) [of 9 ns] by (simp add: fk)
  have len: "length f + k = 9" using dig_digits(2) [of 9 ns] by (simp add: fk)
  have "f \<noteq> []"
  proof
    assume "f = []"
    then have "decimal 0 (dig 9 ns) = decimal 0 (replicate k CHR ''0'')" by (simp add: fk)
    moreover have "decimal 0 (replicate k CHR ''0'') = 0" by (induction k) (simp_all add: digit_value_def)
    ultimately show False using assms False by (simp add: read_dig)
  qed
  then obtain c r where f: "f = c # r" by (cases f) auto
  have "take 9 (f @ replicate 9 CHR ''0'') = dig 9 ns"
    using len by (simp add: fk min_def)
  then have "decimal 0 (take 9 (f @ replicate 9 CHR ''0'')) = ns" using assms by (simp add: read_dig)
  moreover have "takeWhile is_digit (f @ ''Z'') = f" "dropWhile is_digit (f @ ''Z'') = ''Z''"
    using ds by (simp_all add: list_all_iff takeWhile_append2 dropWhile_append2 is_digit_def)
  ultimately show ?thesis
    using False ds assms by (simp add: fraction_def f_def [symmetric] parse_fraction_def f read_dig)
qed (simp add: fraction_def parse_fraction_def)

lemma seconds_split:
  fixes s :: int
  shows "s div 86400 * 86400 + 3600 * (s mod 86400 div 3600) + 60 * (s mod 86400 div 60 mod 60) + s mod 86400 mod 60 = s"
proof -
  let ?r = "s mod 86400"
  have "?r div 60 div 60 = ?r div 3600" by (simp add: zdiv_zmult2_eq [symmetric])
  then show ?thesis
    using mult_div_mod_eq [of 60 ?r] mult_div_mod_eq [of 60 "?r div 60"] mult_div_mod_eq [of 86400 s] by linarith
qed

lemma field_2: "0 \<le> x \<Longrightarrow> x \<le> 99 \<Longrightarrow> lo \<le> x \<Longrightarrow> x \<le> hi \<Longrightarrow> field [c] 2 lo hi (c # pad 2 x @ r) = Some (x, r)"
  using field_pad(2) [of x 1 lo hi c r] by (simp add: numeral_2_eq_2)

lemma field_4: "0 \<le> x \<Longrightarrow> x \<le> 9999 \<Longrightarrow> field '''' 4 0 9999 (pad 4 x @ r) = Some (x, r)"
  using field_pad(1) [of x 3 0 9999 r] by (simp add: eval_nat_numeral)

lemma parse_fields:
  assumes "0 \<le> yy" "yy \<le> 9999" "1 \<le> mm" "mm \<le> 12" "1 \<le> dd" "dd \<le> days_in yy mm"
    and "0 \<le> h" "h \<le> 23" "0 \<le> mi" "mi \<le> 59" "0 \<le> se" "se \<le> 59" "0 \<le> ns" "ns < 10 ^ 9"
  shows "parse_rfc3339 (pad 4 yy @ ''-'' @ pad 2 mm @ ''-'' @ pad 2 dd @ ''T'' @ pad 2 h @ '':''
      @ pad 2 mi @ '':'' @ pad 2 se @ fraction ns @ ''Z'')
    = Some ((day_number yy mm dd * 86400 + 3600 * h + 60 * mi + se) * second + ns)"
proof -
  have "dd \<le> 31" using assms(3,4,6) days_in_le by (meson order_trans)
  then have f: "field '''' 4 0 9999 (pad 4 yy @ r) = Some (yy, r)"
    "field ''-'' 2 1 12 (CHR ''-'' # pad 2 mm @ r) = Some (mm, r)"
    "field ''-'' 2 1 (days_in yy mm) (CHR ''-'' # pad 2 dd @ r) = Some (dd, r)"
    "field ''T'' 2 0 23 (CHR ''T'' # pad 2 h @ r) = Some (h, r)"
    "field '':'' 2 0 59 (CHR '':'' # pad 2 mi @ r) = Some (mi, r)"
    "field '':'' 2 0 59 (CHR '':'' # pad 2 se @ r) = Some (se, r)" for r
    using assms by (simp_all add: field_2 field_4)
  have z: "parse_zone ''Z'' = Some 0" by (simp add: parse_zone_def)
  show ?thesis
    unfolding parse_rfc3339_def append_Cons append_Nil f option.case prod.case Let_def
      parse_fraction_fraction [OF assms(13,14), unfolded append_Cons append_Nil] z by simp
qed

lemma unmarshal_quoted: "unmarshal_time ([CHR 0x22] @ s @ [CHR 0x22]) = parse_rfc3339 s"
  by (simp add: unmarshal_time_def butlast_append)

lemma rfc3339_nano_read:
  assumes "0 \<le> year_of (t div second div 86400)" and "year_of (t div second div 86400) \<le> 9999"
  shows "parse_rfc3339 (rfc3339_nano t) = Some t"
proof -
  define sec where "sec = t div second"
  define ns where "ns = t mod second"
  obtain yy mm dd where c: "civil (sec div 86400) = (yy, mm, dd)" by (cases "civil (sec div 86400)") auto
  note cc = civil_correct [OF c]
  let ?body = "stamp sec @ fraction ns @ ''Z''"
  have y: "0 \<le> yy" "yy \<le> 9999" using assms cc(1) by (simp_all add: sec_def)
  have h: "0 \<le> sec mod 86400 div 3600" "sec mod 86400 div 3600 \<le> 23"
    using zdiv_mono1 [of "sec mod 86400" 86399 3600] zdiv_mono1 [of 0 "sec mod 86400" 3600] by simp_all
  have m: "0 \<le> x mod 60" "x mod 60 \<le> 59" for x :: int
    using pos_mod_bound [of 60 x] by simp_all
  have ns: "0 \<le> ns" "ns < 10 ^ 9" by (simp_all add: ns_def)
  have "parse_rfc3339 ?body = Some ((day_number yy mm dd * 86400 + 3600 * (sec mod 86400 div 3600)
      + 60 * (sec mod 86400 div 60 mod 60) + sec mod 86400 mod 60) * second + ns)"
    unfolding stamp_def Let_def c prod.case append_assoc
    by (rule parse_fields) (fact y cc(2-5) h m ns)+
  moreover have "day_number yy mm dd = sec div 86400" by (rule cc(6))
  ultimately have "parse_rfc3339 ?body = Some (sec * second + ns)" using seconds_split [of sec] by simp
  then show ?thesis by (simp add: rfc3339_nano_def sec_def ns_def)
qed

text \<open>
  A deadline survives its checkpoint. Every instant of the years 0 to 9999 has a JSON
  form, and reading that form back gives the same instant to the nanosecond.
\<close>

lemma time_json_roundtrip:
  assumes "0 \<le> year_of (t div second div 86400)" and "year_of (t div second div 86400) \<le> 9999"
  shows "\<exists>s. marshal_time t = Some s \<and> unmarshal_time s = Some t"
proof -
  have "marshal_time t = Some ([CHR 0x22] @ rfc3339_nano t @ [CHR 0x22])"
    using assms by (simp add: marshal_time_def rfc3339_nano_def Let_def)
  then show ?thesis using unmarshal_quoted rfc3339_nano_read [OF assms] by metis
qed

lemma time_json_roundtrip_witness:
  "let t = 63844847999 * second + 5 in \<exists>s. marshal_time t = Some s \<and> unmarshal_time s = Some t"
proof -
  have "year_of ((63844847999 * second + 5) div second div 86400) = 2024" by code_simp
  then show ?thesis unfolding Let_def by (intro time_json_roundtrip) simp_all
qed

section \<open>Messages of error values\<close>

fun sentinel_string :: "sentinel \<Rightarrow> string" where
  "sentinel_string ErrNotFound = ''job not found''"
| "sentinel_string ErrInvalidTransition = ''invalid job state transition''"
| "sentinel_string ErrInvalidStatus = ''invalid job status''"
| "sentinel_string ErrPermanent = ''permanent failure''"
| "sentinel_string (App_error msg) = msg"

fun join_lines :: "string list \<Rightarrow> string" where
  "join_lines [] = ''''"
| "join_lines [s] = s"
| "join_lines (s # ss) = s @ [CHR 0x0A] @ join_lines ss"

fun err_string :: "goerr \<Rightarrow> string" where
  "err_string (Sentinel s) = sentinel_string s"
| "err_string (New msg) = msg"
| "err_string (Wrapf pre err post) = pre @ err_string err @ post"
| "err_string (PermanentError err) = err_string err"
| "err_string (SuspendError t) = ''suspend until '' @ rfc3339 t"
| "err_string (Join errs) = join_lines (map err_string errs)"

end
