(* ===== verification/Gojson.thy ===== *)
theory Gojson
  imports Gotime
begin

text \<open>
  What the program uses of \<open>encoding/json\<close> on strings: \<open>json.Marshal\<close> of a string and
  \<open>json.Unmarshal\<close> into a string, on byte strings. Bytes from 0x80 on are passed through,
  as Go does with valid UTF-8 (U+2028 and U+2029, which it escapes, excepted).
\<close>

section \<open>Encoding\<close>

definition html_char :: "char \<Rightarrow> bool" where
  "html_char c \<longleftrightarrow> c = CHR ''<'' \<or> c = CHR ''>'' \<or> c = CHR ''&''"

definition json_char :: "char \<Rightarrow> string" where
  "json_char c =
     (if c = CHR 0x22 then [CHR 0x5C, CHR 0x22]
      else if c = CHR 0x5C then [CHR 0x5C, CHR 0x5C]
      else if c = CHR 0x08 then [CHR 0x5C, CHR ''b'']
      else if c = CHR 0x0C then [CHR 0x5C, CHR ''f'']
      else if c = CHR 0x0A then [CHR 0x5C, CHR ''n'']
      else if c = CHR 0x0D then [CHR 0x5C, CHR ''r'']
      else if c = CHR 0x09 then [CHR 0x5C, CHR ''t'']
      else if of_char c < (32 :: int) \<or> html_char c
        then [CHR 0x5C] @ ''u00'' @ [hex_digit (of_char c div 16), hex_digit (of_char c)]
      else [c])"

definition marshal_string :: "string \<Rightarrow> bytes" where
  "marshal_string s = [CHR 0x22] @ concat (map json_char s) @ [CHR 0x22]"

section \<open>Decoding\<close>

definition hex_value :: "char \<Rightarrow> int option" where
  "hex_value c =
     (let v = (of_char c :: int)
      in if 48 \<le> v \<and> v \<le> 57 then Some (v - 48)
         else if 97 \<le> v \<and> v \<le> 102 then Some (v - 87)
         else if 65 \<le> v \<and> v \<le> 70 then Some (v - 55)
         else None)"

fun take_hex :: "nat \<Rightarrow> int \<Rightarrow> string \<Rightarrow> (int \<times> string) option" where
  "take_hex 0 acc s = Some (acc, s)"
| "take_hex (Suc n) acc [] = None"
| "take_hex (Suc n) acc (c # s) =
     (case hex_value c of None \<Rightarrow> None | Some v \<Rightarrow> take_hex n (acc * 16 + v) s)"

text \<open>UTF-8 of a code point; a lone surrogate becomes the replacement character.\<close>

definition utf8 :: "int \<Rightarrow> string" where
  "utf8 n =
     (let n = (if 55296 \<le> n \<and> n < 57344 then 65533 else n)
      in if n < 128 then [char_of n]
         else if n < 2048 then [char_of (192 + n div 64), char_of (128 + n mod 64)]
         else if n < 65536
           then [char_of (224 + n div 4096), char_of (128 + n div 64 mod 64), char_of (128 + n mod 64)]
         else [char_of (240 + n div 262144), char_of (128 + n div 4096 mod 64),
               char_of (128 + n div 64 mod 64), char_of (128 + n mod 64)])"

fun simple_escape :: "char \<Rightarrow> char option" where
  "simple_escape c =
     (if c = CHR 0x22 \<or> c = CHR 0x5C \<or> c = CHR 0x2F then Some c
      else if c = CHR ''b'' then Some (CHR 0x08)
      else if c = CHR ''f'' then Some (CHR 0x0C)
      else if c = CHR ''n'' then Some (CHR 0x0A)
      else if c = CHR ''r'' then Some (CHR 0x0D)
      else if c = CHR ''t'' then Some (CHR 0x09)
      else None)"

text \<open>A second \<open>\u\<close> escape that completes a surrogate pair.\<close>

definition low_surrogate :: "int \<Rightarrow> string \<Rightarrow> (int \<times> string) option" where
  "low_surrogate hi s =
     (if 55296 \<le> hi \<and> hi < 56320 \<and> take 2 s = [CHR 0x5C, CHR ''u''] then
        (case take_hex 4 0 (drop 2 s) of
           None \<Rightarrow> None
         | Some (lo, r) \<Rightarrow>
             if 56320 \<le> lo \<and> lo < 57344 then Some (65536 + (hi - 55296) * 1024 + (lo - 56320), r) else None)
      else None)"

text \<open>What follows a backslash: the decoded text and the rest.\<close>

definition escape :: "char \<Rightarrow> string \<Rightarrow> (string \<times> string) option" where
  "escape c s =
     (if c = CHR ''u'' then
        (case take_hex 4 0 s of
           None \<Rightarrow> None
         | Some (hi, r) \<Rightarrow>
             (case low_surrogate hi r of Some (n, r') \<Rightarrow> Some (utf8 n, r') | None \<Rightarrow> Some (utf8 hi, r)))
      else (case simple_escape c of None \<Rightarrow> None | Some x \<Rightarrow> Some ([x], s)))"

text \<open>
  The body of a string after its opening quote, up to the closing one. Each step reads at
  least one byte, so the length of the text is enough fuel.
\<close>

fun parse_body :: "nat \<Rightarrow> string \<Rightarrow> (string \<times> string) option" where
  "parse_body 0 s = None"
| "parse_body (Suc n) [] = None"
| "parse_body (Suc n) (c # s) =
     (if c = CHR 0x22 then Some ('''', s)
      else if c = CHR 0x5C then
        (if s = '''' then None
         else (case escape (hd s) (tl s) of
            None \<Rightarrow> None
          | Some (x, r) \<Rightarrow> map_option (\<lambda>(v, z). (x @ v, z)) (parse_body n r)))
      else if of_char c < (32 :: int) then None
      else map_option (\<lambda>(v, z). (c # v, z)) (parse_body n s))"

definition is_space :: "char \<Rightarrow> bool" where
  "is_space c \<longleftrightarrow> c = CHR '' '' \<or> c = CHR 0x09 \<or> c = CHR 0x0A \<or> c = CHR 0x0D"

text \<open>\<open>null\<close> leaves the string empty; anything but a string is an error.\<close>

definition unmarshal_string :: "bytes \<Rightarrow> string option" where
  "unmarshal_string s0 =
     (let s = rev (dropWhile is_space (rev (dropWhile is_space s0)))
      in if s = ''null'' then Some ''''
         else (case s of
            c # s' \<Rightarrow> if c = CHR 0x22 then
                (case parse_body (length s') s' of Some (v, []) \<Rightarrow> Some v | _ \<Rightarrow> None)
              else None
          | [] \<Rightarrow> None))"

lemma string_json_examples:
  "unmarshal_string (marshal_string ''a<b'') = Some ''a<b''"
  "unmarshal_string ([CHR 0x22, CHR 0x5C] @ ''u00e9'' @ [CHR 0x22]) = Some [CHR 0xC3, CHR 0xA9]"
  "unmarshal_string ''12'' = None"
  by code_simp+

section \<open>Round trip\<close>

lemma hex_digit_value [simp]: "hex_value (hex_digit n) = Some (n mod 16)"
proof -
  have r: "0 \<le> n mod 16" "n mod 16 < 16" by simp_all
  define v where "v = (if n mod 16 < 10 then 48 + n mod 16 else 87 + n mod 16)"
  have "v mod 256 = v" using r by (simp add: v_def)
  then have "of_char (hex_digit n) = v" by (simp add: hex_digit_def v_def [symmetric])
  then show ?thesis using r by (auto simp: hex_value_def v_def Let_def)
qed

lemma of_char_range: "0 \<le> (of_char c :: int)" "(of_char c :: int) < 256"
  using of_char_mod_256 [of c, where 'a = int] pos_mod_bound [of 256 "of_char c :: int"] pos_mod_sign [of 256 "of_char c :: int"]
  by simp_all

lemma char_of_of_char_int: "char_of (of_char c :: int) = c"
  by simp

lemma escape_low: "of_char c < (128 :: int) \<Longrightarrow>
    escape (CHR ''u'') (CHR ''0'' # CHR ''0'' # hex_digit (of_char c div 16) # hex_digit (of_char c) # r) = Some ([c], r)"
proof -
  assume c: "of_char c < (128 :: int)"
  define n where "n = (of_char c :: int)"
  have n: "0 \<le> n" "n < 128" "char_of n = c" using c of_char_range [of c] by (simp_all add: n_def)
  have z: "hex_value (CHR ''0'') = Some 0" by code_simp
  have "n div 16 mod 16 * 16 + n mod 16 = n" using n by simp
  then have "take_hex 4 0 (CHR ''0'' # CHR ''0'' # hex_digit (n div 16) # hex_digit n # r) = Some (n, r)"
    by (simp add: eval_nat_numeral z)
  moreover have "low_surrogate n r = None" "utf8 n = [c]" using n by (simp_all add: low_surrogate_def utf8_def)
  ultimately show ?thesis by (simp add: escape_def n_def [symmetric])
qed

lemma parse_json_char:
  "parse_body (Suc n) (json_char c @ r) = map_option (\<lambda>(v, z). (c # v, z)) (parse_body n r)"
proof -
  have s: "escape (CHR 0x22) r = Some ([CHR 0x22], r)" "escape (CHR 0x5C) r = Some ([CHR 0x5C], r)"
    "escape (CHR ''b'') r = Some ([CHR 0x08], r)" "escape (CHR ''f'') r = Some ([CHR 0x0C], r)"
    "escape (CHR ''n'') r = Some ([CHR 0x0A], r)" "escape (CHR ''r'') r = Some ([CHR 0x0D], r)"
    "escape (CHR ''t'') r = Some ([CHR 0x09], r)"
    by (simp_all add: escape_def)
  have h: "html_char c \<Longrightarrow> of_char c < (128 :: int)" by (auto simp: html_char_def)
  consider (quote) "c = CHR 0x22" | (slash) "c = CHR 0x5C" | (b) "c = CHR 0x08" | (f) "c = CHR 0x0C"
    | (nl) "c = CHR 0x0A" | (cr) "c = CHR 0x0D" | (tab) "c = CHR 0x09"
    | (hex) "c \<notin> {CHR 0x22, CHR 0x5C, CHR 0x08, CHR 0x0C, CHR 0x0A, CHR 0x0D, CHR 0x09}"
        "of_char c < (32 :: int) \<or> html_char c"
    | (raw) "c \<notin> {CHR 0x22, CHR 0x5C, CHR 0x08, CHR 0x0C, CHR 0x0A, CHR 0x0D, CHR 0x09}"
        "\<not> (of_char c < (32 :: int) \<or> html_char c)"
    by blast
  then show ?thesis
  proof cases
    case hex
    then have "of_char c < (128 :: int)" using h by auto
    from escape_low [OF this, of r] hex show ?thesis by (simp add: json_char_def)
  qed (simp_all add: json_char_def s)
qed

lemma parse_body_json:
  "parse_body (Suc (length s + m)) (concat (map json_char s) @ [CHR 0x22]) = Some (s, [])"
proof (induction s)
  case (Cons c s)
  then show ?case using parse_json_char [of "Suc (length s + m)" c] by simp
qed simp

lemma json_char_nonempty: "1 \<le> length (json_char c)"
  by (simp add: json_char_def)

lemma length_json: "length s \<le> length (concat (map json_char s))"
proof (induction s)
  case (Cons c s)
  then show ?case using json_char_nonempty [of c] by simp
qed simp

text \<open>
  A string survives its JSON form, whatever control characters, quotes or markup it
  contains.
\<close>

lemma string_json_roundtrip: "unmarshal_string (marshal_string s) = Some s"
proof -
  let ?b = "concat (map json_char s) @ [CHR 0x22]"
  obtain m where m: "length ?b = Suc (length s + m)"
    using length_json [of s] by (metis add_Suc_right le_Suc_ex length_append_singleton)
  have "parse_body (length ?b) ?b = Some (s, [])" unfolding m by (rule parse_body_json)
  then show ?thesis by (simp add: unmarshal_string_def marshal_string_def is_space_def)
qed

end
