(* ===== verification/Job.thy ===== *)
theory Job
  imports Goerr
begin

text \<open>
  The job model of \<open>internal/engine/job.go\<close>: statuses, the job row, events, signals,
  enqueue requests and options, and the pure decisions of that file
  (\<open>NormalizeEnqueue\<close>, \<open>NextStatusAfterFailure\<close>, \<open>Backoff\<close>, \<open>IsValidStatus\<close>).

  Go's \<open>int\<close> is 64 bits wide. \<open>Backoff\<close> computes in \<open>time.Duration\<close>, an \<open>int64\<close> that
  wraps, and is modelled on \<open>64 word\<close>; attempt counters are unbounded here because the
  database keeps them in 32-bit columns (see the theory \<open>Db\<close>).
\<close>

section \<open>Statuses\<close>

datatype status =
    StatusQueued
  | StatusRunning
  | StatusRetrying
  | StatusSucceeded
  | StatusFailed
  | StatusDeadLetter
  | StatusCanceled

text \<open>\<open>Status\<close> is a string type; this is the text of each constant.\<close>

fun status_string :: "status \<Rightarrow> string" where
  "status_string StatusQueued = ''queued''"
| "status_string StatusRunning = ''running''"
| "status_string StatusRetrying = ''retrying''"
| "status_string StatusSucceeded = ''succeeded''"
| "status_string StatusFailed = ''failed''"
| "status_string StatusDeadLetter = ''dead_letter''"
| "status_string StatusCanceled = ''canceled''"

definition all_statuses :: "status list" where
  "all_statuses = [StatusQueued, StatusRunning, StatusRetrying, StatusSucceeded, StatusFailed,
     StatusDeadLetter, StatusCanceled]"

text \<open>A status string as a caller gives it, the empty string meaning no filter.\<close>

definition IsValidStatus :: "string \<Rightarrow> bool" where
  "IsValidStatus s =
     (s = '''' \<or> s = status_string StatusQueued \<or> s = status_string StatusRunning
      \<or> s = status_string StatusRetrying \<or> s = status_string StatusSucceeded
      \<or> s = status_string StatusFailed \<or> s = status_string StatusDeadLetter
      \<or> s = status_string StatusCanceled)"

text \<open>The states no worker claims again; \<open>failed\<close> is declared and never entered.\<close>

fun terminal :: "status \<Rightarrow> bool" where
  "terminal StatusSucceeded = True"
| "terminal StatusDeadLetter = True"
| "terminal StatusCanceled = True"
| "terminal _ = False"

section \<open>Rows\<close>

text \<open>The columns of \<open>jobs\<close>, in the order of the struct \<open>Job\<close>.\<close>

record job =
  job_id :: string
  queue :: string
  workflow_type :: string
  payload :: bytes
  status :: status
  idempotency_key :: "string option"
  parent_id :: "string option"
  attempt :: int
  max_attempts :: int
  run_after :: time
  lease_owner :: "string option"
  lease_expires_at :: "time option"
  wake_version :: int
  heartbeat_at :: "time option"
  job_result :: "bytes option"
  job_error :: "string option"
  trace_id :: "string option"
  created_at :: time
  updated_at :: time
  completed_at :: "time option"

text \<open>
  The details of an event: the \<open>map[string]any\<close> the store marshals, as the list of its
  members, or the bytes given to \<open>RecordEvent\<close>.
\<close>

datatype detail = DStr string | DInt int | DBool bool | DTime time

datatype details = Fields "(string \<times> detail) list" | RawDetails bytes

record event =
  ev_id :: int
  ev_job :: string
  ev_type :: string
  ev_details :: details
  ev_at :: time

record signal =
  sig_id :: int
  sig_job :: string
  sig_name :: string
  sig_payload :: bytes
  sig_key :: "string option"
  sig_at :: time

record step_result =
  st_job :: string
  st_name :: string
  st_result :: bytes
  st_at :: time

section \<open>Requests and options\<close>

record enqueue_request =
  rq_queue :: string
  rq_type :: string
  rq_payload :: bytes
  rq_key :: string
  rq_max_attempts :: int
  rq_run_after :: time
  rq_parent :: string

record claim_options =
  co_worker :: string
  co_queue :: string
  co_lease :: duration
  co_limit :: int

record list_options =
  lo_limit :: int
  lo_queue :: string
  lo_status :: string
  lo_type :: string
  lo_parent :: string
  lo_before_at :: time
  lo_before_id :: string

text \<open>\<open>EnqueueRequest{}\<close>, the zero request.\<close>

definition zero_request :: enqueue_request where
  "zero_request = \<lparr>rq_queue = '''', rq_type = '''', rq_payload = '''', rq_key = '''',
     rq_max_attempts = 0, rq_run_after = 0, rq_parent = ''''\<rparr>"

definition zero_list_options :: list_options where
  "zero_list_options = \<lparr>lo_limit = 0, lo_queue = '''', lo_status = '''', lo_type = '''',
     lo_parent = '''', lo_before_at = 0, lo_before_id = ''''\<rparr>"

section \<open>Decisions\<close>

text \<open>\<open>now\<close> is \<open>time.Now()\<close> of the enqueuing process.\<close>

definition NormalizeEnqueue :: "time \<Rightarrow> enqueue_request \<Rightarrow> enqueue_request" where
  "NormalizeEnqueue now req =
     (let req = (if rq_queue req = '''' then req\<lparr>rq_queue := ''default''\<rparr> else req);
          req = (if rq_payload req = '''' then req\<lparr>rq_payload := ''{}''\<rparr> else req);
          req = (if rq_max_attempts req \<le> 0 then req\<lparr>rq_max_attempts := 3\<rparr> else req);
          req = (if rq_run_after req = 0 then req\<lparr>rq_run_after := now\<rparr> else req)
      in req)"

definition NextStatusAfterFailure :: "int \<Rightarrow> int \<Rightarrow> goerr \<Rightarrow> status" where
  "NextStatusAfterFailure att max_att cause =
     (if IsPermanent cause \<or> max_att \<le> att then StatusDeadLetter else StatusRetrying)"

text \<open>
  \<open>time.Second * time.Duration(1<<(attempt-1))\<close>: shift and product wrap at 64 bits, the
  comparison with \<open>time.Minute\<close> is signed.
\<close>

definition Backoff :: "int \<Rightarrow> duration" where
  "Backoff att =
     (let att = (if att < 1 then 1 else att);
          delay = (1000000000 :: 64 word) * push_bit (nat (att - 1)) 1
      in if minute < sint delay then minute else sint delay)"

section \<open>Facts\<close>

lemma status_string_inject [simp]: "status_string s = status_string t \<longleftrightarrow> s = t"
  by (cases s; cases t) simp_all

lemma status_string_nonempty [simp]: "status_string s \<noteq> ''''"
  by (cases s) simp_all

lemma all_statuses_complete: "s \<in> set all_statuses"
  by (cases s) (simp_all add: all_statuses_def)

lemma IsValidStatus_iff: "IsValidStatus s \<longleftrightarrow> s = '''' \<or> (\<exists>st. s = status_string st)"
proof -
  have "(\<exists>st. s = status_string st) \<longleftrightarrow> (\<exists>st\<in>set all_statuses. s = status_string st)"
    using all_statuses_complete by blast
  then show ?thesis by (simp add: IsValidStatus_def all_statuses_def)
qed

lemma IsValidStatus_status [simp]: "IsValidStatus (status_string s)"
  by (auto simp: IsValidStatus_iff)

lemma NormalizeEnqueue_simps [simp]:
  "rq_queue (NormalizeEnqueue now req) = (if rq_queue req = '''' then ''default'' else rq_queue req)"
  "rq_type (NormalizeEnqueue now req) = rq_type req"
  "rq_payload (NormalizeEnqueue now req) = (if rq_payload req = '''' then ''{}'' else rq_payload req)"
  "rq_key (NormalizeEnqueue now req) = rq_key req"
  "rq_max_attempts (NormalizeEnqueue now req) =
     (if rq_max_attempts req \<le> 0 then 3 else rq_max_attempts req)"
  "rq_run_after (NormalizeEnqueue now req) = (if rq_run_after req = 0 then now else rq_run_after req)"
  "rq_parent (NormalizeEnqueue now req) = rq_parent req"
  by (simp_all add: NormalizeEnqueue_def Let_def)

lemma NormalizeEnqueue_idem:
  "now \<noteq> 0 \<Longrightarrow> NormalizeEnqueue now' (NormalizeEnqueue now req) = NormalizeEnqueue now req"
  by (rule enqueue_request.equality) simp_all

lemma NextStatus_cases:
  "NextStatusAfterFailure a m c = StatusDeadLetter \<or> NextStatusAfterFailure a m c = StatusRetrying"
  by (simp add: NextStatusAfterFailure_def)

lemma NextStatus_retrying:
  "NextStatusAfterFailure a m c = StatusRetrying \<longleftrightarrow> \<not> IsPermanent c \<and> a < m"
  by (auto simp: NextStatusAfterFailure_def)

lemma NextStatus_dead:
  "NextStatusAfterFailure a m c = StatusDeadLetter \<longleftrightarrow> IsPermanent c \<or> m \<le> a"
  by (auto simp: NextStatusAfterFailure_def)

section \<open>Backoff\<close>

text \<open>The delay in exact arithmetic, before the 64-bit product wraps.\<close>

definition exact_backoff :: "int \<Rightarrow> duration" where
  "exact_backoff att = min minute (second * 2 ^ nat (max 1 att - 1))"

lemma sint_small: "0 \<le> x \<Longrightarrow> x < 2 ^ 63 \<Longrightarrow> sint (word_of_int x :: 64 word) = x"
  by (simp add: sint_sbintrunc' signed_take_bit_int_eq_self)

lemma Backoff_word: 
  "Backoff att = (let x = second * 2 ^ nat (max 1 att - 1);
     s = sint (word_of_int x :: 64 word) in if minute < s then minute else s)"
proof -
  have "(if att < 1 then 1 else att) = max 1 att" by simp
  moreover have "(1000000000 :: 64 word) * push_bit n 1 = word_of_int (second * 2 ^ n)" for n
    by (simp add: push_bit_eq_mult)
  ultimately show ?thesis
    unfolding Backoff_def Let_def by simp
qed

lemma Backoff_exact: 
  assumes "att \<le> 34"
  shows "Backoff att = exact_backoff att"
proof -
  let ?n = "nat (max 1 att - 1)"
  have "?n \<le> 33" using assms by simp
  then have "(2::int) ^ ?n \<le> 2 ^ 33" by (rule power_increasing) simp
  then have "second * 2 ^ ?n < 2 ^ 63" by simp
  then have "sint (word_of_int (second * 2 ^ ?n) :: 64 word) = second * 2 ^ ?n"
    by (intro sint_small) simp_all
  then show ?thesis by (simp add: Backoff_word exact_backoff_def Let_def min_def)
qed


lemma Backoff_word_max: "Backoff att = Backoff (max 1 att)"
  by (simp add: Backoff_word Let_def)

lemma exact_backoff_mono: "a \<le> b \<Longrightarrow> exact_backoff a \<le> exact_backoff b"
  unfolding exact_backoff_def
  by (intro min.mono mult_left_mono power_increasing) (auto simp: nat_mono)

lemma word_overflow: "(1000000000 :: 64 word) * 2 ^ (55 + k) = 0"
proof -
  have "(1000000000 :: 64 word) * 2 ^ (55 + k) = (1000000000 * 2 ^ 55) * 2 ^ k"
    by (simp add: power_add)
  also have "(1000000000 * 2 ^ 55 :: 64 word) = 0" by simp
  finally show ?thesis by simp
qed

section \<open>Properties\<close>

text \<open>
  For every attempt up to 34 the backoff is the exponential one capped at a minute,
  computed without overflow; it lies between a second and a minute and never decreases
  from an earlier attempt to a later one.
\<close>

lemma backoff_bounds:
  assumes "att \<le> 34"
  shows "Backoff att = min minute (second * 2 ^ nat (max 1 att - 1))
    \<and> second \<le> Backoff att \<and> Backoff att \<le> minute
    \<and> (\<forall>a \<le> att. Backoff a \<le> Backoff att)"
proof -
  have "Backoff a \<le> Backoff att" if "a \<le> att" for a
    using that assms Backoff_exact [of a] Backoff_exact [of att] exact_backoff_mono [of a att]
    by linarith
  moreover have "exact_backoff 1 \<le> exact_backoff (max 1 att)"
    by (rule exact_backoff_mono) simp
  then have "second \<le> exact_backoff att" by (simp add: exact_backoff_def)
  moreover have "exact_backoff att \<le> minute" by (simp add: exact_backoff_def)
  ultimately show ?thesis using Backoff_exact [OF assms]
    by (simp only: exact_backoff_def simp_thms) blast
qed

lemma backoff_bounds_witness:
  "(3::int) \<le> 34 \<and> Backoff 3 = min minute (second * 2 ^ nat (max 1 3 - 1))
    \<and> second \<le> Backoff 3 \<and> Backoff 3 \<le> minute \<and> Backoff 2 \<le> Backoff 3"
proof -
  have h: "(3::int) \<le> 34" by simp
  have a: "(2::int) \<le> 3" by simp
  from h a backoff_bounds [OF h] show ?thesis by blast
qed

text \<open>
  C18: From attempt 35 on the 64-bit product wraps: at attempt 35 the delay is negative, so
  the job is due in the past, and from attempt 56 on it is zero, so a job with a large
  attempt budget is retried without any backoff instead of once a minute.
\<close>

theorem backoff_wraps:
  "Backoff 35 = - 1266874889709551616 \<and> (\<forall>att \<ge> 56. Backoff att = 0)"
proof -
  have "Backoff att = 0" if "56 \<le> att" for att
  proof -
    have "nat (att - 1) = 55 + nat (att - 56)" using that by simp
    then show ?thesis using that
      by (simp add: Backoff_def Let_def push_bit_eq_mult word_overflow)
  qed
  then show ?thesis by (simp add: Backoff_def)
qed

lemma backoff_wraps_witness: "Backoff 35 < 0 \<and> Backoff 100 = 0"
  using backoff_wraps by simp

end
