(* ===== verification/Db.thy ===== *)
theory Db
  imports Job
begin

text \<open>
  The database the store of \<open>internal/store/postgres/store.go\<close> talks to: the four tables
  of \<open>migrations/\<close>, the primitive statements with the constraints of the schema (primary
  keys, foreign keys with their \<open>ON DELETE\<close> action, unique indexes, 32-bit columns), the
  transaction wrapper \<open>withTx\<close>, \<open>appendEvent\<close>, and the well-formedness of a database.

  PostgreSQL itself is not under \<open>src/\<close>. What the statements need from it is the record
  \<open>senv\<close>, an argument of every operation: its clock, the uuid it generates, the
  \<open>jsonb\<close> input function (None is a rejected text, Some the normalised one), the rows and
  advisory locks other transactions hold, the order in which it meets the rows of a statement
  that does not order them and the one in which it answers updated rows, and for the \<open>n\<close>-th unit of work of a call
  whether it is acknowledged, fails without effect, or takes effect but is reported as
  failed (a connection lost after the commit). Units of work are atomic: the interleaving
  of two transactions' statements under READ COMMITTED is not modelled.
\<close>

section \<open>The environment of a call\<close>

datatype outcome = Acked | Lost goerr | Unacked goerr

record senv =
  pg_now :: time
  go_now :: time
  new_uuid :: string
  jsonb :: "bytes \<Rightarrow> bytes option"
  row_locked :: "string \<Rightarrow> bool"
  advisory :: "string \<Rightarrow> bool"
  scan_rank :: "string \<Rightarrow> int"
  reply_rank :: "string \<Rightarrow> int"
  link :: "nat \<Rightarrow> outcome"

section \<open>Tables\<close>

record db =
  jobs :: "job list"
  job_steps :: "step_result list"
  job_signals :: "signal list"
  job_events :: "event list"
  next_event :: int
  next_signal :: int

definition empty_db :: db where
  "empty_db = \<lparr>jobs = [], job_steps = [], job_signals = [], job_events = [],
     next_event = 1, next_signal = 1\<rparr>"

definition job_ids :: "db \<Rightarrow> string list" where
  "job_ids d = map job_id (jobs d)"

definition lookup_job :: "db \<Rightarrow> string \<Rightarrow> job option" where
  "lookup_job d i = row_at job_id i (jobs d)"

definition step_key :: "step_result \<Rightarrow> string \<times> string" where
  "step_key s = (st_job s, st_name s)"

definition lookup_step :: "db \<Rightarrow> string \<Rightarrow> string \<Rightarrow> bytes option" where
  "lookup_step d i name = map_option st_result (row_at step_key (i, name) (job_steps d))"

text \<open>The messages the server answers with; only their being errors matters.\<close>

definition json_error :: goerr where
  "json_error = New ''invalid input syntax for type json''"

definition range_error :: goerr where
  "range_error = New ''integer out of range''"

definition foreign_key_error :: goerr where
  "foreign_key_error = New ''violates foreign key constraint''"

definition primary_key_error :: goerr where
  "primary_key_error = New ''duplicate key value violates unique constraint''"

text \<open>The range of an \<open>int\<close> column.\<close>

definition int4 :: "int \<Rightarrow> bool" where
  "int4 n \<longleftrightarrow> - (2 ^ 31) \<le> n \<and> n < 2 ^ 31"

section \<open>Statements\<close>

text \<open>
  SQL leaves open the order of the rows a statement meets or returns without an
  \<open>ORDER BY\<close>: the environment says it, by the rows' ids.
\<close>

definition scanned :: "senv \<Rightarrow> job list \<Rightarrow> job list" where
  "scanned e js = sort_key (\<lambda>j. scan_rank e (job_id j)) js"

definition returning :: "senv \<Rightarrow> job list \<Rightarrow> job list" where
  "returning e js = sort_key (\<lambda>j. reply_rank e (job_id j)) js"

lemma scanned_simps [simp]:
  "set (scanned e js) = set js" "length (scanned e js) = length js" "scanned e [] = []"
  "set (returning e js) = set js" "length (returning e js) = length js" "returning e [] = []"
  by (simp_all add: scanned_def returning_def)

lemma distinct_sort_key_map: "distinct (map f (sort_key g xs)) = distinct (map f xs)"
  by (simp add: distinct_map)

lemma distinct_scanned [simp]:
  "distinct (map job_id (scanned e js)) = distinct (map job_id js)"
  "distinct (map job_id (returning e js)) = distinct (map job_id js)"
  by (simp_all add: scanned_def returning_def distinct_sort_key_map)

definition update_jobs :: "(job \<Rightarrow> bool) \<Rightarrow> (job \<Rightarrow> job) \<Rightarrow> db \<Rightarrow> db" where
  "update_jobs P f d = d\<lparr>jobs := update_where P f (jobs d)\<rparr>"

definition rows_affected :: "(job \<Rightarrow> bool) \<Rightarrow> db \<Rightarrow> nat" where
  "rows_affected P d = length (filter P (jobs d))"

definition insert_job :: "job \<Rightarrow> db \<Rightarrow> db" where
  "insert_job j d = d\<lparr>jobs := jobs d @ [j]\<rparr>"

text \<open>
  Deleting jobs cascades to steps, signals and events (migrations 001, 003, 005) and
  sets \<open>parent_id\<close> of their children to NULL (migration 008).
\<close>

definition orphan :: "string list \<Rightarrow> job \<Rightarrow> job" where
  "orphan gone j =
     (case parent_id j of None \<Rightarrow> j | Some p \<Rightarrow> if p \<in> set gone then j\<lparr>parent_id := None\<rparr> else j)"

definition delete_jobs :: "string list \<Rightarrow> db \<Rightarrow> db" where
  "delete_jobs gone d = d\<lparr>
     jobs := map (orphan gone) (filter (\<lambda>j. job_id j \<notin> set gone) (jobs d)),
     job_steps := filter (\<lambda>s. st_job s \<notin> set gone) (job_steps d),
     job_signals := filter (\<lambda>s. sig_job s \<notin> set gone) (job_signals d),
     job_events := filter (\<lambda>v. ev_job v \<notin> set gone) (job_events d)\<rparr>"

definition insert_step :: "step_result \<Rightarrow> db \<Rightarrow> db" where
  "insert_step s d = d\<lparr>job_steps := job_steps d @ [s]\<rparr>"

definition insert_signal :: "signal \<Rightarrow> db \<Rightarrow> db" where
  "insert_signal s d = d\<lparr>job_signals := job_signals d @ [s], next_signal := next_signal d + 1\<rparr>"

definition insert_event :: "senv \<Rightarrow> string \<Rightarrow> string \<Rightarrow> details \<Rightarrow> db \<Rightarrow> db" where
  "insert_event e i ty det d = d\<lparr>
     job_events := job_events d @
       [\<lparr>ev_id = next_event d, ev_job = i, ev_type = ty, ev_details = det, ev_at = pg_now e\<rparr>],
     next_event := next_event d + 1\<rparr>"

text \<open>\<open>appendEventTx\<close>: the insert is refused when the job row does not exist.\<close>

definition appendEvent ::
    "senv \<Rightarrow> string \<Rightarrow> string \<Rightarrow> (string \<times> detail) list \<Rightarrow> db \<Rightarrow> goerr + unit \<times> db" where
  "appendEvent e i ty flds d =
     (if lookup_job d i = None then Inl foreign_key_error
      else Inr ((), insert_event e i ty (Fields flds) d))"

text \<open>One event per job of a list, in order (the loops of \<open>Claim\<close> and the sweep).\<close>

fun append_events ::
    "senv \<Rightarrow> (string \<times> string \<times> (string \<times> detail) list) list \<Rightarrow> db \<Rightarrow> goerr + unit \<times> db" where
  "append_events e [] d = Inr ((), d)"
| "append_events e ((i, ty, flds) # evs) d =
     (case appendEvent e i ty flds d of Inl err \<Rightarrow> Inl err | Inr (_, d') \<Rightarrow> append_events e evs d')"

section \<open>Units of work\<close>

text \<open>
  \<open>withTx\<close> (and a statement outside a transaction): the body's result and state when it
  commits, the old state when it returns an error; \<open>n\<close> numbers the unit within the call.
\<close>

definition withTx :: "senv \<Rightarrow> nat \<Rightarrow> ('d \<Rightarrow> goerr + 'a \<times> 'd) \<Rightarrow> 'd \<Rightarrow> (goerr + 'a) \<times> 'd" where
  "withTx e n body d =
     (case link e n of
        Lost err \<Rightarrow> (Inl err, d)
      | Unacked err \<Rightarrow> (Inl err, case body d of Inl _ \<Rightarrow> d | Inr (_, d') \<Rightarrow> d')
      | Acked \<Rightarrow> (case body d of Inl err \<Rightarrow> (Inl err, d) | Inr (x, d') \<Rightarrow> (Inr x, d')))"

text \<open>A further unit of work after a successful one (\<open>if err != nil { return err }\<close>).\<close>

definition and_then ::
    "(goerr + 'a) \<times> 'd \<Rightarrow> ('a \<Rightarrow> 'd \<Rightarrow> (goerr + 'b) \<times> 'd) \<Rightarrow> (goerr + 'b) \<times> 'd" where
  "and_then r k = (case r of (Inl err, d) \<Rightarrow> (Inl err, d) | (Inr x, d) \<Rightarrow> k x d)"

lemma and_then_simps [simp]:
  "and_then (Inl err, d) k = (Inl err, d)"
  "and_then (Inr x, d) k = k x d"
  by (simp_all add: and_then_def)

lemma withTx_Acked [simp]:
  "link e n = Acked \<Longrightarrow>
   withTx e n body d = (case body d of Inl err \<Rightarrow> (Inl err, d) | Inr (x, d') \<Rightarrow> (Inr x, d'))"
  by (simp add: withTx_def)

text \<open>A unit of work that runs changes the state as its body does, or not at all.\<close>

lemma withTx_state:
  "snd (withTx e n body d) = d \<or> (\<exists>x. body d = Inr (x, snd (withTx e n body d)))"
  by (auto simp: withTx_def split: outcome.splits sum.splits)

lemma withTx_state_cases:
  obtains "snd (withTx e n body d) = d"
  | x where "body d = Inr (x, snd (withTx e n body d))"
  using withTx_state [of e n body d] by auto

lemma withTx_ok: "fst (withTx e n body d) = Inr x \<Longrightarrow> body d = Inr (x, snd (withTx e n body d))"
  by (auto simp: withTx_def split: outcome.splits sum.splits)

lemma withTx_InrD: "withTx e n body d = (Inr x, d') \<Longrightarrow> body d = Inr (x, d')"
  by (auto simp: withTx_def split: outcome.splits sum.splits)

lemma withTx_preserves:
  assumes "P d" and "\<And>x d'. body d = Inr (x, d') \<Longrightarrow> P d'"
  shows "P (snd (withTx e n body d))"
  using assms by (auto simp: withTx_def split: outcome.splits sum.splits)

lemma and_then_preserves:
  assumes "P (snd r)" and "\<And>x d. r = (Inr x, d) \<Longrightarrow> P d \<Longrightarrow> P (snd (k x d))"
  shows "P (snd (and_then r k))"
  using assms by (auto simp: and_then_def split: prod.splits sum.splits)

text \<open>
  What a unit of work may do to the state, as a relation that allows doing nothing and
  doing one thing after another: a program made of units that respect it respects it, and
  so does any run of such programs.
\<close>

locale evolution =
  fixes later :: "'d \<Rightarrow> 'd \<Rightarrow> bool"
  assumes later_refl: "later d d"
    and later_trans: "later d d1 \<Longrightarrow> later d1 d2 \<Longrightarrow> later d d2"
begin

lemma later_withTx:
  assumes "\<And>x d'. body d = Inr (x, d') \<Longrightarrow> later d d'"
  shows "later d (snd (withTx e n body d))"
  by (rule withTx_preserves [of "later d"]) (simp_all add: assms later_refl)

lemma later_and_then:
  assumes "later d (snd r)" and "\<And>x d'. r = (Inr x, d') \<Longrightarrow> later d' (snd (k x d'))"
  shows "later d (snd (and_then r k))"
  using assms by (intro and_then_preserves [of "later d"]) (auto intro: later_trans)

lemma later_run:
  assumes "\<And>e a d. later d (act e a d)"
  shows "later d (fold (\<lambda>(e, a). act e a) ops d)"
  by (induction ops arbitrary: d) (auto simp: later_refl intro: later_trans assms)

end

section \<open>Fields under the statements\<close>

lemma db_update_simps [simp]:
  "jobs (update_jobs P f d) = update_where P f (jobs d)"
  "job_steps (update_jobs P f d) = job_steps d"
  "job_signals (update_jobs P f d) = job_signals d"
  "job_events (update_jobs P f d) = job_events d"
  "next_event (update_jobs P f d) = next_event d"
  "next_signal (update_jobs P f d) = next_signal d"
  by (simp_all add: update_jobs_def)

lemma db_insert_simps [simp]:
  "jobs (insert_job j d) = jobs d @ [j]"
  "job_steps (insert_job j d) = job_steps d"
  "job_signals (insert_job j d) = job_signals d"
  "job_events (insert_job j d) = job_events d"
  "next_event (insert_job j d) = next_event d"
  "next_signal (insert_job j d) = next_signal d"
  "jobs (insert_step s d) = jobs d"
  "job_steps (insert_step s d) = job_steps d @ [s]"
  "job_signals (insert_step s d) = job_signals d"
  "job_events (insert_step s d) = job_events d"
  "next_event (insert_step s d) = next_event d"
  "next_signal (insert_step s d) = next_signal d"
  by (simp_all add: insert_job_def insert_step_def)

lemma db_insert_more_simps [simp]:
  "jobs (insert_signal g d) = jobs d"
  "job_steps (insert_signal g d) = job_steps d"
  "job_signals (insert_signal g d) = job_signals d @ [g]"
  "job_events (insert_signal g d) = job_events d"
  "next_event (insert_signal g d) = next_event d"
  "next_signal (insert_signal g d) = next_signal d + 1"
  "jobs (insert_event e i ty det d) = jobs d"
  "job_steps (insert_event e i ty det d) = job_steps d"
  "job_signals (insert_event e i ty det d) = job_signals d"
  "next_event (insert_event e i ty det d) = next_event d + 1"
  "next_signal (insert_event e i ty det d) = next_signal d"
  by (simp_all add: insert_signal_def insert_event_def)

lemma orphan_simps [simp]:
  "job_id (orphan gone j) = job_id j"
  "idempotency_key (orphan gone j) = idempotency_key j"
  "status (orphan gone j) = status j"
  "attempt (orphan gone j) = attempt j"
  by (simp_all add: orphan_def split: option.splits)

section \<open>Lookups under the statements\<close>

lemma lookup_job_event [simp]: "lookup_job (insert_event e i ty det d) k = lookup_job d k"
  by (simp add: lookup_job_def)

lemma lookup_job_step [simp]: "lookup_job (insert_step s d) k = lookup_job d k"
  by (simp add: lookup_job_def)

lemma lookup_job_signal [simp]: "lookup_job (insert_signal g d) k = lookup_job d k"
  by (simp add: lookup_job_def)

lemma lookup_job_insert:
  "lookup_job (insert_job j d) k =
     (case lookup_job d k of None \<Rightarrow> if job_id j = k then Some j else None | Some x \<Rightarrow> Some x)"
  by (simp add: lookup_job_def row_at_append split: option.splits)

lemma lookup_job_update:
  "(\<And>j. job_id (f j) = job_id j) \<Longrightarrow>
   lookup_job (update_jobs P f d) k = map_option (\<lambda>j. if P j then f j else j) (lookup_job d k)"
  by (simp add: lookup_job_def row_at_update_where)

lemma lookup_job_id: "lookup_job d i = Some j \<Longrightarrow> job_id j = i"
  by (auto simp: lookup_job_def dest: row_at_key)

lemma lookup_job_in: "lookup_job d i = Some j \<Longrightarrow> j \<in> set (jobs d)"
  by (auto simp: lookup_job_def dest: row_at_in)

lemma lookup_job_None: "lookup_job d i = None \<longleftrightarrow> i \<notin> set (job_ids d)"
  by (simp add: lookup_job_def job_ids_def row_at_None)

lemma lookup_job_delete:
  "lookup_job (delete_jobs gone d) k =
     (if k \<in> set gone then None else map_option (orphan gone) (lookup_job d k))"
proof -
  have "row_at job_id k (map (orphan gone) (filter (\<lambda>j. job_id j \<notin> set gone) rows)) =
    (if k \<in> set gone then None else map_option (orphan gone) (row_at job_id k rows))" for rows
    by (induction rows) auto
  then show ?thesis by (simp add: lookup_job_def delete_jobs_def)
qed

lemma lookup_step_event [simp]: "lookup_step (insert_event e i ty det d) = lookup_step d"
  by (simp add: lookup_step_def [abs_def])

lemma lookup_step_signal [simp]: "lookup_step (insert_signal g d) = lookup_step d"
  by (simp add: lookup_step_def [abs_def])

lemma lookup_step_job [simp]: "lookup_step (insert_job j d) = lookup_step d"
  by (simp add: lookup_step_def [abs_def])

lemma lookup_step_update [simp]: "lookup_step (update_jobs P f d) = lookup_step d"
  by (simp add: lookup_step_def [abs_def])

lemma lookup_step_insert:
  "lookup_step (insert_step s d) i name =
     (case lookup_step d i name of
        None \<Rightarrow> if step_key s = (i, name) then Some (st_result s) else None
      | Some v \<Rightarrow> Some v)"
  by (simp add: lookup_step_def row_at_append split: option.splits)

lemma step_key_eq [simp]: "step_key s = (i, name) \<longleftrightarrow> st_job s = i \<and> st_name s = name"
  by (simp add: step_key_def)

lemma lookup_step_delete:
  "lookup_step (delete_jobs gone d) i name = (if i \<in> set gone then None else lookup_step d i name)"
proof -
  have "row_at step_key (i, name) (filter (\<lambda>s. st_job s \<notin> set gone) rows) =
    (if i \<in> set gone then None else row_at step_key (i, name) rows)" for rows
    by (induction rows) auto
  then show ?thesis by (simp add: lookup_step_def delete_jobs_def)
qed

text \<open>Appending events reads and writes nothing but the event table.\<close>

lemma append_events_frame:
  "append_events e evs d = Inr (x, d') \<Longrightarrow>
   jobs d' = jobs d \<and> job_steps d' = job_steps d \<and> job_signals d' = job_signals d
   \<and> next_signal d' = next_signal d"
  by (induction evs arbitrary: d) (auto simp: appendEvent_def split: sum.splits if_splits)

lemma append_events_ok:
  "\<forall>(i, ty, flds)\<in>set evs. lookup_job d i \<noteq> None \<Longrightarrow> \<exists>d'. append_events e evs d = Inr ((), d')"
proof (induction evs arbitrary: d)
  case (Cons v evs)
  obtain i ty flds where v: "v = (i, ty, flds)" by (cases v)
  show ?case using Cons.prems Cons.IH [of "insert_event e i ty (Fields flds) d"]
    by (auto simp: v appendEvent_def)
qed simp

lemma appendEvent_ok: 
  "lookup_job d i \<noteq> None \<Longrightarrow> appendEvent e i ty flds d = Inr ((), insert_event e i ty (Fields flds) d)"
  by (simp add: appendEvent_def)

end
