(* ===== verification/Wellformed.thy ===== *)
theory Wellformed
  imports Db
begin

text \<open>
  What every state of the database satisfies. \<open>tables_ok\<close> is the schema's part: keys,
  foreign keys and sequences. \<open>job_ok\<close> is the part the store's own code maintains in each
  job row: which columns are set in which status, the attempt budget, and the due time of
  a running job. The lemmas show how the primitive statements act on both.
\<close>

section \<open>The schema's part\<close>

definition jobs_ok :: "db \<Rightarrow> bool" where
  "jobs_ok d \<longleftrightarrow> distinct (job_ids d)
     \<and> (\<forall>j\<in>set (jobs d). \<forall>k\<in>set (jobs d). idempotency_key j \<noteq> None \<longrightarrow>
          idempotency_key j = idempotency_key k \<longrightarrow> job_id j = job_id k)
     \<and> (\<forall>j\<in>set (jobs d). case parent_id j of None \<Rightarrow> True | Some p \<Rightarrow> p \<in> set (job_ids d))"

definition steps_ok :: "db \<Rightarrow> bool" where
  "steps_ok d \<longleftrightarrow> distinct (map step_key (job_steps d))
     \<and> (\<forall>s\<in>set (job_steps d). st_job s \<in> set (job_ids d))"

definition signals_ok :: "db \<Rightarrow> bool" where
  "signals_ok d \<longleftrightarrow> sorted_wrt (<) (map sig_id (job_signals d))
     \<and> (\<forall>g\<in>set (job_signals d). sig_id g < next_signal d \<and> sig_job g \<in> set (job_ids d))
     \<and> (\<forall>g\<in>set (job_signals d). \<forall>h\<in>set (job_signals d). sig_key g \<noteq> None \<longrightarrow>
          (sig_job g, sig_name g, sig_key g) = (sig_job h, sig_name h, sig_key h) \<longrightarrow> g = h)"

definition events_ok :: "db \<Rightarrow> bool" where
  "events_ok d \<longleftrightarrow> sorted_wrt (<) (map ev_id (job_events d))
     \<and> (\<forall>v\<in>set (job_events d). ev_id v < next_event d \<and> ev_job v \<in> set (job_ids d))"

definition tables_ok :: "db \<Rightarrow> bool" where
  "tables_ok d \<longleftrightarrow> jobs_ok d \<and> steps_ok d \<and> signals_ok d \<and> events_ok d"

section \<open>The code's part\<close>

definition job_ok :: "time \<Rightarrow> job \<Rightarrow> bool" where
  "job_ok now j \<longleftrightarrow>
     1 \<le> max_attempts j \<and> int4 (max_attempts j) \<and> 0 \<le> attempt j \<and> attempt j \<le> max_attempts j
   \<and> 0 \<le> wake_version j \<and> int4 (wake_version j)
   \<and> (lease_owner j \<noteq> None \<longleftrightarrow> status j = StatusRunning)
   \<and> (lease_expires_at j \<noteq> None \<longleftrightarrow> status j = StatusRunning)
   \<and> (completed_at j \<noteq> None \<longleftrightarrow> terminal (status j))
   \<and> (job_result j \<noteq> None \<longleftrightarrow> status j = StatusSucceeded)
   \<and> (status j \<in> {StatusDeadLetter, StatusRetrying} \<longrightarrow> job_error j \<noteq> None)
   \<and> (status j \<in> {StatusRunning, StatusSucceeded} \<longrightarrow> job_error j = None)
   \<and> (status j = StatusRunning \<longrightarrow> 1 \<le> attempt j \<and> run_after j \<le> now)
   \<and> (status j \<in> {StatusQueued, StatusRetrying} \<longrightarrow> attempt j < max_attempts j)
   \<and> status j \<noteq> StatusFailed"

definition db_ok :: "time \<Rightarrow> db \<Rightarrow> bool" where
  "db_ok now d \<longleftrightarrow> tables_ok d \<and> (\<forall>j\<in>set (jobs d). job_ok now j)"

section \<open>Facts\<close>

lemma db_okI: "tables_ok d \<Longrightarrow> (\<And>j. j \<in> set (jobs d) \<Longrightarrow> job_ok now j) \<Longrightarrow> db_ok now d"
  by (simp add: db_ok_def)

lemma db_okD:
  "db_ok now d \<Longrightarrow> tables_ok d"
  "db_ok now d \<Longrightarrow> j \<in> set (jobs d) \<Longrightarrow> job_ok now j"
  by (simp_all add: db_ok_def)

lemma job_ok_mono: "job_ok now j \<Longrightarrow> now \<le> now' \<Longrightarrow> job_ok now' j"
  by (auto simp: job_ok_def)

lemma db_ok_mono: "db_ok now d \<Longrightarrow> now \<le> now' \<Longrightarrow> db_ok now' d"
  by (auto simp: db_ok_def intro: job_ok_mono)

lemma lookup_job_ok: "db_ok now d \<Longrightarrow> lookup_job d i = Some j \<Longrightarrow> job_ok now j"
  by (auto simp: db_ok_def dest: lookup_job_in)

lemma tables_ok_ids: "tables_ok d \<Longrightarrow> distinct (job_ids d)"
  by (simp add: tables_ok_def jobs_ok_def)

lemma lookup_job_iff:
  "tables_ok d \<Longrightarrow> lookup_job d i = Some j \<longleftrightarrow> j \<in> set (jobs d) \<and> job_id j = i"
  by (auto dest!: tables_ok_ids simp: lookup_job_def job_ids_def row_at_iff)

lemma job_ids_statements [simp]:
  "job_ids (insert_job j d) = job_ids d @ [job_id j]"
  "job_ids (insert_step s d) = job_ids d"
  "job_ids (insert_signal g d) = job_ids d"
  "job_ids (insert_event e i ty det d) = job_ids d"
  by (simp_all add: job_ids_def)

lemma job_ids_update [simp]:
  "(\<And>j. job_id (f j) = job_id j) \<Longrightarrow> job_ids (update_jobs P f d) = job_ids d"
  by (simp add: job_ids_def map_key_update_where)

lemma job_ids_delete: "job_ids (delete_jobs gone d) = filter (\<lambda>i. i \<notin> set gone) (job_ids d)"
  by (simp add: job_ids_def delete_jobs_def filter_map comp_def)

text \<open>
  The columns no \<open>UPDATE\<close> of the store touches: the row's identity, what it runs, its
  attempt budget and its lineage.
\<close>

definition same_identity :: "job \<Rightarrow> job \<Rightarrow> bool" where
  "same_identity j k \<longleftrightarrow> job_id k = job_id j \<and> queue k = queue j
     \<and> workflow_type k = workflow_type j \<and> payload k = payload j
     \<and> idempotency_key k = idempotency_key j \<and> max_attempts k = max_attempts j
     \<and> parent_id k = parent_id j \<and> created_at k = created_at j"

lemma same_identity_refl [simp]: "same_identity j j"
  by (simp add: same_identity_def)

text \<open>Each table's part depends on its own table and on the job ids only.\<close>

lemma tables_ok_frames [simp]:
  "jobs_ok (insert_step s d) = jobs_ok d"
  "jobs_ok (insert_signal g d) = jobs_ok d"
  "jobs_ok (insert_event e i ty det d) = jobs_ok d"
  "steps_ok (insert_signal g d) = steps_ok d"
  "steps_ok (insert_event e i ty det d) = steps_ok d"
  "signals_ok (insert_step s d) = signals_ok d"
  "signals_ok (insert_event e i ty det d) = signals_ok d"
  "events_ok (insert_step s d) = events_ok d"
  "events_ok (insert_signal g d) = events_ok d"
  by (simp_all add: jobs_ok_def steps_ok_def signals_ok_def events_ok_def cong: option.case_cong)

lemma jobs_okI:
  assumes "distinct (job_ids d)"
    and "\<And>j k x. j \<in> set (jobs d) \<Longrightarrow> k \<in> set (jobs d) \<Longrightarrow> idempotency_key j = Some x \<Longrightarrow>
      idempotency_key k = Some x \<Longrightarrow> job_id j = job_id k"
    and "\<And>j p. j \<in> set (jobs d) \<Longrightarrow> parent_id j = Some p \<Longrightarrow> p \<in> set (job_ids d)"
  shows "jobs_ok d"
  unfolding jobs_ok_def
proof (intro conjI ballI impI)
  fix j k assume "j \<in> set (jobs d)" "k \<in> set (jobs d)" "idempotency_key j \<noteq> None"
    "idempotency_key j = idempotency_key k"
  then show "job_id j = job_id k" using assms(2) by (metis not_None_eq)
qed (use assms(1,3) in \<open>simp_all split: option.split\<close>)

lemma jobs_ok_keyD:
  assumes "jobs_ok d" and j: "j \<in> set (jobs d)" and k: "k \<in> set (jobs d)"
    and x: "idempotency_key j = Some x" "idempotency_key k = Some x"
  shows "job_id j = job_id k"
proof -
  from assms(1) have "\<forall>j\<in>set (jobs d). \<forall>k\<in>set (jobs d). idempotency_key j \<noteq> None \<longrightarrow>
      idempotency_key j = idempotency_key k \<longrightarrow> job_id j = job_id k"
    unfolding jobs_ok_def by (elim conjE)
  from bspec [OF bspec [OF this j] k] x show ?thesis by simp
qed

lemma jobs_ok_parentD: "jobs_ok d \<Longrightarrow> j \<in> set (jobs d) \<Longrightarrow> parent_id j = Some p \<Longrightarrow> p \<in> set (job_ids d)"
  unfolding jobs_ok_def by (elim conjE) (drule (1) bspec, simp)

lemma jobs_ok_ids: "jobs_ok d \<Longrightarrow> distinct (job_ids d)"
  by (simp add: jobs_ok_def)

lemmas jobs_okD = jobs_ok_ids jobs_ok_keyD jobs_ok_parentD

lemma signals_ok_keyD:
  assumes "signals_ok d" and g: "g \<in> set (job_signals d)" and h: "h \<in> set (job_signals d)"
    and "sig_key g \<noteq> None" and "sig_job g = sig_job h" "sig_name g = sig_name h" "sig_key g = sig_key h"
  shows "g = h"
proof -
  from assms(1) have "\<forall>g\<in>set (job_signals d). \<forall>h\<in>set (job_signals d). sig_key g \<noteq> None \<longrightarrow>
          (sig_job g, sig_name g, sig_key g) = (sig_job h, sig_name h, sig_key h) \<longrightarrow> g = h"
    unfolding signals_ok_def by (elim conjE)
  from bspec [OF bspec [OF this g] h] assms show ?thesis by simp
qed

lemma signals_okI:
  assumes "sorted_wrt (<) (map sig_id (job_signals d))"
    and "\<And>g. g \<in> set (job_signals d) \<Longrightarrow> sig_id g < next_signal d \<and> sig_job g \<in> set (job_ids d)"
    and "\<And>g h. g \<in> set (job_signals d) \<Longrightarrow> h \<in> set (job_signals d) \<Longrightarrow> sig_key g \<noteq> None \<Longrightarrow>
      sig_job g = sig_job h \<Longrightarrow> sig_name g = sig_name h \<Longrightarrow> sig_key g = sig_key h \<Longrightarrow> g = h"
  shows "signals_ok d"
  unfolding signals_ok_def using assms(1)
  by (intro conjI ballI impI) (auto dest: assms(2) intro: assms(3))

lemma jobs_update_origin:
  assumes "\<And>j. same_identity j (f j)" and "k \<in> set (jobs (update_jobs P f d))"
  obtains j where "j \<in> set (jobs d)" and "same_identity j k"
proof -
  from assms(2) obtain j where "j \<in> set (jobs d)" "k = (if P j then f j else j)"
    by (auto simp: set_update_where)
  with assms(1) that show thesis by (cases "P j") auto
qed

lemma tables_ok_update:
  assumes ok: "tables_ok d" and f: "\<And>j. same_identity j (f j)"
  shows "tables_ok (update_jobs P f d)"
proof -
  let ?d = "update_jobs P f d"
  have ids: "job_ids ?d = job_ids d" using f by (simp add: same_identity_def)
  have jobs: "jobs_ok d" using ok by (simp add: tables_ok_def)
  have "jobs_ok ?d"
  proof (rule jobs_okI)
    show "distinct (job_ids ?d)" using ids jobs_okD(1) [OF jobs] by simp
  next
    fix j k x assume jk: "j \<in> set (jobs ?d)" "k \<in> set (jobs ?d)"
      and x: "idempotency_key j = Some x" "idempotency_key k = Some x"
    obtain j' where j': "j' \<in> set (jobs d)" "same_identity j' j"
      using jobs_update_origin [OF f jk(1)] .
    obtain k' where k': "k' \<in> set (jobs d)" "same_identity k' k"
      using jobs_update_origin [OF f jk(2)] .
    from j'(2) k'(2) x have "idempotency_key j' = Some x" "idempotency_key k' = Some x"
      by (simp_all add: same_identity_def)
    then have "job_id j' = job_id k'" by (rule jobs_ok_keyD [OF jobs j'(1) k'(1)])
    moreover have "job_id j = job_id j'" "job_id k = job_id k'"
      using j'(2) k'(2) by (simp_all add: same_identity_def)
    ultimately show "job_id j = job_id k" by simp
  next
    fix j p assume j: "j \<in> set (jobs ?d)" and p: "parent_id j = Some p"
    obtain j' where j': "j' \<in> set (jobs d)" "same_identity j' j"
      using jobs_update_origin [OF f j] .
    from j'(2) p have "parent_id j' = Some p" by (simp add: same_identity_def)
    then show "p \<in> set (job_ids ?d)" using jobs_ok_parentD [OF jobs j'(1)] ids by simp
  qed
  moreover have "steps_ok ?d = steps_ok d" by (simp only: steps_ok_def ids db_update_simps)
  moreover have "signals_ok ?d = signals_ok d" by (simp only: signals_ok_def ids db_update_simps)
  moreover have "events_ok ?d = events_ok d" by (simp only: events_ok_def ids db_update_simps)
  ultimately show ?thesis using ok by (simp add: tables_ok_def)
qed

lemma db_ok_update:
  assumes "db_ok now d" and "now \<le> now'" and "\<And>j. same_identity j (f j)"
    and "\<And>j. j \<in> set (jobs d) \<Longrightarrow> P j \<Longrightarrow> job_ok now' j \<Longrightarrow> job_ok now' (f j)"
  shows "db_ok now' (update_jobs P f d)"
proof (rule db_okI)
  show "tables_ok (update_jobs P f d)"
    using assms by (intro tables_ok_update) (auto simp: db_ok_def)
  fix k assume "k \<in> set (jobs (update_jobs P f d))"
  then show "job_ok now' k"
    using assms(2,4) db_okD(2) [OF assms(1)] by (auto simp: set_update_where intro: job_ok_mono)
qed

lemma tables_ok_insert_job:
  assumes ok: "tables_ok d" and new: "job_id j \<notin> set (job_ids d)"
    and key: "\<And>k. k \<in> set (jobs d) \<Longrightarrow> idempotency_key j \<noteq> None \<Longrightarrow> idempotency_key k \<noteq> idempotency_key j"
    and parent: "\<And>p. parent_id j = Some p \<Longrightarrow> p \<in> set (job_ids d)"
  shows "tables_ok (insert_job j d)"
proof -
  have jobs: "jobs_ok d" using ok by (simp add: tables_ok_def)
  have "jobs_ok (insert_job j d)"
  proof (rule jobs_okI)
    show "distinct (job_ids (insert_job j d))" using new jobs_okD(1) [OF jobs] by simp
  next
    fix a b x assume "a \<in> set (jobs (insert_job j d))" "b \<in> set (jobs (insert_job j d))"
      "idempotency_key a = Some x" "idempotency_key b = Some x"
    then show "job_id a = job_id b"
      using key [of a] key [of b] jobs_okD(2) [OF jobs, of a b x] by auto
  next
    fix a p assume "a \<in> set (jobs (insert_job j d))" "parent_id a = Some p"
    then show "p \<in> set (job_ids (insert_job j d))"
      using parent [of p] jobs_okD(3) [OF jobs, of a p] by auto
  qed
  with ok show ?thesis
    by (auto simp: tables_ok_def steps_ok_def signals_ok_def events_ok_def)
qed

lemma tables_ok_insert_step:
  assumes "tables_ok d" and "st_job s \<in> set (job_ids d)" and "lookup_step d (st_job s) (st_name s) = None"
  shows "tables_ok (insert_step s d)"
proof -
  have "step_key s \<notin> step_key ` set (job_steps d)"
    using assms(3) by (simp add: lookup_step_def row_at_None step_key_def)
  with assms have "steps_ok (insert_step s d)" by (auto simp: tables_ok_def steps_ok_def)
  with assms(1) show ?thesis by (simp add: tables_ok_def)
qed

lemma tables_ok_insert_signal:
  assumes ok: "tables_ok d" and job: "sig_job g \<in> set (job_ids d)" and seq: "sig_id g = next_signal d"
    and key: "\<And>h. h \<in> set (job_signals d) \<Longrightarrow> sig_key g \<noteq> None \<Longrightarrow>
       (sig_job h, sig_name h, sig_key h) \<noteq> (sig_job g, sig_name g, sig_key g)"
  shows "tables_ok (insert_signal g d)"
proof -
  have sig: "signals_ok d" using ok by (simp add: tables_ok_def)
  have "signals_ok (insert_signal g d)"
  proof (rule signals_okI)
    show "sorted_wrt (<) (map sig_id (job_signals (insert_signal g d)))"
      using sig seq by (auto simp: signals_ok_def sorted_wrt_append)
    fix h assume h: "h \<in> set (job_signals (insert_signal g d))"
    then show "sig_id h < next_signal (insert_signal g d) \<and> sig_job h \<in> set (job_ids (insert_signal g d))"
      using sig seq job by (auto simp: signals_ok_def)
    fix h' assume "h' \<in> set (job_signals (insert_signal g d))" "sig_key h \<noteq> None"
      "sig_job h = sig_job h'" "sig_name h = sig_name h'" "sig_key h = sig_key h'"
    with h key [of h] key [of h'] signals_ok_keyD [OF sig, of h h'] show "h = h'" by auto
  qed
  with ok show ?thesis by (simp add: tables_ok_def)
qed

lemma tables_ok_event:
  assumes "tables_ok d" and "i \<in> set (job_ids d)"
  shows "tables_ok (insert_event e i ty det d)"
proof -
  have "events_ok (insert_event e i ty det d)"
    using assms unfolding tables_ok_def events_ok_def
    by (auto simp: sorted_wrt_append insert_event_def job_ids_def)
  with assms(1) show ?thesis by (simp add: tables_ok_def)
qed

lemma jobs_delete_origin:
  assumes "k \<in> set (jobs (delete_jobs gone d))"
  obtains j where "j \<in> set (jobs d)" and "k = orphan gone j" and "job_id j \<notin> set gone"
  using assms by (auto simp: delete_jobs_def)

lemma parent_orphan: "parent_id (orphan gone j) = Some p \<longleftrightarrow> parent_id j = Some p \<and> p \<notin> set gone"
  by (auto simp: orphan_def split: option.splits)

lemma jobs_ok_delete:
  assumes ok: "jobs_ok d"
  shows "jobs_ok (delete_jobs gone d)"
proof (rule jobs_okI)
  show "distinct (job_ids (delete_jobs gone d))"
    using jobs_okD(1) [OF ok] by (simp add: job_ids_delete)
next
  fix j k x assume jk: "j \<in> set (jobs (delete_jobs gone d))" "k \<in> set (jobs (delete_jobs gone d))"
    and x: "idempotency_key j = Some x" "idempotency_key k = Some x"
  obtain j' where j': "j' \<in> set (jobs d)" "j = orphan gone j'" using jobs_delete_origin [OF jk(1)] .
  obtain k' where k': "k' \<in> set (jobs d)" "k = orphan gone k'" using jobs_delete_origin [OF jk(2)] .
  from x j'(2) k'(2) show "job_id j = job_id k"
    using jobs_ok_keyD [OF ok j'(1) k'(1)] by simp
next
  fix j p assume j: "j \<in> set (jobs (delete_jobs gone d))" and p: "parent_id j = Some p"
  obtain j' where "j' \<in> set (jobs d)" "j = orphan gone j'" using jobs_delete_origin [OF j] .
  with p show "p \<in> set (job_ids (delete_jobs gone d))"
    using jobs_ok_parentD [OF ok] by (simp add: job_ids_delete parent_orphan)
qed

lemma tables_ok_delete:
  assumes "tables_ok d"
  shows "tables_ok (delete_jobs gone d)"
proof -
  have ids: "set (job_ids (delete_jobs gone d)) = set (job_ids d) - set gone"
    by (auto simp: job_ids_delete)
  have tabs: "job_steps (delete_jobs gone d) = filter (\<lambda>s. st_job s \<notin> set gone) (job_steps d)"
    "job_signals (delete_jobs gone d) = filter (\<lambda>s. sig_job s \<notin> set gone) (job_signals d)"
    "job_events (delete_jobs gone d) = filter (\<lambda>v. ev_job v \<notin> set gone) (job_events d)"
    "next_signal (delete_jobs gone d) = next_signal d" "next_event (delete_jobs gone d) = next_event d"
    by (simp_all add: delete_jobs_def)
  have "steps_ok (delete_jobs gone d)"
    using assms by (auto simp: tables_ok_def steps_ok_def ids tabs intro: distinct_map_filter_key)
  moreover have "events_ok (delete_jobs gone d)"
    using assms by (auto simp: tables_ok_def events_ok_def ids tabs sorted_wrt_map
        intro: sorted_wrt_filter)
  moreover have "signals_ok (delete_jobs gone d)"
  proof (rule signals_okI)
    have ok: "signals_ok d" using assms by (simp add: tables_ok_def)
    show "sorted_wrt (<) (map sig_id (job_signals (delete_jobs gone d)))"
      using ok by (simp add: signals_ok_def tabs sorted_wrt_map sorted_wrt_filter)
    fix g assume g: "g \<in> set (job_signals (delete_jobs gone d))"
    show "sig_id g < next_signal (delete_jobs gone d) \<and> sig_job g \<in> set (job_ids (delete_jobs gone d))"
      using ok g unfolding ids by (simp add: signals_ok_def tabs)
    fix h assume "h \<in> set (job_signals (delete_jobs gone d))" "sig_key g \<noteq> None"
      "sig_job g = sig_job h" "sig_name g = sig_name h" "sig_key g = sig_key h"
    with g signals_ok_keyD [OF ok, of g h] show "g = h" by (simp add: tabs)
  qed
  moreover have "jobs_ok (delete_jobs gone d)"
    using assms by (simp add: tables_ok_def jobs_ok_delete)
  ultimately show ?thesis by (simp add: tables_ok_def)
qed

lemma job_ok_orphan: "job_ok now j \<Longrightarrow> job_ok now (orphan gone j)"
  by (simp add: orphan_def job_ok_def split: option.splits)

lemma db_ok_delete: "db_ok now d \<Longrightarrow> db_ok now (delete_jobs gone d)"
  by (auto simp: db_ok_def tables_ok_delete delete_jobs_def job_ok_orphan
      intro: tables_ok_delete [unfolded delete_jobs_def])

lemma db_ok_event: "db_ok now d \<Longrightarrow> i \<in> set (job_ids d) \<Longrightarrow> db_ok now (insert_event e i ty det d)"
  by (simp add: db_ok_def tables_ok_event)

lemma db_ok_appendEvent:
  "db_ok now d \<Longrightarrow> appendEvent e i ty flds d = Inr (x, d') \<Longrightarrow> db_ok now d'"
  by (auto simp: appendEvent_def lookup_job_None db_ok_event split: if_splits)

lemma db_ok_append_events:
  "db_ok now d \<Longrightarrow> append_events e evs d = Inr (x, d') \<Longrightarrow> db_ok now d'"
proof (induction evs arbitrary: d)
  case (Cons v evs)
  obtain i ty flds where v: "v = (i, ty, flds)" by (cases v)
  from Cons.prems(2) obtain y d1 where
    "appendEvent e i ty flds d = Inr (y, d1)" and "append_events e evs d1 = Inr (x, d')"
    by (auto simp: v split: sum.splits)
  with Cons.prems(1) Cons.IH show ?case by (blast intro: db_ok_appendEvent)
qed simp

lemma db_ok_empty: "db_ok now empty_db"
  by (simp add: db_ok_def tables_ok_def jobs_ok_def steps_ok_def signals_ok_def events_ok_def
      empty_db_def job_ids_def)

end
