(* ===== verification/Jobstore.thy ===== *)
theory Jobstore
  imports Wellformed Gotime
begin

text \<open>
  The operations of \<open>internal/store/postgres/store.go\<close> that create, claim, finish and
  delete jobs. Each is a function of the call's environment, its arguments and the
  database; it answers the result or the error, and the new database. A call with two
  units of work (\<open>Heartbeat\<close>, \<open>Complete\<close>, \<open>Cancel\<close>, \<open>RetryDeadLetter\<close>, \<open>Replay\<close>) appends its
  event in the second one, after the first has committed.
\<close>

section \<open>Intervals\<close>

text \<open>\<open>pgInterval\<close>: thirty seconds for a non-positive duration, printed to the microsecond.\<close>

definition pgInterval :: "duration \<Rightarrow> duration" where
  "pgInterval dur = (if dur \<le> 0 then 30 * second else (dur + 500) div 1000 * 1000)"

lemma pgInterval_nonneg [simp]: "0 \<le> pgInterval dur"
  by (simp add: pgInterval_def)

lemma pgInterval_exact: "0 < dur \<Longrightarrow> pgInterval (1000 * dur) = 1000 * dur"
  by (simp add: pgInterval_def)

section \<open>Enqueue\<close>

definition new_job :: "senv \<Rightarrow> enqueue_request \<Rightarrow> bytes \<Rightarrow> job" where
  "new_job e req pl = \<lparr>job_id = new_uuid e, queue = rq_queue req, workflow_type = rq_type req,
     payload = pl, status = StatusQueued, idempotency_key = null_if_empty (rq_key req),
     parent_id = null_if_empty (rq_parent req), attempt = 0, max_attempts = rq_max_attempts req,
     run_after = rq_run_after req, lease_owner = None, lease_expires_at = None, wake_version = 0,
     heartbeat_at = None, job_result = None, job_error = None, trace_id = None,
     created_at = pg_now e, updated_at = pg_now e, completed_at = None\<rparr>"

definition key_holder :: "string \<Rightarrow> db \<Rightarrow> job option" where
  "key_holder key d =
     (if key = '''' then None else find (\<lambda>j. idempotency_key j = Some key) (jobs d))"

text \<open>
  The insert: refused for a payload \<open>jsonb\<close> rejects, for a budget outside the column's
  range, for a missing parent and for a uuid already used; a conflict on the idempotency
  key answers the existing row instead.
\<close>

definition Enqueue :: "senv \<Rightarrow> enqueue_request \<Rightarrow> db \<Rightarrow> (goerr + job \<times> bool) \<times> db" where
  "Enqueue e request =
     (let req = NormalizeEnqueue (go_now e) request;
          flds = [(''queue'', DStr (rq_queue req)), (''workflow_type'', DStr (rq_type req))]
      in withTx e 0 (\<lambda>d.
        case jsonb e (rq_payload req) of
          None \<Rightarrow> Inl json_error
        | Some pl \<Rightarrow>
            if \<not> int4 (rq_max_attempts req) then Inl range_error
            else (case key_holder (rq_key req) d of
              Some j \<Rightarrow>
                (case appendEvent e (job_id j) ''job.enqueue_idempotent_hit'' flds d of
                   Inl err \<Rightarrow> Inl err
                 | Inr (_, d1) \<Rightarrow> Inr ((j, False), d1))
            | None \<Rightarrow>
                if lookup_job d (new_uuid e) \<noteq> None then Inl primary_key_error
                else if rq_parent req \<noteq> '''' \<and> lookup_job d (rq_parent req) = None
                  then Inl foreign_key_error
                else let j = new_job e req pl in
                  (case appendEvent e (job_id j) ''job.enqueued'' flds (insert_job j d) of
                     Inl err \<Rightarrow> Inl err
                   | Inr (_, d1) \<Rightarrow> Inr ((j, True), d1)))))"

section \<open>Claim\<close>

definition claim_defaults :: "claim_options \<Rightarrow> claim_options" where
  "claim_defaults opts =
     (let opts = (if co_limit opts \<le> 0 then opts\<lparr>co_limit := 1\<rparr> else opts)
      in if co_queue opts = '''' then opts\<lparr>co_queue := ''default''\<rparr> else opts)"

definition claimable :: "senv \<Rightarrow> string \<Rightarrow> job \<Rightarrow> bool" where
  "claimable e q j \<longleftrightarrow>
     (queue j = q \<and> status j \<in> {StatusQueued, StatusRetrying} \<and> run_after j \<le> pg_now e)
   \<or> (queue j = q \<and> status j = StatusRunning \<and> before (lease_expires_at j) (pg_now e)
      \<and> attempt j < max_attempts j)"

definition claim_row :: "senv \<Rightarrow> claim_options \<Rightarrow> job \<Rightarrow> job" where
  "claim_row e opts j = j\<lparr>status := StatusRunning, attempt := attempt j + 1,
     lease_owner := Some (co_worker opts),
     lease_expires_at := Some (pg_now e + pgInterval (co_lease opts)),
     heartbeat_at := Some (pg_now e), updated_at := pg_now e, job_error := None\<rparr>"

text \<open>
  \<open>ORDER BY run_after, created_at FOR UPDATE SKIP LOCKED LIMIT n\<close>: rows locked by another
  transaction are passed over and do not count, and ties fall as the rows are met. The
  \<open>UPDATE\<close> then answers the rows in an order of its own.
\<close>

definition claim_candidates :: "senv \<Rightarrow> claim_options \<Rightarrow> db \<Rightarrow> job list" where
  "claim_candidates e opts d =
     take (nat (co_limit opts)) (sort_key (\<lambda>j. (run_after j, created_at j))
       (scanned e (filter (\<lambda>j. claimable e (co_queue opts) j \<and> \<not> row_locked e (job_id j)) (jobs d))))"

definition claimed_event :: "claim_options \<Rightarrow> job \<Rightarrow> string \<times> string \<times> (string \<times> detail) list" where
  "claimed_event opts j = (job_id j, ''job.claimed'',
     [(''worker_id'', DStr (co_worker opts)), (''attempt'', DInt (attempt j))])"

definition Claim :: "senv \<Rightarrow> claim_options \<Rightarrow> db \<Rightarrow> (goerr + job list) \<times> db" where
  "Claim e options =
     (let opts = claim_defaults options
      in withTx e 0 (\<lambda>d.
        let cands = claim_candidates e opts d;
            ids = map job_id cands;
            claimed = returning e (map (claim_row e opts) cands)
        in if list_ex (\<lambda>j. \<not> int4 (attempt j)) claimed then Inl range_error
           else (case append_events e (map (claimed_event opts) claimed)
                   (update_jobs (\<lambda>j. job_id j \<in> set ids) (claim_row e opts) d) of
              Inl err \<Rightarrow> Inl err
            | Inr (_, d1) \<Rightarrow> Inr (claimed, d1))))"

section \<open>The dead-letter sweep and retention\<close>

definition lease_expired_msg :: string where
  "lease_expired_msg = ''lease expired after max attempts''"

definition exhausted :: "senv \<Rightarrow> job \<Rightarrow> bool" where
  "exhausted e j \<longleftrightarrow> status j = StatusRunning \<and> before (lease_expires_at j) (pg_now e)
     \<and> max_attempts j \<le> attempt j"

definition dead_row :: "senv \<Rightarrow> job \<Rightarrow> job" where
  "dead_row e j = j\<lparr>status := StatusDeadLetter,
     job_error := (case job_error j of None \<Rightarrow> Some lease_expired_msg | Some m \<Rightarrow> Some m),
     lease_owner := None, lease_expires_at := None, updated_at := pg_now e,
     completed_at := Some (pg_now e)\<rparr>"

definition DeadLetterExhausted :: "senv \<Rightarrow> db \<Rightarrow> (goerr + string list) \<times> db" where
  "DeadLetterExhausted e = withTx e 0 (\<lambda>d.
     if \<not> advisory e ''workrail:dead_letter_sweep'' then Inr ([], d)
     else let ids = map job_id (returning e (filter (\<lambda>j. exhausted e j \<and> \<not> row_locked e (job_id j)) (jobs d)))
       in (case append_events e
               (map (\<lambda>i. (i, ''job.dead_lettered'', [(''reason'', DStr lease_expired_msg)])) ids)
               (update_jobs (\<lambda>j. job_id j \<in> set ids) (dead_row e) d) of
          Inl err \<Rightarrow> Inl err
        | Inr (_, d1) \<Rightarrow> Inr (ids, d1)))"

definition pruneBatchSize :: nat where
  "pruneBatchSize = 5000"

definition prunable :: "senv \<Rightarrow> string \<Rightarrow> duration \<Rightarrow> job \<Rightarrow> bool" where
  "prunable e q older j \<longleftrightarrow> queue j = q \<and> status j \<in> {StatusSucceeded, StatusCanceled}
     \<and> before (completed_at j) (pg_now e - pgInterval older)"

definition PruneCompleted :: "senv \<Rightarrow> string \<Rightarrow> duration \<Rightarrow> db \<Rightarrow> (goerr + int) \<times> db" where
  "PruneCompleted e q older d0 =
     (if older \<le> 0 then (Inr 0, d0)
      else withTx e 0 (\<lambda>d.
        if \<not> advisory e (''workrail:prune:'' @ q) then Inr (0, d)
        else let gone = map job_id (take pruneBatchSize (scanned e (filter (prunable e q older) (jobs d))))
          in Inr (int (length gone), delete_jobs gone d)) d0)"

section \<open>The lease holder's operations\<close>

definition held_by :: "string \<Rightarrow> string \<Rightarrow> job \<Rightarrow> bool" where
  "held_by i w j \<longleftrightarrow> job_id j = i \<and> lease_owner j = Some w \<and> status j = StatusRunning"

definition heartbeat_row :: "senv \<Rightarrow> duration \<Rightarrow> job \<Rightarrow> job" where
  "heartbeat_row e lease j = j\<lparr>heartbeat_at := Some (pg_now e),
     lease_expires_at := Some (pg_now e + pgInterval lease), updated_at := pg_now e\<rparr>"

definition Heartbeat :: "senv \<Rightarrow> string \<Rightarrow> string \<Rightarrow> duration \<Rightarrow> db \<Rightarrow> (goerr + unit) \<times> db" where
  "Heartbeat e i w lease d0 =
     and_then
       (withTx e 0 (\<lambda>d. Inr (rows_affected (held_by i w) d,
          update_jobs (held_by i w) (heartbeat_row e lease) d)) d0)
       (\<lambda>n d. if n = 0 then (Inl (Sentinel ErrInvalidTransition), d)
              else withTx e 1 (appendEvent e i ''job.heartbeat'' [(''worker_id'', DStr w)]) d)"

definition suspend_row :: "senv \<Rightarrow> time \<Rightarrow> job \<Rightarrow> job" where
  "suspend_row e ra j = j\<lparr>status := StatusQueued, run_after := ra,
     attempt := max (attempt j - 1) 0, lease_owner := None, lease_expires_at := None,
     updated_at := pg_now e\<rparr>"

definition Suspend :: "senv \<Rightarrow> string \<Rightarrow> string \<Rightarrow> time \<Rightarrow> int \<Rightarrow> db \<Rightarrow> (goerr + bool) \<times> db" where
  "Suspend e i w ra version =
     withTx e 0 (\<lambda>d.
       let P = (\<lambda>j. held_by i w j \<and> wake_version j = version)
       in if rows_affected P d = 0 then Inr (False, d)
          else (case appendEvent e i ''job.suspended'' [(''run_after'', DTime ra)]
                  (update_jobs P (suspend_row e ra) d) of
             Inl err \<Rightarrow> Inl err
           | Inr (_, d1) \<Rightarrow> Inr (True, d1)))"

definition complete_row :: "senv \<Rightarrow> bytes \<Rightarrow> job \<Rightarrow> job" where
  "complete_row e res j = j\<lparr>status := StatusSucceeded, job_result := Some res,
     lease_owner := None, lease_expires_at := None, updated_at := pg_now e,
     completed_at := Some (pg_now e)\<rparr>"

definition Complete :: "senv \<Rightarrow> string \<Rightarrow> string \<Rightarrow> bytes \<Rightarrow> db \<Rightarrow> (goerr + unit) \<times> db" where
  "Complete e i w result0 d0 =
     (let res = (if result0 = '''' then ''{}'' else result0)
      in and_then
        (withTx e 0 (\<lambda>d. case jsonb e res of
             None \<Rightarrow> Inl json_error
           | Some r \<Rightarrow> Inr (rows_affected (held_by i w) d,
               update_jobs (held_by i w) (complete_row e r) d)) d0)
        (\<lambda>n d. if n = 0 then (Inl (Sentinel ErrInvalidTransition), d)
               else withTx e 1 (appendEvent e i ''job.succeeded'' []) d))"

definition fail_row :: "senv \<Rightarrow> status \<Rightarrow> string \<Rightarrow> time \<Rightarrow> job \<Rightarrow> job" where
  "fail_row e next msg ra j = j\<lparr>status := next, job_error := Some msg, run_after := ra,
     lease_owner := None, lease_expires_at := None, updated_at := pg_now e,
     completed_at := (if next = StatusDeadLetter then Some (pg_now e) else None)\<rparr>"

definition Fail :: "senv \<Rightarrow> string \<Rightarrow> string \<Rightarrow> goerr \<Rightarrow> db \<Rightarrow> (goerr + unit) \<times> db" where
  "Fail e i w cause =
     withTx e 0 (\<lambda>d.
       case find (held_by i w) (jobs d) of
         None \<Rightarrow> Inl (Sentinel ErrInvalidTransition)
       | Some j \<Rightarrow>
           let next = NextStatusAfterFailure (attempt j) (max_attempts j) cause;
               ra = go_now e + Backoff (attempt j);
               ra = (if next = StatusDeadLetter then go_now e else ra);
               flds = [(''error'', DStr (err_string cause)), (''next_status'', DStr (status_string next))];
               flds = (if IsPermanent cause then flds @ [(''permanent'', DBool True)] else flds)
           in appendEvent e i ''job.failed'' flds
                (update_jobs (\<lambda>k. job_id k = i \<and> lease_owner k = Some w)
                  (fail_row e next (err_string cause) ra) d))"

section \<open>The operator's operations\<close>

definition cancel_row :: "senv \<Rightarrow> job \<Rightarrow> job" where
  "cancel_row e j = j\<lparr>status := StatusCanceled, lease_owner := None, lease_expires_at := None,
     updated_at := pg_now e, completed_at := Some (pg_now e)\<rparr>"

definition live :: "string \<Rightarrow> job \<Rightarrow> bool" where
  "live i j \<longleftrightarrow> job_id j = i \<and> status j \<notin> {StatusSucceeded, StatusDeadLetter, StatusCanceled}"

definition Cancel :: "senv \<Rightarrow> string \<Rightarrow> db \<Rightarrow> (goerr + unit) \<times> db" where
  "Cancel e i d0 =
     and_then
       (withTx e 0 (\<lambda>d. Inr (rows_affected (live i) d, update_jobs (live i) (cancel_row e) d)) d0)
       (\<lambda>n d. if n = 0 then (Inl (Sentinel ErrInvalidTransition), d)
              else withTx e 1 (appendEvent e i ''job.canceled'' []) d)"

definition retry_row :: "senv \<Rightarrow> job \<Rightarrow> job" where
  "retry_row e j = j\<lparr>status := StatusQueued, attempt := 0, run_after := pg_now e,
     lease_owner := None, lease_expires_at := None, heartbeat_at := None, job_result := None,
     job_error := None, updated_at := pg_now e, completed_at := None\<rparr>"

definition dead_letter :: "string \<Rightarrow> job \<Rightarrow> bool" where
  "dead_letter i j \<longleftrightarrow> job_id j = i \<and> status j = StatusDeadLetter"

definition RetryDeadLetter :: "senv \<Rightarrow> string \<Rightarrow> db \<Rightarrow> (goerr + job) \<times> db" where
  "RetryDeadLetter e i d0 =
     and_then
       (withTx e 0 (\<lambda>d. case find (dead_letter i) (jobs d) of
            None \<Rightarrow> Inl (Sentinel ErrInvalidTransition)
          | Some j \<Rightarrow> Inr (retry_row e j, update_jobs (dead_letter i) (retry_row e) d)) d0)
       (\<lambda>j d. and_then (withTx e 1 (appendEvent e (job_id j) ''job.dlq_retried'' []) d)
          (\<lambda>_ d. (Inr j, d)))"

text \<open>\<open>INSERT ... SELECT\<close> of four columns of the source; the others take their defaults.\<close>

definition replay_job :: "senv \<Rightarrow> job \<Rightarrow> job" where
  "replay_job e src = \<lparr>job_id = new_uuid e, queue = queue src, workflow_type = workflow_type src,
     payload = payload src, status = StatusQueued, idempotency_key = None, parent_id = None,
     attempt = 0, max_attempts = max_attempts src, run_after = pg_now e, lease_owner = None,
     lease_expires_at = None, wake_version = 0, heartbeat_at = None, job_result = None,
     job_error = None, trace_id = None, created_at = pg_now e, updated_at = pg_now e,
     completed_at = None\<rparr>"

definition Replay :: "senv \<Rightarrow> string \<Rightarrow> db \<Rightarrow> (goerr + job) \<times> db" where
  "Replay e i d0 =
     and_then
       (withTx e 0 (\<lambda>d. case lookup_job d i of
            None \<Rightarrow> Inl (Sentinel ErrNotFound)
          | Some src \<Rightarrow>
              if lookup_job d (new_uuid e) \<noteq> None then Inl primary_key_error
              else Inr (replay_job e src, insert_job (replay_job e src) d)) d0)
       (\<lambda>j d. and_then (withTx e 1 (appendEvent e (job_id j) ''job.replayed''
            [(''source_job_id'', DStr i)]) d)
          (\<lambda>_ d. (Inr j, d)))"

definition RecordEvent :: "senv \<Rightarrow> string \<Rightarrow> string \<Rightarrow> bytes \<Rightarrow> db \<Rightarrow> (goerr + unit) \<times> db" where
  "RecordEvent e i ty det0 =
     (let det = (if det0 = '''' then ''{}'' else det0)
      in withTx e 0 (\<lambda>d. case jsonb e det of
          None \<Rightarrow> Inl json_error
        | Some v \<Rightarrow> if lookup_job d i = None then Inl foreign_key_error
            else Inr ((), insert_event e i ty (RawDetails v) d)))"

end
