(* ===== verification/Mailbox.thy ===== *)
theory Mailbox
  imports Jobstore
begin

text \<open>
  The checkpoint table and the signal mailbox of \<open>store.go\<close>: \<open>GetStep\<close>, \<open>SaveStep\<close>,
  \<open>ListSteps\<close>, \<open>Signal\<close>, \<open>GetSignalAt\<close>, \<open>ListSignals\<close>.
\<close>

section \<open>Checkpoints\<close>

definition GetStep :: "senv \<Rightarrow> string \<Rightarrow> string \<Rightarrow> db \<Rightarrow> (goerr + bytes option) \<times> db" where
  "GetStep e i name = withTx e 0 (\<lambda>d. Inr (lookup_step d i name, d))"

text \<open>
  The winner of a first-write-wins race gets back the bytes it wrote, a loser the stored
  (normalised) checkpoint of the winner.
\<close>

definition SaveStep ::
    "senv \<Rightarrow> string \<Rightarrow> string \<Rightarrow> string \<Rightarrow> bytes \<Rightarrow> db \<Rightarrow> (goerr + bytes) \<times> db" where
  "SaveStep e i w name res =
     withTx e 0 (\<lambda>d.
       if \<not> list_ex (held_by i w) (jobs d) then Inl (Sentinel ErrInvalidTransition)
       else case jsonb e res of
         None \<Rightarrow> Inl json_error
       | Some v \<Rightarrow>
           (case lookup_step d i name of
              Some old \<Rightarrow> Inr (old, d)
            | None \<Rightarrow>
                let s = \<lparr>st_job = i, st_name = name, st_result = v, st_at = pg_now e\<rparr>
                in (case appendEvent e i ''job.step_completed'' [(''step'', DStr name)] (insert_step s d) of
                      Inl err \<Rightarrow> Inl err
                    | Inr (_, d1) \<Rightarrow> Inr (res, d1))))"

definition ListSteps :: "senv \<Rightarrow> string \<Rightarrow> db \<Rightarrow> (goerr + step_result list) \<times> db" where
  "ListSteps e i = withTx e 0 (\<lambda>d.
     Inr (sort_key (\<lambda>s. (st_at s, st_name s)) (filter (\<lambda>s. st_job s = i) (job_steps d)), d))"

section \<open>Signals\<close>

definition signal_taken :: "string \<Rightarrow> string \<Rightarrow> string \<Rightarrow> db \<Rightarrow> bool" where
  "signal_taken i name key d \<longleftrightarrow> key \<noteq> '''' \<and>
     list_ex (\<lambda>g. sig_job g = i \<and> sig_name g = name \<and> sig_key g = Some key) (job_signals d)"

definition wake_row :: "senv \<Rightarrow> job \<Rightarrow> job" where
  "wake_row e j = j\<lparr>run_after := min (run_after j) (pg_now e), wake_version := wake_version j + 1,
     updated_at := pg_now e\<rparr>"

definition new_signal :: "senv \<Rightarrow> string \<Rightarrow> string \<Rightarrow> bytes \<Rightarrow> string \<Rightarrow> db \<Rightarrow> signal" where
  "new_signal e i name pl key d = \<lparr>sig_id = next_signal d, sig_job = i, sig_name = name,
     sig_payload = pl, sig_key = null_if_empty key, sig_at = pg_now e\<rparr>"

definition Signal ::
    "senv \<Rightarrow> string \<Rightarrow> string \<Rightarrow> bytes \<Rightarrow> string \<Rightarrow> db \<Rightarrow> (goerr + unit) \<times> db" where
  "Signal e i name payload0 key =
     (let pl0 = (if payload0 = '''' then ''{}'' else payload0)
      in withTx e 0 (\<lambda>d. case jsonb e pl0 of
          None \<Rightarrow> Inl json_error
        | Some pl \<Rightarrow>
            if \<not> list_ex (live i) (jobs d) \<or> signal_taken i name key d then
              \<comment> \<open>no row was inserted\<close>
              (if signal_taken i name key d then Inr ((), d)
               else if lookup_job d i = None then Inl (Sentinel ErrNotFound)
               else Inl (Sentinel ErrInvalidTransition))
            else
              (case appendEvent e i ''job.signaled'' [(''signal'', DStr name)]
                      (insert_signal (new_signal e i name pl key d) d) of
                 Inl err \<Rightarrow> Inl err
               | Inr (_, d1) \<Rightarrow>
                   if list_ex (\<lambda>j. live i j \<and> \<not> int4 (wake_version j + 1)) (jobs d1)
                   then Inl range_error
                   else Inr ((), update_jobs (live i) (wake_row e) d1))))"

definition mailbox :: "db \<Rightarrow> string \<Rightarrow> string \<Rightarrow> signal list" where
  "mailbox d i name = sort_key sig_id (filter (\<lambda>g. sig_job g = i \<and> sig_name g = name) (job_signals d))"

definition GetSignalAt ::
    "senv \<Rightarrow> string \<Rightarrow> string \<Rightarrow> int \<Rightarrow> db \<Rightarrow> (goerr + bytes option) \<times> db" where
  "GetSignalAt e i name index d0 =
     (if index < 0 then (Inr None, d0)
      else withTx e 0 (\<lambda>d.
        Inr (case drop (nat index) (mailbox d i name) of
               [] \<Rightarrow> None
             | g # _ \<Rightarrow> Some (sig_payload g), d)) d0)"

definition ListSignals :: "senv \<Rightarrow> string \<Rightarrow> db \<Rightarrow> (goerr + signal list) \<times> db" where
  "ListSignals e i = withTx e 0 (\<lambda>d.
     Inr (sort_key sig_id (filter (\<lambda>g. sig_job g = i) (job_signals d)), d))"

end
