(* ===== verification/Lifecycle.thy ===== *)
theory Lifecycle
  imports Mailbox
begin

text \<open>
  The store as a state machine. \<open>store_op\<close> names every operation that changes the
  database, \<open>apply_op\<close> runs one in an environment, and a reachable database is one that
  any number of workers, operators and clients can have produced: any operations, with
  any arguments, faults, held locks and generated ids, on a clock of the database that
  does not go back.
\<close>

section \<open>Operations and runs\<close>

datatype store_op =
    OpEnqueue enqueue_request
  | OpClaim claim_options
  | OpHeartbeat string string duration
  | OpDeadLetterExhausted
  | OpPruneCompleted string duration
  | OpSaveStep string string string bytes
  | OpComplete string string bytes
  | OpFail string string goerr
  | OpSuspend string string time int
  | OpSignal string string bytes string
  | OpCancel string
  | OpRetryDeadLetter string
  | OpReplay string
  | OpRecordEvent string string bytes

fun apply_op :: "senv \<Rightarrow> store_op \<Rightarrow> db \<Rightarrow> db" where
  "apply_op e (OpEnqueue req) d = snd (Enqueue e req d)"
| "apply_op e (OpClaim opts) d = snd (Claim e opts d)"
| "apply_op e (OpHeartbeat i w lease) d = snd (Heartbeat e i w lease d)"
| "apply_op e OpDeadLetterExhausted d = snd (DeadLetterExhausted e d)"
| "apply_op e (OpPruneCompleted q older) d = snd (PruneCompleted e q older d)"
| "apply_op e (OpSaveStep i w name res) d = snd (SaveStep e i w name res d)"
| "apply_op e (OpComplete i w res) d = snd (Complete e i w res d)"
| "apply_op e (OpFail i w cause) d = snd (Fail e i w cause d)"
| "apply_op e (OpSuspend i w ra version) d = snd (Suspend e i w ra version d)"
| "apply_op e (OpSignal i name pl key) d = snd (Signal e i name pl key d)"
| "apply_op e (OpCancel i) d = snd (Cancel e i d)"
| "apply_op e (OpRetryDeadLetter i) d = snd (RetryDeadLetter e i d)"
| "apply_op e (OpReplay i) d = snd (Replay e i d)"
| "apply_op e (OpRecordEvent i ty det) d = snd (RecordEvent e i ty det d)"

fun run_ops :: "(senv \<times> store_op) list \<Rightarrow> db \<Rightarrow> db" where
  "run_ops [] d = d"
| "run_ops ((e, a) # ops) d = run_ops ops (apply_op e a d)"

text \<open>The database clock does not go back along a run that starts at \<open>now\<close>.\<close>

fun clocked :: "time \<Rightarrow> (senv \<times> store_op) list \<Rightarrow> bool" where
  "clocked now [] = True"
| "clocked now ((e, a) # ops) = (now \<le> pg_now e \<and> clocked (pg_now e) ops)"

inductive store_step :: "time \<times> db \<Rightarrow> store_op \<Rightarrow> time \<times> db \<Rightarrow> bool" where
  step: "now \<le> pg_now e \<Longrightarrow> store_step (now, d) a (pg_now e, apply_op e a d)"

inductive reachable :: "time \<Rightarrow> db \<Rightarrow> bool" where
  start: "reachable now empty_db"
| op: "reachable now d \<Longrightarrow> store_step (now, d) a (now', d') \<Longrightarrow> reachable now' d'"

inductive_cases store_stepE: "store_step (now, d) a (now', d')"

section \<open>Each operation as a few kinds of change\<close>

text \<open>
  \<open>row_step e a\<close> is the change operation \<open>a\<close> makes to one job row, with the guard of its
  statement; \<open>effect e a\<close> one change of the database: an update of job rows by such steps,
  the insert of a job, a step or a signal, the deletion of jobs, and the insert of an
  event. Every operation is a sequence of its effects (\<open>apply_op_effects\<close> below), so a
  property of databases that each effect keeps is kept by every operation.
\<close>

inductive row_step :: "senv \<Rightarrow> store_op \<Rightarrow> job \<Rightarrow> job \<Rightarrow> bool" for e where
  rs_claim: "opts = claim_defaults options \<Longrightarrow> claimable e (co_queue opts) j \<Longrightarrow>
    \<not> row_locked e (job_id j) \<Longrightarrow> row_step e (OpClaim options) j (claim_row e opts j)"
| rs_dead: "exhausted e j \<Longrightarrow> row_step e OpDeadLetterExhausted j (dead_row e j)"
| rs_heartbeat: "held_by i w j \<Longrightarrow> row_step e (OpHeartbeat i w lease) j (heartbeat_row e lease j)"
| rs_suspend: "held_by i w j \<Longrightarrow> wake_version j = version \<Longrightarrow>
    row_step e (OpSuspend i w ra version) j (suspend_row e ra j)"
| rs_complete: "held_by i w j \<Longrightarrow> row_step e (OpComplete i w result0) j (complete_row e res j)"
| rs_fail: "held_by i w j \<Longrightarrow> next = NextStatusAfterFailure (attempt j) (max_attempts j) cause \<Longrightarrow>
    row_step e (OpFail i w cause) j (fail_row e next (err_string cause) ra j)"
| rs_cancel: "live i j \<Longrightarrow> row_step e (OpCancel i) j (cancel_row e j)"
| rs_retry: "dead_letter i j \<Longrightarrow> row_step e (OpRetryDeadLetter i) j (retry_row e j)"
| rs_wake: "live i j \<Longrightarrow> int4 (wake_version j + 1) \<Longrightarrow>
    row_step e (OpSignal i name payload0 key) j (wake_row e j)"

inductive effect :: "senv \<Rightarrow> store_op \<Rightarrow> db \<Rightarrow> db \<Rightarrow> bool" for e a where
  ef_rows: "(\<And>j. same_identity j (f j)) \<Longrightarrow>
    (\<And>j. j \<in> set (jobs d) \<Longrightarrow> P j \<Longrightarrow> row_step e a j (f j)) \<Longrightarrow> effect e a d (update_jobs P f d)"
| ef_enqueue: "a = OpEnqueue request \<Longrightarrow> req = NormalizeEnqueue (go_now e) request \<Longrightarrow>
    lookup_job d (new_uuid e) = None \<Longrightarrow> key_holder (rq_key req) d = None \<Longrightarrow>
    (rq_parent req \<noteq> '''' \<Longrightarrow> lookup_job d (rq_parent req) \<noteq> None) \<Longrightarrow>
    int4 (rq_max_attempts req) \<Longrightarrow> effect e a d (insert_job (new_job e req pl) d)"
| ef_replay: "a = OpReplay i \<Longrightarrow> lookup_job d (new_uuid e) = None \<Longrightarrow> lookup_job d i = Some src \<Longrightarrow>
    effect e a d (insert_job (replay_job e src) d)"
| ef_delete: "a = OpPruneCompleted q older \<Longrightarrow>
    (\<And>j. j \<in> set (jobs d) \<Longrightarrow> job_id j \<in> set gone \<Longrightarrow> prunable e q older j) \<Longrightarrow>
    effect e a d (delete_jobs gone d)"
| ef_step: "a = OpSaveStep (st_job s) w (st_name s) res \<Longrightarrow> j \<in> set (jobs d) \<Longrightarrow>
    held_by (st_job s) w j \<Longrightarrow> lookup_step d (st_job s) (st_name s) = None \<Longrightarrow>
    effect e a d (insert_step s d)"
| ef_signal: "a = OpSignal i name payload0 key \<Longrightarrow> j \<in> set (jobs d) \<Longrightarrow> live i j \<Longrightarrow>
    \<not> signal_taken i name key d \<Longrightarrow> effect e a d (insert_signal (new_signal e i name pl key d) d)"
| ef_event: "lookup_job d i \<noteq> None \<Longrightarrow> effect e a d (insert_event e i ty det d)"

abbreviation effects :: "senv \<Rightarrow> store_op \<Rightarrow> db \<Rightarrow> db \<Rightarrow> bool" where
  "effects e a \<equiv> (effect e a)\<^sup>*\<^sup>*"

lemma same_identity_rows [simp]:
  "same_identity j (claim_row e opts j)"
  "same_identity j (dead_row e j)"
  "same_identity j (heartbeat_row e lease j)"
  "same_identity j (suspend_row e ra j)"
  "same_identity j (complete_row e res j)"
  "same_identity j (fail_row e next msg ra j)"
  "same_identity j (cancel_row e j)"
  "same_identity j (retry_row e j)"
  "same_identity j (wake_row e j)"
  by (simp_all add: same_identity_def claim_row_def dead_row_def heartbeat_row_def suspend_row_def
      complete_row_def fail_row_def cancel_row_def retry_row_def wake_row_def)

lemma job_id_rows [simp]:
  "job_id (claim_row e opts j) = job_id j"
  "job_id (dead_row e j) = job_id j"
  "job_id (heartbeat_row e lease j) = job_id j"
  "job_id (suspend_row e ra j) = job_id j"
  "job_id (complete_row e res j) = job_id j"
  "job_id (fail_row e next msg ra j) = job_id j"
  "job_id (cancel_row e j) = job_id j"
  "job_id (retry_row e j) = job_id j"
  "job_id (wake_row e j) = job_id j"
  by (simp_all add: claim_row_def dead_row_def heartbeat_row_def suspend_row_def
      complete_row_def fail_row_def cancel_row_def retry_row_def wake_row_def)

section \<open>Rows stay well formed\<close>

lemma job_ok_claim:
  "claimable e q j \<Longrightarrow> job_ok (pg_now e) j \<Longrightarrow> job_ok (pg_now e) (claim_row e opts j)"
  by (cases "status j") (simp_all add: claimable_def job_ok_def claim_row_def)

lemma job_ok_dead: "exhausted e j \<Longrightarrow> job_ok now j \<Longrightarrow> job_ok now (dead_row e j)"
  by (auto simp: exhausted_def job_ok_def dead_row_def split: option.splits)

lemma job_ok_heartbeat: "held_by i w j \<Longrightarrow> job_ok now j \<Longrightarrow> job_ok now (heartbeat_row e lease j)"
  by (auto simp: held_by_def job_ok_def heartbeat_row_def)

lemma job_ok_suspend: "held_by i w j \<Longrightarrow> job_ok now j \<Longrightarrow> job_ok now (suspend_row e ra j)"
  by (auto simp: held_by_def job_ok_def suspend_row_def)

lemma job_ok_complete: "held_by i w j \<Longrightarrow> job_ok now j \<Longrightarrow> job_ok now (complete_row e res j)"
  by (auto simp: held_by_def job_ok_def complete_row_def)

lemma job_ok_fail:
  "held_by i w j \<Longrightarrow> job_ok now j \<Longrightarrow>
   job_ok now (fail_row e (NextStatusAfterFailure (attempt j) (max_attempts j) cause) msg ra j)"
  by (auto simp: held_by_def job_ok_def fail_row_def NextStatusAfterFailure_def)

lemma job_ok_cancel: "live i j \<Longrightarrow> job_ok now j \<Longrightarrow> job_ok now (cancel_row e j)"
  by (auto simp: live_def job_ok_def cancel_row_def)

lemma job_ok_retry: "dead_letter i j \<Longrightarrow> job_ok now j \<Longrightarrow> job_ok now (retry_row e j)"
  by (auto simp: dead_letter_def job_ok_def retry_row_def)

lemma job_ok_wake:
  "live i j \<Longrightarrow> int4 (wake_version j + 1) \<Longrightarrow> job_ok now j \<Longrightarrow> job_ok now (wake_row e j)"
  by (auto simp: live_def job_ok_def wake_row_def)

lemma job_ok_new:
  "int4 (rq_max_attempts req) \<Longrightarrow> 1 \<le> rq_max_attempts req \<Longrightarrow> job_ok now (new_job e req pl)"
  by (simp add: job_ok_def new_job_def int4_def)

lemma job_ok_replay: "job_ok now src \<Longrightarrow> job_ok now (replay_job e src)"
  by (auto simp: job_ok_def replay_job_def int4_def)

lemma row_step_job_ok: "row_step e a j k \<Longrightarrow> job_ok (pg_now e) j \<Longrightarrow> job_ok (pg_now e) k"
  by (induction rule: row_step.induct)
    (auto intro: job_ok_claim job_ok_dead job_ok_heartbeat job_ok_suspend job_ok_complete
      job_ok_fail job_ok_cancel job_ok_retry job_ok_wake)

section \<open>Operations are sequences of effects\<close>

lemma effects_append_events:
  "append_events e evs d = Inr (x, d') \<Longrightarrow> effects e a d d'"
proof (induction evs arbitrary: d)
  case (Cons v evs)
  obtain i ty flds where v: "v = (i, ty, flds)" by (cases v)
  from Cons.prems obtain y d1 where a: "appendEvent e i ty flds d = Inr (y, d1)"
    and b: "append_events e evs d1 = Inr (x, d')"
    by (auto simp: v split: sum.splits)
  from a have "effect e a d d1" by (auto simp: appendEvent_def intro: ef_event split: if_splits)
  with Cons.IH [OF b] show ?case by (rule converse_rtranclp_into_rtranclp [rotated])
qed simp

lemma effects_appendEvent: "appendEvent e i ty flds d = Inr (x, d') \<Longrightarrow> effects e a d d'"
  by (auto simp: appendEvent_def intro: ef_event split: if_splits)

text \<open>Every operation is made of units of work whose bodies are sequences of effects.\<close>

interpretation ops: evolution "effects e a" for e a
  by unfold_locales (auto intro: rtranclp_trans)

lemma effects_then_appendEvent:
  "effect e a d d1 \<Longrightarrow> appendEvent e i ty flds d1 = Inr (x, d') \<Longrightarrow> effects e a d d'"
  by (rule converse_rtranclp_into_rtranclp) (auto intro: effects_appendEvent)

lemma effects_event_unit: "effects e a d (snd (withTx e n (appendEvent e i ty flds) d))"
  by (rule ops.later_withTx) (rule effects_appendEvent)

lemma effects_Enqueue: "effects e (OpEnqueue request) d (snd (Enqueue e request d))"
  unfolding Enqueue_def Let_def
proof (rule ops.later_withTx, goal_cases)
  case (1 x d')
  let ?req = "NormalizeEnqueue (go_now e) request"
  from 1 obtain pl where pl: "jsonb e (rq_payload ?req) = Some pl" "int4 (rq_max_attempts ?req)"
    by (auto split: option.splits if_splits)
  show ?case
  proof (cases "key_holder (rq_key ?req) d")
    case (Some j)
    with 1 pl show ?thesis by (auto split: sum.splits dest: effects_appendEvent)
  next
    case None
    with 1 pl have "effect e (OpEnqueue request) d (insert_job (new_job e ?req pl) d)"
      by (intro ef_enqueue) (auto split: if_splits)
    with 1 pl None show ?thesis
      by (auto split: sum.splits if_splits dest: effects_then_appendEvent)
  qed
qed

text \<open>Selecting rows by a list of ids selects the rows those ids were read from.\<close>

lemma selected_by_id:
  assumes "tables_ok d" and cs: "set cs \<subseteq> set (jobs d)" and j: "j \<in> set (jobs d)"
    and "job_id j \<in> set (map job_id cs)"
  shows "j \<in> set cs"
proof -
  from assms(4) obtain c where c: "c \<in> set cs" "job_id c = job_id j" by auto
  have "distinct (map job_id (jobs d))" using tables_ok_ids [OF assms(1)] by (simp add: job_ids_def)
  then have "c = j" by (rule distinct_keys_eq) (use c cs j in auto)
  with c show ?thesis by simp
qed

lemma candidate_claimable:
  assumes "c \<in> set (claim_candidates e opts d)"
  shows "c \<in> set (jobs d)" and "claimable e (co_queue opts) c" and "\<not> row_locked e (job_id c)"
  using set_mp [OF set_take_subset assms [unfolded claim_candidates_def]] by auto

lemma effects_update:
  "(\<And>j. same_identity j (f j)) \<Longrightarrow> (\<And>j. P j \<Longrightarrow> row_step e a j (f j)) \<Longrightarrow> effects e a d (update_jobs P f d)"
  by (rule r_into_rtranclp) (rule ef_rows)

lemma effects_update_selected:
  assumes "tables_ok d" and "set cs \<subseteq> set (jobs d)" and "\<And>j. same_identity j (f j)"
    and "\<And>c. c \<in> set cs \<Longrightarrow> row_step e a c (f c)"
  shows "effects e a d (update_jobs (\<lambda>j. job_id j \<in> set (map job_id cs)) f d)"
  by (rule r_into_rtranclp, rule ef_rows) (auto simp del: set_map intro: assms selected_by_id [OF assms(1,2)])

lemma effects_Claim:
  assumes "tables_ok d"
  shows "effects e (OpClaim options) d (snd (Claim e options d))"
  unfolding Claim_def Let_def
proof (rule ops.later_withTx, goal_cases)
  case (1 x d')
  let ?opts = "claim_defaults options"
  let ?cs = "claim_candidates e ?opts d"
  let ?d1 = "update_jobs (\<lambda>j. job_id j \<in> set (map job_id ?cs)) (claim_row e ?opts) d"
  have "effects e (OpClaim options) d ?d1"
    using assms by (intro effects_update_selected)
      (auto intro: rs_claim dest: candidate_claimable)
  moreover from 1 have "effects e (OpClaim options) ?d1 d'"
    by (auto split: sum.splits if_splits simp del: set_map dest: effects_append_events)
  ultimately show ?case by (rule rtranclp_trans)
qed

lemma effects_DeadLetterExhausted:
  assumes "tables_ok d"
  shows "effects e OpDeadLetterExhausted d (snd (DeadLetterExhausted e d))"
  unfolding DeadLetterExhausted_def Let_def
proof (rule ops.later_withTx, goal_cases)
  case (1 x d')
  let ?cs = "returning e (filter (\<lambda>j. exhausted e j \<and> \<not> row_locked e (job_id j)) (jobs d))"
  let ?d1 = "update_jobs (\<lambda>j. job_id j \<in> set (map job_id ?cs)) (dead_row e) d"
  have "effects e OpDeadLetterExhausted d ?d1"
    using assms by (intro effects_update_selected) (auto intro: rs_dead)
  moreover from 1 have "d' = d \<or> effects e OpDeadLetterExhausted ?d1 d'"
    by (auto split: sum.splits if_splits simp del: set_map dest: effects_append_events)
  ultimately show ?case by (auto simp del: set_map intro: rtranclp_trans)
qed

lemma effects_PruneCompleted:
  assumes "tables_ok d"
  shows "effects e (OpPruneCompleted q older) d (snd (PruneCompleted e q older d))"
proof (cases "older \<le> 0")
  case False
  let ?cs = "take pruneBatchSize (scanned e (filter (prunable e q older) (jobs d)))"
  have cs: "c \<in> set (jobs d) \<and> prunable e q older c" if "c \<in> set ?cs" for c
    using set_mp [OF set_take_subset that] by simp
  then have sub: "set ?cs \<subseteq> set (jobs d)" by blast
  have del: "effect e (OpPruneCompleted q older) d (delete_jobs (map job_id ?cs) d)"
    by (rule ef_delete [OF refl]) (blast dest: selected_by_id [OF assms sub] cs)
  show ?thesis
    unfolding PruneCompleted_def Let_def using False del
    by (auto intro!: ops.later_withTx simp del: set_map split: if_splits)
qed (simp add: PruneCompleted_def)

lemma effects_Heartbeat: "effects e (OpHeartbeat i w lease) d (snd (Heartbeat e i w lease d))"
  unfolding Heartbeat_def
  by (intro ops.later_and_then ops.later_withTx)
    (auto intro!: effects_event_unit effects_update intro: rs_heartbeat)

lemma effects_Complete: "effects e (OpComplete i w res) d (snd (Complete e i w res d))"
  unfolding Complete_def Let_def
  by (intro ops.later_and_then ops.later_withTx)
    (auto intro!: effects_event_unit effects_update split: option.splits intro: rs_complete)

lemma effects_Cancel: "effects e (OpCancel i) d (snd (Cancel e i d))"
  unfolding Cancel_def
  by (intro ops.later_and_then ops.later_withTx)
    (auto intro!: effects_event_unit effects_update intro: rs_cancel)

lemma effects_RetryDeadLetter: "effects e (OpRetryDeadLetter i) d (snd (RetryDeadLetter e i d))"
  unfolding RetryDeadLetter_def
  by (intro ops.later_and_then ops.later_withTx)
    (auto split: option.splits intro!: effects_update intro: rs_retry dest: effects_appendEvent)

lemma effects_Replay: "effects e (OpReplay i) d (snd (Replay e i d))"
  unfolding Replay_def
  by (intro ops.later_and_then ops.later_withTx)
    (auto split: option.splits if_splits intro: r_into_rtranclp ef_replay dest: effects_appendEvent)

lemma effects_RecordEvent: "effects e (OpRecordEvent i ty det) d (snd (RecordEvent e i ty det d))"
  unfolding RecordEvent_def Let_def
  by (intro ops.later_withTx) (auto split: option.splits if_splits intro: r_into_rtranclp ef_event)

lemma effects_Suspend: "effects e (OpSuspend i w ra version) d (snd (Suspend e i w ra version d))"
  unfolding Suspend_def Let_def
proof (rule ops.later_withTx, goal_cases)
  case (1 x d')
  have "effect e (OpSuspend i w ra version) d (update_jobs (\<lambda>j. held_by i w j \<and> wake_version j = version) (suspend_row e ra) d)"
    by (rule ef_rows) (auto intro: rs_suspend)
  with 1 show ?case by (auto split: sum.splits if_splits dest: effects_then_appendEvent)
qed

lemma effects_Fail:
  assumes "tables_ok d"
  shows "effects e (OpFail i w cause) d (snd (Fail e i w cause d))"
  unfolding Fail_def Let_def
proof (rule ops.later_withTx, goal_cases)
  case (1 x d')
  then obtain j where j: "find (held_by i w) (jobs d) = Some j" by (auto split: option.splits)
  then have jd: "j \<in> set (jobs d)" "held_by i w j" by (auto simp: find_Some_iff)
  have ids: "distinct (map job_id (jobs d))"
    using tables_ok_ids [OF assms] by (simp add: job_ids_def)
  have "effect e (OpFail i w cause) d (update_jobs (\<lambda>k. job_id k = i \<and> lease_owner k = Some w)
      (fail_row e (NextStatusAfterFailure (attempt j) (max_attempts j) cause) (err_string cause) ra) d)" for ra
  proof (rule ef_rows)
    fix k assume k: "k \<in> set (jobs d)" "job_id k = i \<and> lease_owner k = Some w"
    have "k = j" by (rule distinct_keys_eq [OF ids]) (use k jd in \<open>simp_all add: held_by_def\<close>)
    then show "row_step e (OpFail i w cause) k
        (fail_row e (NextStatusAfterFailure (attempt j) (max_attempts j) cause) (err_string cause) ra k)"
      using jd by (auto intro: rs_fail)
  qed simp
  with 1 j show ?case by (auto dest: effects_then_appendEvent)
qed

lemma effects_SaveStep: "effects e (OpSaveStep i w name res) d (snd (SaveStep e i w name res d))"
  unfolding SaveStep_def Let_def
proof (rule ops.later_withTx, goal_cases)
  case (1 x d')
  then obtain j v where j: "j \<in> set (jobs d)" "held_by i w j" and v: "jsonb e res = Some v"
    by (auto simp: list_ex_iff split: if_splits option.splits)
  show ?case
  proof (cases "lookup_step d i name")
    case None
    have "effect e (OpSaveStep i w name res) d (insert_step \<lparr>st_job = i, st_name = name, st_result = v, st_at = pg_now e\<rparr> d)"
      using None j by (intro ef_step) auto
    with 1 None v show ?thesis
      by (auto split: if_splits sum.splits dest: effects_then_appendEvent)
  next
    case (Some old)
    with 1 v show ?thesis by (auto split: if_splits)
  qed
qed

lemma effects_Signal: "effects e (OpSignal i name payload0 key) d (snd (Signal e i name payload0 key d))"
  unfolding Signal_def Let_def
proof (rule ops.later_withTx, goal_cases)
  case (1 x d')
  then obtain pl where pl: "jsonb e (if payload0 = '''' then ''{}'' else payload0) = Some pl"
    by (auto split: option.splits)
  show ?case
  proof (cases "list_ex (live i) (jobs d) \<and> \<not> signal_taken i name key d")
    case True
    let ?d1 = "insert_signal (new_signal e i name pl key d) d"
    from True obtain j where "j \<in> set (jobs d)" "live i j" by (auto simp: list_ex_iff)
    with True have ins: "effect e (OpSignal i name payload0 key) d ?d1" by (auto intro: ef_signal)
    from 1 True pl obtain y d2 where d2: "appendEvent e i ''job.signaled'' [(''signal'', DStr name)] ?d1 = Inr (y, d2)"
      and ok: "\<not> list_ex (\<lambda>j. live i j \<and> \<not> int4 (wake_version j + 1)) (jobs d2)"
      and d': "d' = update_jobs (live i) (wake_row e) d2"
      by (auto split: sum.splits if_splits)
    from ok have "effect e (OpSignal i name payload0 key) d2 d'" unfolding d'
      by (intro ef_rows) (auto simp: list_ex_iff intro: rs_wake)
    with effects_then_appendEvent [OF ins d2] show ?thesis by (rule rtranclp.rtrancl_into_rtrancl)
  next
    case False
    with 1 pl show ?thesis by (auto split: if_splits)
  qed
qed

theorem apply_op_effects:
  assumes "tables_ok d"
  shows "effects e a d (apply_op e a d)"
  using assms
  by (cases a) (simp_all add: effects_Enqueue effects_Claim effects_Heartbeat
      effects_DeadLetterExhausted effects_PruneCompleted effects_SaveStep effects_Complete
      effects_Fail effects_Suspend effects_Signal effects_Cancel effects_RetryDeadLetter
      effects_Replay effects_RecordEvent)

section \<open>The invariant\<close>

lemma key_holder_None:
  "key_holder key d = None \<Longrightarrow> key \<noteq> '''' \<Longrightarrow> k \<in> set (jobs d) \<Longrightarrow> idempotency_key k \<noteq> Some key"
  by (auto simp: key_holder_def find_None_iff)

lemma lookup_job_id_mem: "j \<in> set (jobs d) \<Longrightarrow> job_id j = i \<Longrightarrow> i \<in> set (job_ids d)"
  by (auto simp: job_ids_def)

lemma effect_tables_ok: "effect e a d d' \<Longrightarrow> tables_ok d \<Longrightarrow> tables_ok d'"
proof (induction rule: effect.induct)
  case (ef_rows f d P)
  then show ?case by (intro tables_ok_update)
next
  case (ef_enqueue request req d pl)
  then show ?case
    by (intro tables_ok_insert_job)
      (auto simp: new_job_def lookup_job_None null_if_empty_def dest: key_holder_None split: if_splits)
next
  case (ef_replay i d src)
  then show ?case by (intro tables_ok_insert_job) (auto simp: replay_job_def lookup_job_None)
next
  case (ef_step s w res j d)
  then show ?case by (intro tables_ok_insert_step) (auto simp: held_by_def intro: lookup_job_id_mem)
next
  case (ef_signal i name payload0 key j d pl)
  then show ?case
    by (intro tables_ok_insert_signal)
      (auto simp: new_signal_def live_def job_ids_def signal_taken_def list_ex_iff
        null_if_empty_def split: if_splits)
qed (auto simp: tables_ok_delete tables_ok_event lookup_job_None)

lemma effects_tables_ok: "effects e a d d' \<Longrightarrow> tables_ok d \<Longrightarrow> tables_ok d'"
  by (induction rule: rtranclp_induct) (auto intro: effect_tables_ok)

lemma effect_db_ok:
  assumes "effect e a d d'" and "db_ok (pg_now e) d"
  shows "db_ok (pg_now e) d'"
  using assms effect_tables_ok [OF assms(1)]
proof (induction rule: effect.induct)
  case (ef_rows f d P)
  then show ?case by (intro db_ok_update [where now = "pg_now e"]) (auto intro: row_step_job_ok)
next
  case (ef_delete q older d gone)
  then show ?case by (rule_tac db_ok_delete)
qed (auto simp: db_ok_def intro: job_ok_new job_ok_replay dest: lookup_job_in)

lemma effects_db_ok: "effects e a d d' \<Longrightarrow> db_ok (pg_now e) d \<Longrightarrow> db_ok (pg_now e) d'"
  by (induction rule: rtranclp_induct) (auto intro: effect_db_ok)

lemma apply_op_db_ok:
  "db_ok now d \<Longrightarrow> now \<le> pg_now e \<Longrightarrow> db_ok (pg_now e) (apply_op e a d)"
  using apply_op_effects db_okD(1) db_ok_mono effects_db_ok by blast

section \<open>A sample run\<close>

text \<open>An environment without faults, at an instant, that would generate the given uuid.\<close>

definition plain_env :: "time \<Rightarrow> string \<Rightarrow> senv" where
  "plain_env now uuid = \<lparr>pg_now = now, go_now = now, new_uuid = uuid, jsonb = Some,
     row_locked = (\<lambda>_. False), advisory = (\<lambda>_. True), scan_rank = (\<lambda>_. 0), reply_rank = (\<lambda>_. 0), link = (\<lambda>_. Acked)\<rparr>"

lemma plain_env_simps [simp]:
  "pg_now (plain_env now uuid) = now"
  "go_now (plain_env now uuid) = now"
  "new_uuid (plain_env now uuid) = uuid"
  "jsonb (plain_env now uuid) = Some"
  "row_locked (plain_env now uuid) = (\<lambda>_. False)"
  "advisory (plain_env now uuid) = (\<lambda>_. True)"
  "link (plain_env now uuid) = (\<lambda>_. Acked)"
  by (simp_all add: plain_env_def)

text \<open>A job is enqueued, claimed by worker \<open>w1\<close> for a minute, checkpointed and signaled.\<close>

definition sample_claim :: claim_options where
  "sample_claim = \<lparr>co_worker = ''w1'', co_queue = '''', co_lease = minute, co_limit = 1\<rparr>"

definition sample_start :: "(senv \<times> store_op) list" where
  "sample_start =
     [(plain_env 10 ''j1'', OpEnqueue (zero_request\<lparr>rq_type := ''echo'', rq_run_after := 5\<rparr>)),
      (plain_env 20 '''', OpClaim sample_claim),
      (plain_env 30 '''', OpSaveStep ''j1'' ''w1'' ''charge'' ''7''),
      (plain_env 40 '''', OpSignal ''j1'' ''go'' ''1'' ''k1'')]"

definition sample_db :: db where
  "sample_db = run_ops sample_start empty_db"

definition sample_job :: job where
  "sample_job = \<lparr>job_id = ''j1'', queue = ''default'', workflow_type = ''echo'', payload = ''{}'',
     status = StatusRunning, idempotency_key = None, parent_id = None, attempt = 1,
     max_attempts = 3, run_after = 5, lease_owner = Some ''w1'',
     lease_expires_at = Some 60000000020, wake_version = 1, heartbeat_at = Some 20,
     job_result = None, job_error = None, trace_id = None, created_at = 10, updated_at = 40,
     completed_at = None\<rparr>"

lemma sample_clocked: "clocked 0 sample_start"
  by (simp add: sample_start_def)

lemma sample_db_facts:
  "jobs sample_db = [sample_job]"
  "lookup_step sample_db ''j1'' ''charge'' = Some ''7''"
  "map sig_payload (mailbox sample_db ''j1'' ''go'') = [''1'']"
  by code_simp+

lemma sample_lookup [simp]: "lookup_job sample_db ''j1'' = Some sample_job"
  by (simp add: lookup_job_def sample_db_facts sample_job_def)

end
