(* ===== verification/Safety.thy ===== *)
theory Safety
  imports Lifecycle
begin

text \<open>
  What holds along every run of the store: the invariant of reachable databases, the
  edges of the job state machine, the finality of results, the immutability of
  checkpoints and of the mailbox order, and the exclusiveness of a lease.
\<close>

section \<open>Reachable databases\<close>

lemma store_step_db_ok: "store_step (now, d) a (now', d') \<Longrightarrow> db_ok now d \<Longrightarrow> db_ok now' d'"
  by (elim store_stepE) (auto intro: apply_op_db_ok)

text \<open>The clock at the end of a run.\<close>

fun run_clock :: "time \<Rightarrow> (senv \<times> store_op) list \<Rightarrow> time" where
  "run_clock now [] = now"
| "run_clock now ((e, a) # ops) = run_clock (pg_now e) ops"

lemma run_ops_reachable:
  "reachable now d \<Longrightarrow> clocked now ops \<Longrightarrow> reachable (run_clock now ops) (run_ops ops d)"
  by (induction now ops arbitrary: d rule: run_clock.induct) (auto intro: reachable.op store_step.step)

lemma run_ops_db_ok:
  "db_ok now d \<Longrightarrow> clocked now ops \<Longrightarrow> db_ok (run_clock now ops) (run_ops ops d)"
  by (induction now ops arbitrary: d rule: run_clock.induct) (auto intro: apply_op_db_ok)

lemma sample_reachable: "reachable 40 sample_db"
  using run_ops_reachable [OF reachable.start sample_clocked] by (simp add: sample_db_def sample_start_def)

lemma sample_db_ok: "db_ok 40 sample_db"
  using run_ops_db_ok [OF db_ok_empty sample_clocked] by (simp add: sample_db_def sample_start_def)

lemmas sample_tables_ok = db_okD(1) [OF sample_db_ok]

text \<open>
  A property of databases that every operation of a run keeps, given the invariant, holds
  at the end of the run.
\<close>

lemma run_ops_induct:
  assumes "db_ok now d" and "clocked now ops" and "Q d"
    and "\<And>e a d. (e, a) \<in> set ops \<Longrightarrow> tables_ok d \<Longrightarrow> Q d \<Longrightarrow> Q (apply_op e a d)"
  shows "Q (run_ops ops d)"
  using assms
proof (induction ops arbitrary: now d)
  case (Cons o1 ops)
  obtain e a where o1: "o1 = (e, a)" by (cases o1)
  with Cons.prems have "db_ok (pg_now e) (apply_op e a d)" by (auto intro: apply_op_db_ok)
  moreover from Cons.prems o1 have "Q (apply_op e a d)" by (auto simp: db_ok_def)
  ultimately show ?case using Cons.prems Cons.IH [of "pg_now e" "apply_op e a d"] o1 by auto
qed auto

text \<open>
  C1: Every database that any sequence of store operations can produce is well formed:
  ids, idempotency keys, step names and signal keys are unique, no foreign key dangles,
  and in each job the columns fit the status: an owner and an expiry exactly while it
  runs, a completion time exactly in a terminal status, a result exactly on success, an
  error message when dead-lettered, and never more attempts than the budget.
\<close>

theorem reachable_wf: "reachable now d \<Longrightarrow> db_ok now d"
proof (induction rule: reachable.induct)
  case (start now)
  then show ?case by (rule db_ok_empty)
next
  case (op now d a now' d')
  then show ?case using store_step_db_ok by blast
qed

lemma reachable_wf_witness: "reachable 40 sample_db \<and> db_ok 40 sample_db"
  using reachable_wf [OF sample_reachable] sample_reachable by blast

section \<open>One job under one operation\<close>

text \<open>
  What an operation does to one job row: its steps, and losing a deleted parent.
\<close>

inductive row_change :: "senv \<Rightarrow> store_op \<Rightarrow> job \<Rightarrow> job \<Rightarrow> bool" for e a where
  rc_step: "row_step e a j k \<Longrightarrow> row_change e a j k"
| rc_orphan: "row_change e a j (orphan gone j)"

definition pruned_by :: "senv \<Rightarrow> store_op \<Rightarrow> job \<Rightarrow> bool" where
  "pruned_by e a j \<longleftrightarrow> (\<exists>q older. a = OpPruneCompleted q older \<and> prunable e q older j)"

lemma effect_job:
  assumes "effect e a d d'" and j: "lookup_job d i = Some j"
  shows "(lookup_job d' i = None \<and> pruned_by e a j) \<or>
    (\<exists>k. lookup_job d' i = Some k \<and> (row_change e a)\<^sup>*\<^sup>* j k)"
  using assms
proof (induction rule: effect.induct)
  case (ef_rows f d P)
  then have "lookup_job (update_jobs P f d) i = Some (if P j then f j else j)"
    by (subst lookup_job_update) (auto simp: same_identity_def)
  moreover have "P j \<Longrightarrow> row_change e a j (f j)"
    using ef_rows lookup_job_in [OF ef_rows.prems] by (auto intro: rc_step)
  ultimately show ?case by auto
next
  case (ef_delete q older d gone)
  then show ?case
    using lookup_job_in [OF ef_delete.prems] lookup_job_id [OF ef_delete.prems]
    by (cases "i \<in> set gone") (auto simp: lookup_job_delete pruned_by_def intro: r_into_rtranclp rc_orphan)
qed (auto simp: lookup_job_insert)

text \<open>A row that was absent comes from an insert of the operation.\<close>

definition creates :: "senv \<Rightarrow> store_op \<Rightarrow> job \<Rightarrow> bool" where
  "creates e a k \<longleftrightarrow> job_id k = new_uuid e \<and>
     ((\<exists>request pl. a = OpEnqueue request \<and> k = new_job e (NormalizeEnqueue (go_now e) request) pl)
      \<or> (\<exists>src j. a = OpReplay src \<and> k = replay_job e j))"

lemma effect_new_job:
  "effect e a d d' \<Longrightarrow> lookup_job d i = None \<Longrightarrow> lookup_job d' i = Some k \<Longrightarrow> creates e a k"
proof (induction rule: effect.induct)
  case (ef_rows f d P)
  then show ?case by (subst (asm) lookup_job_update) (auto simp: same_identity_def)
next
  case (ef_enqueue request req d pl)
  then show ?case by (auto simp: lookup_job_insert creates_def new_job_def split: if_splits)
next
  case (ef_replay i d src)
  then show ?case by (auto simp: lookup_job_insert creates_def replay_job_def split: if_splits)
qed (auto simp: lookup_job_delete split: if_splits)

text \<open>Steps of one operation act on rows; the deletion is prune's only.\<close>

lemma prunable_orphan [simp]: "prunable e q older (orphan gone j) = prunable e q older j"
  by (auto simp: prunable_def orphan_def split: option.splits)

lemma pruned_by_orphan [simp]: "pruned_by e a (orphan gone j) = pruned_by e a j"
  by (simp add: pruned_by_def)

lemma pruned_by_no_step: "row_step e a j k \<Longrightarrow> \<not> pruned_by e a l"
  by (auto simp: pruned_by_def elim: row_step.cases)

lemma pruned_by_not_creates: "pruned_by e a j \<Longrightarrow> \<not> creates e a k"
  by (auto simp: pruned_by_def creates_def)

lemma row_change_pruned: "row_change e a j k \<Longrightarrow> pruned_by e a k \<Longrightarrow> pruned_by e a j"
  by (erule row_change.cases) (auto dest: pruned_by_no_step)

lemma row_changes_pruned: "(row_change e a)\<^sup>*\<^sup>* j k \<Longrightarrow> pruned_by e a k \<Longrightarrow> pruned_by e a j"
  by (induction rule: converse_rtranclp_induct) (auto dest: row_change_pruned)

lemma effects_job:
  assumes "effects e a d d'" and j: "lookup_job d i = Some j"
  shows "(lookup_job d' i = None \<and> pruned_by e a j) \<or>
    (\<exists>k. lookup_job d' i = Some k \<and> (row_change e a)\<^sup>*\<^sup>* j k)"
  using assms(1)
proof (induction rule: rtranclp_induct)
  case base
  then show ?case using j by auto
next
  case (step d1 d2)
  from step.IH show ?case
  proof (elim disjE conjE exE)
    assume n: "lookup_job d1 i = None" "pruned_by e a j"
    then have "lookup_job d2 i = None"
      using effect_new_job [OF step.hyps(2)] pruned_by_not_creates by (cases "lookup_job d2 i") auto
    with n show ?thesis by simp
  next
    fix k assume k: "lookup_job d1 i = Some k" "(row_change e a)\<^sup>*\<^sup>* j k"
    from effect_job [OF step.hyps(2) k(1)] k(2) show ?thesis
      by (auto dest: row_changes_pruned intro: rtranclp_trans)
  qed
qed

lemma effects_new_job:
  "effects e a d d' \<Longrightarrow> lookup_job d i = None \<Longrightarrow> new_uuid e \<noteq> i \<Longrightarrow> lookup_job d' i = None"
proof (induction rule: rtranclp_induct)
  case (step d1 d2)
  then have n: "lookup_job d1 i = None" by simp
  show ?case
  proof (cases "lookup_job d2 i")
    case (Some k)
    with n step.hyps(2) have "creates e a k" by (auto dest: effect_new_job)
    with Some step.prems show ?thesis by (auto simp: creates_def dest: lookup_job_id)
  qed
qed simp

lemmas apply_op_job = effects_job [OF apply_op_effects]
lemmas apply_op_new_job = effects_new_job [OF apply_op_effects]

section \<open>The state machine of a job\<close>

text \<open>The status changes each operation may make, on one job.\<close>

fun status_edge :: "store_op \<Rightarrow> status \<Rightarrow> status \<Rightarrow> bool" where
  "status_edge (OpClaim options) s t =
     (s \<in> {StatusQueued, StatusRetrying, StatusRunning} \<and> t = StatusRunning)"
| "status_edge OpDeadLetterExhausted s t = (s = StatusRunning \<and> t = StatusDeadLetter)"
| "status_edge (OpComplete i w res) s t = (s = StatusRunning \<and> t = StatusSucceeded)"
| "status_edge (OpFail i w cause) s t =
     (s = StatusRunning \<and> t \<in> {StatusRetrying, StatusDeadLetter}
      \<and> (IsPermanent cause \<longrightarrow> t = StatusDeadLetter))"
| "status_edge (OpSuspend i w ra version) s t = (s = StatusRunning \<and> t = StatusQueued)"
| "status_edge (OpCancel i) s t = (\<not> terminal s \<and> t = StatusCanceled)"
| "status_edge (OpRetryDeadLetter i) s t = (s = StatusDeadLetter \<and> t = StatusQueued)"
| "status_edge _ s t = False"

text \<open>The operations that name a job change that job only.\<close>

fun op_target :: "store_op \<Rightarrow> string option" where
  "op_target (OpHeartbeat i w lease) = Some i"
| "op_target (OpSaveStep i w name res) = Some i"
| "op_target (OpComplete i w res) = Some i"
| "op_target (OpFail i w cause) = Some i"
| "op_target (OpSuspend i w ra version) = Some i"
| "op_target (OpSignal i name pl key) = Some i"
| "op_target (OpCancel i) = Some i"
| "op_target (OpRetryDeadLetter i) = Some i"
| "op_target _ = None"

lemma status_edge_trans: "status_edge a s t \<Longrightarrow> status_edge a t u \<Longrightarrow> status_edge a s u"
  by (cases a) auto

lemma not_terminal_live: "live i j \<Longrightarrow> \<not> terminal (status j)"
  by (cases "status j") (auto simp: live_def)

lemma row_step_edge:
  "row_step e a j k \<Longrightarrow> (status k = status j \<or> status_edge a (status j) (status k))
     \<and> (op_target a = None \<or> op_target a = Some (job_id j)) \<and> same_identity j k"
proof (induction rule: row_step.induct)
  case (rs_claim opts options j)
  then show ?case by (auto simp: claimable_def claim_row_def same_identity_def)
next
  case (rs_fail i w j nxt cause ra)
  then show ?case
    by (auto simp: held_by_def fail_row_def NextStatusAfterFailure_def same_identity_def)
qed (auto simp: exhausted_def dead_row_def held_by_def heartbeat_row_def suspend_row_def
    complete_row_def cancel_row_def retry_row_def wake_row_def dead_letter_def live_def
    same_identity_def not_terminal_live)

text \<open>The columns of a job no operation changes, the link to a pruned parent apart.\<close>

definition same_job :: "job \<Rightarrow> job \<Rightarrow> bool" where
  "same_job j k \<longleftrightarrow> job_id k = job_id j \<and> queue k = queue j \<and> workflow_type k = workflow_type j
     \<and> payload k = payload j \<and> idempotency_key k = idempotency_key j
     \<and> max_attempts k = max_attempts j \<and> created_at k = created_at j
     \<and> parent_id k \<in> {None, parent_id j}"

lemma same_job_refl [simp]: "same_job j j"
  by (simp add: same_job_def)

lemma same_job_trans: "same_job j k \<Longrightarrow> same_job k l \<Longrightarrow> same_job j l"
  by (auto simp: same_job_def)

lemma same_job_orphan [simp]: "same_job j (orphan gone j)"
  by (auto simp: same_job_def orphan_def split: option.splits)

lemma same_identity_job: "same_identity j k \<Longrightarrow> same_job j k"
  by (simp add: same_identity_def same_job_def)

lemma row_changes_edge:
  "(row_change e a)\<^sup>*\<^sup>* j k \<Longrightarrow>
   (status k = status j \<or> status_edge a (status j) (status k)) \<and> same_job j k"
proof (induction rule: rtranclp_induct)
  case (step k l)
  then have "status l = status k \<or> status_edge a (status k) (status l)" and "same_job k l"
    by (auto elim!: row_change.cases dest: row_step_edge intro: same_identity_job)
  with step.IH show ?case by (auto intro: status_edge_trans same_job_trans)
qed simp

text \<open>
  C6: Every operation moves a job along the edges of its state machine and no others: a
  claim starts a queued or retrying job or takes over a running one, only a running job
  succeeds, fails, suspends or is swept, a permanent failure always dead-letters, cancel
  leaves terminal jobs alone, and only an operator's retry leaves the dead-letter state.
  The job keeps its identity, and it disappears only by pruning, when it is an old
  succeeded or canceled job of the pruned queue.
\<close>

theorem job_state_machine:
  assumes "tables_ok d" and "lookup_job d i = Some j"
  shows "case lookup_job (apply_op e a d) i of
      None \<Rightarrow> pruned_by e a j
    | Some k \<Rightarrow> (status k = status j \<or> status_edge a (status j) (status k)) \<and> same_job j k"
  using apply_op_job [OF assms, of e a] by (auto dest: row_changes_edge)

lemma job_state_machine_witness:
  "lookup_job sample_db ''j1'' = Some sample_job \<and>
   (let e = plain_env 50 ''''; a = OpFail ''j1'' ''w1'' (New ''declined'')
    in case lookup_job (apply_op e a sample_db) ''j1'' of
         None \<Rightarrow> pruned_by e a sample_job
       | Some k \<Rightarrow> (status k = status sample_job \<or> status_edge a (status sample_job) (status k))
                   \<and> same_job sample_job k)"
  unfolding Let_def
  by (intro conjI sample_lookup job_state_machine [OF sample_tables_ok sample_lookup])

section \<open>Runs that do not reuse an id\<close>

text \<open>
  A uuid is generated once: \<open>fresh_run i ops\<close> says that no operation of the run draws the
  id \<open>i\<close> of a job that already exists, so that a pruned job does not come back as another.
\<close>

definition fresh_run :: "string \<Rightarrow> (senv \<times> store_op) list \<Rightarrow> bool" where
  "fresh_run i ops \<longleftrightarrow> list_all (\<lambda>(e, a). new_uuid e \<noteq> i) ops"

lemma fresh_run_mem: "fresh_run i ops \<Longrightarrow> (e, a) \<in> set ops \<Longrightarrow> new_uuid e \<noteq> i"
  by (auto simp: fresh_run_def list_all_iff)

text \<open>A property of the row of job \<open>i\<close> that row changes keep holds for as long as it exists.\<close>

lemma run_ops_job:
  assumes "db_ok now d" and "clocked now ops" and "fresh_run i ops" and "lookup_job d i = Some j"
    and "Q j" and "\<And>e a k l. (e, a) \<in> set ops \<Longrightarrow> job_id k = i \<Longrightarrow> Q k \<Longrightarrow> row_change e a k l \<Longrightarrow> Q l"
    and "lookup_job (run_ops ops d) i = Some k"
  shows "Q k"
proof -
  have "case lookup_job (run_ops ops d) i of None \<Rightarrow> True | Some k \<Rightarrow> Q k"
  proof (rule run_ops_induct [OF assms(1,2)])
    fix e a d assume op: "(e, a) \<in> set ops" and d: "tables_ok d"
      and Q: "case lookup_job d i of None \<Rightarrow> True | Some k \<Rightarrow> Q k"
    show "case lookup_job (apply_op e a d) i of None \<Rightarrow> True | Some k \<Rightarrow> Q k"
    proof (cases "lookup_job d i")
      case None
      then show ?thesis using apply_op_new_job [OF d] fresh_run_mem [OF assms(3) op] by simp
    next
      case (Some k)
      have "Q l \<and> job_id l = i" if "(row_change e a)\<^sup>*\<^sup>* k l" for l
        using that
      proof (induction rule: rtranclp_induct)
        case base
        then show ?case using Q Some by (auto dest: lookup_job_id)
      next
        case (step l m)
        then have "same_job l m" by (auto elim!: row_change.cases dest: row_step_edge intro: same_identity_job)
        with step assms(6) [OF op] show ?case by (auto simp: same_job_def)
      qed
      with apply_op_job [OF d Some, of e a] show ?thesis by auto
    qed
  qed (use assms(4,5) in simp)
  with assms(7) show ?thesis by simp
qed

text \<open>A job that does not exist, or was pruned, does not come into being.\<close>

lemma run_ops_absent:
  assumes "db_ok now d" and "clocked now ops" and "fresh_run i ops" and "lookup_job d i = None"
  shows "lookup_job (run_ops ops d) i = None"
proof (rule run_ops_induct [OF assms(1,2)])
  fix e a d assume "(e, a) \<in> set ops" "tables_ok d" "lookup_job d i = None"
  then show "lookup_job (apply_op e a d) i = None"
    using apply_op_new_job fresh_run_mem [OF assms(3)] by blast
qed (rule assms(4))

section \<open>Results are final\<close>

lemma row_step_terminal:
  "row_step e a j k \<Longrightarrow> terminal (status j) \<Longrightarrow> status j = StatusDeadLetter \<and> a = OpRetryDeadLetter (job_id j)"
  by (induction rule: row_step.induct)
    (auto simp: claimable_def exhausted_def held_by_def live_def dead_letter_def not_terminal_live)

text \<open>\<open>k\<close> is the job \<open>j\<close>, unless its parent has been pruned and the link cleared.\<close>

definition unchanged :: "job \<Rightarrow> job \<Rightarrow> bool" where
  "unchanged j k \<longleftrightarrow> k = j \<or> k = j\<lparr>parent_id := None\<rparr>"

lemma unchanged_orphan: "unchanged j k \<Longrightarrow> unchanged j (orphan gone k)"
  by (auto simp: unchanged_def orphan_def split: option.splits)

lemma unchanged_status: "unchanged j k \<Longrightarrow> status k = status j"
  by (auto simp: unchanged_def)

text \<open>
  A finished job stays as it is. Whatever any workers, clients and operators do
  afterwards, the row of a succeeded or canceled job keeps its status, its result and
  every other column until it is pruned, and so does a dead-lettered job for as long as no
  operator retries it.
\<close>

lemma terminal_final:
  assumes "db_ok now d" and "clocked now ops" and "fresh_run i ops"
    and "lookup_job d i = Some j" and "terminal (status j)"
    and "status j = StatusDeadLetter \<longrightarrow> list_all (\<lambda>(e, a). a \<noteq> OpRetryDeadLetter i) ops"
  shows "case lookup_job (run_ops ops d) i of None \<Rightarrow> True | Some k \<Rightarrow> unchanged j k"
proof (cases "lookup_job (run_ops ops d) i")
  case (Some k)
  have "unchanged j k"
  proof (rule run_ops_job [OF assms(1-4) _ _ Some])
    fix e a k l assume op: "(e, a) \<in> set ops" and k: "job_id k = i" "unchanged j k"
      and kl: "row_change e a k l"
    from kl show "unchanged j l"
    proof (cases rule: row_change.cases)
      case rc_step
      with k assms(5) have "status j = StatusDeadLetter \<and> a = OpRetryDeadLetter i"
        by (auto dest: row_step_terminal simp: unchanged_status)
      with assms(6) op show ?thesis by (auto simp: list_all_iff)
    qed (auto intro: unchanged_orphan k)
  qed (simp add: unchanged_def)
  with Some show ?thesis by simp
qed simp

definition sample_finish :: "(senv \<times> store_op) list" where
  "sample_finish = [(plain_env 50 '''', OpComplete ''j1'' ''w1'' ''9'')]"

definition sample_cancel :: "(senv \<times> store_op) list" where
  "sample_cancel = [(plain_env 60 '''', OpCancel ''j1'')]"

definition sample_done :: job where
  "sample_done = complete_row (plain_env 50 '''') ''9'' sample_job"

lemma terminal_final_witness:
  "status sample_done = StatusSucceeded \<and> job_result sample_done = Some ''9'' \<and>
   lookup_job (run_ops sample_finish sample_db) ''j1'' = Some sample_done \<and>
   (case lookup_job (run_ops sample_cancel (run_ops sample_finish sample_db)) ''j1'' of
      None \<Rightarrow> True | Some k \<Rightarrow> unchanged sample_done k)"
proof (intro conjI)
  show st: "status sample_done = StatusSucceeded" and "job_result sample_done = Some ''9''"
    by (simp_all add: sample_done_def complete_row_def)
  show l: "lookup_job (run_ops sample_finish sample_db) ''j1'' = Some sample_done" by code_simp
  have ok: "db_ok 50 (run_ops sample_finish sample_db)"
    using run_ops_db_ok [OF sample_db_ok, of sample_finish] by (simp add: sample_finish_def)
  show "case lookup_job (run_ops sample_cancel (run_ops sample_finish sample_db)) ''j1'' of
      None \<Rightarrow> True | Some k \<Rightarrow> unchanged sample_done k"
    by (rule terminal_final [OF ok _ _ l])
      (simp_all add: sample_cancel_def fresh_run_def sample_done_def complete_row_def)
qed

section \<open>Checkpoints are immutable\<close>

lemma effect_step:
  assumes "effect e a d d'" and "new_uuid e \<noteq> i"
    and "lookup_step d i name = Some v \<or> lookup_job d i = None"
  shows "lookup_step d' i name = Some v \<or> lookup_job d' i = None"
  using assms
proof (induction rule: effect.induct)
  case (ef_rows f d P)
  then show ?case by (auto simp: lookup_job_update same_identity_def)
next
  case (ef_enqueue request req d pl)
  then show ?case by (auto simp: lookup_job_insert new_job_def)
next
  case (ef_replay i d src)
  then show ?case by (auto simp: lookup_job_insert replay_job_def)
next
  case (ef_step s w res j d)
  then show ?case
    by (auto simp: lookup_step_insert lookup_job_None held_by_def intro: lookup_job_id_mem split: option.splits)
qed (auto simp: lookup_job_delete lookup_step_delete)

lemma effects_step:
  "effects e a d d' \<Longrightarrow> new_uuid e \<noteq> i \<Longrightarrow> lookup_step d i name = Some v \<or> lookup_job d i = None \<Longrightarrow>
   lookup_step d' i name = Some v \<or> lookup_job d' i = None"
proof (induction rule: rtranclp_induct)
  case (step d1 d2)
  then show ?case by (intro effect_step [OF step.hyps(2)]) simp_all
qed

lemma run_ops_step:
  assumes "db_ok now d" and "clocked now ops" and "fresh_run i ops"
    and "lookup_step d i name = Some v"
  shows "lookup_step (run_ops ops d) i name = Some v \<or> lookup_job (run_ops ops d) i = None"
proof (rule run_ops_induct [OF assms(1,2)])
  fix e a d assume op: "(e, a) \<in> set ops" and d: "tables_ok d"
    and v: "lookup_step d i name = Some v \<or> lookup_job d i = None"
  from apply_op_effects [OF d, of e a] v
  show "lookup_step (apply_op e a d) i name = Some v \<or> lookup_job (apply_op e a d) i = None"
    by (rule effects_step [OF _ fresh_run_mem [OF assms(3) op]])
qed (use assms(4) in simp)

text \<open>
  C4: A checkpoint is written once: whatever operations follow, by whatever workers and
  with whatever faults, the step of the job reads the same result for as long as the job
  exists.
\<close>

theorem checkpoint_immutable:
  assumes "db_ok now d" and "clocked now ops" and "fresh_run i ops"
    and "lookup_step d i name = Some v"
  shows "lookup_step (run_ops ops d) i name = Some v \<or> lookup_job (run_ops ops d) i = None"
  by (rule run_ops_step [OF assms])

text \<open>A later write of the same step, and a second worker, within the sample run.\<close>

definition sample_rest :: "(senv \<times> store_op) list" where
  "sample_rest =
     [(plain_env 50 '''', OpSaveStep ''j1'' ''w1'' ''charge'' ''8''),
      (plain_env 60 '''', OpSignal ''j1'' ''go'' ''2'' ''''),
      (plain_env 70 '''', OpClaim (sample_claim\<lparr>co_worker := ''w2''\<rparr>))]"

lemma sample_rest_facts:
  "clocked 40 sample_rest" "fresh_run ''j1'' sample_rest"
  by (simp_all add: sample_rest_def fresh_run_def)

lemma checkpoint_immutable_witness:
  "lookup_step sample_db ''j1'' ''charge'' = Some ''7'' \<and>
   (lookup_step (run_ops sample_rest sample_db) ''j1'' ''charge'' = Some ''7''
    \<or> lookup_job (run_ops sample_rest sample_db) ''j1'' = None)"
  using checkpoint_immutable [OF sample_db_ok sample_rest_facts sample_db_facts(2)]
    sample_db_facts(2) by blast

section \<open>The mailbox only grows\<close>

lemma sorted_sig_ids: "signals_ok d \<Longrightarrow> sorted (map sig_id (job_signals d))"
  by (simp add: signals_ok_def strict_sorted_iff)

lemma mailbox_filter:
  "signals_ok d \<Longrightarrow> mailbox d i name = filter (\<lambda>g. sig_job g = i \<and> sig_name g = name) (job_signals d)"
  unfolding mailbox_def by (intro sort_key_id_if_sorted sorted_filter sorted_sig_ids)

definition mailbox_since :: "signal list \<Rightarrow> string \<Rightarrow> string \<Rightarrow> db \<Rightarrow> bool" where
  "mailbox_since old i name d \<longleftrightarrow> (\<exists>new. mailbox d i name = old @ new) \<or> lookup_job d i = None"

lemma mailbox_frames [simp]:
  "mailbox (update_jobs P f d) i name = mailbox d i name"
  "mailbox (insert_job j d) i name = mailbox d i name"
  "mailbox (insert_step s d) i name = mailbox d i name"
  "mailbox (insert_event e k ty det d) i name = mailbox d i name"
  by (simp_all add: mailbox_def)

lemma mailbox_insert:
  assumes "tables_ok (insert_signal g d)"
  shows "mailbox (insert_signal g d) i name =
    mailbox d i name @ (if sig_job g = i \<and> sig_name g = name then [g] else [])"
proof -
  have ok: "signals_ok (insert_signal g d)" using assms by (simp add: tables_ok_def)
  then have "sorted (map sig_id (job_signals d))"
    using sorted_sig_ids [OF ok] by (simp add: sorted_append)
  then have "mailbox d i name = filter (\<lambda>g. sig_job g = i \<and> sig_name g = name) (job_signals d)"
    unfolding mailbox_def by (intro sort_key_id_if_sorted sorted_filter)
  then show ?thesis by (simp add: mailbox_filter [OF ok])
qed

lemma mailbox_delete:
  "i \<notin> set gone \<Longrightarrow> mailbox (delete_jobs gone d) i name = mailbox d i name"
  by (auto simp: mailbox_def delete_jobs_def intro!: arg_cong [where f = "sort_key sig_id"] filter_cong)

lemma effect_mailbox:
  assumes "effect e a d d'" and "tables_ok d" and "new_uuid e \<noteq> i" and "mailbox_since old i name d"
  shows "mailbox_since old i name d'"
  using assms effect_tables_ok [OF assms(1,2)]
proof (induction rule: effect.induct)
  case (ef_rows f d P)
  then show ?case
    by (auto simp: mailbox_since_def lookup_job_update same_identity_def)
next
  case (ef_enqueue request req d pl)
  then show ?case
    by (auto simp: mailbox_since_def lookup_job_insert new_job_def)
next
  case (ef_replay i d src)
  then show ?case
    by (auto simp: mailbox_since_def lookup_job_insert replay_job_def)
next
  case (ef_delete q older d gone)
  then show ?case
    by (cases "i \<in> set gone") (auto simp: mailbox_since_def mailbox_delete lookup_job_delete)
next
  case (ef_step s w res j d)
  then show ?case by (simp add: mailbox_since_def)
next
  case (ef_signal i name payload0 key j d pl)
  then show ?case by (auto simp: mailbox_since_def mailbox_insert)
next
  case (ef_event d i ty det)
  then show ?case by (simp add: mailbox_since_def)
qed

lemma effects_mailbox:
  assumes "effects e a d d'" and "tables_ok d" and "new_uuid e \<noteq> i" and "mailbox_since old i name d"
  shows "tables_ok d' \<and> mailbox_since old i name d'"
  using assms(1)
proof (induction rule: rtranclp_induct)
  case (step d1 d2)
  then show ?case using effect_tables_ok effect_mailbox assms(3) by blast
qed (use assms in simp)

text \<open>
  The mailbox of a job only grows at its end: signals that arrive later never change
  the position or the payload of an earlier one, so that the index a workflow waits on
  denotes the same signal in every replay.
\<close>

lemma mailbox_stable:
  assumes "db_ok now d" and "clocked now ops" and "fresh_run i ops"
  shows "(\<exists>new. mailbox (run_ops ops d) i name = mailbox d i name @ new)
    \<or> lookup_job (run_ops ops d) i = None"
proof -
  have "mailbox_since (mailbox d i name) i name (run_ops ops d)"
  proof (rule run_ops_induct [OF assms(1,2)])
    fix e a d' assume op: "(e, a) \<in> set ops" and "tables_ok d'"
      and "mailbox_since (mailbox d i name) i name d'"
    then show "mailbox_since (mailbox d i name) i name (apply_op e a d')"
      using effects_mailbox [OF apply_op_effects] fresh_run_mem [OF assms(3) op] by blast
  qed (simp add: mailbox_since_def)
  then show ?thesis by (simp add: mailbox_since_def)
qed

lemma mailbox_stable_witness:
  "(\<exists>new. mailbox (run_ops sample_rest sample_db) ''j1'' ''go'' = mailbox sample_db ''j1'' ''go'' @ new)
    \<or> lookup_job (run_ops sample_rest sample_db) ''j1'' = None"
  by (rule mailbox_stable [OF sample_db_ok sample_rest_facts])

section \<open>A lease is exclusive\<close>

text \<open>
  The operations that leave the lease of worker \<open>w\<close> on job \<open>i\<close> alone up to \<open>until\<close>: those
  on a clock that has not passed it, except that \<open>w\<close> itself suspends or fails the job or
  renews its lease to an earlier end.
\<close>

definition lease_kept :: "string \<Rightarrow> string \<Rightarrow> time \<Rightarrow> senv \<times> store_op \<Rightarrow> bool" where
  "lease_kept i w until = (\<lambda>(e, a). pg_now e \<le> until \<and>
     (case a of
        OpSuspend i' w' ra version \<Rightarrow> i' \<noteq> i \<or> w' \<noteq> w
      | OpFail i' w' cause \<Rightarrow> i' \<noteq> i \<or> w' \<noteq> w
      | OpHeartbeat i' w' lease \<Rightarrow> i' \<noteq> i \<or> w' \<noteq> w \<or> until \<le> pg_now e + pgInterval lease
      | _ \<Rightarrow> True))"

definition leased :: "string \<Rightarrow> time \<Rightarrow> job \<Rightarrow> bool" where
  "leased w until j \<longleftrightarrow> status j = StatusRunning \<and> lease_owner j = Some w
     \<and> lease_expires_at j \<noteq> None \<and> \<not> before (lease_expires_at j) until"

lemma row_step_leased:
  assumes "row_step e a j k" and "lease_kept (job_id j) w until (e, a)"
    and "leased w until j \<or> status j \<in> {StatusSucceeded, StatusCanceled}"
  shows "leased w until k \<or> status k \<in> {StatusSucceeded, StatusCanceled}"
  using assms
proof (induction rule: row_step.induct)
  case (rs_claim opts options j)
  then show ?case
    by (auto simp: leased_def lease_kept_def claimable_def before_def split: option.splits)
next
  case (rs_dead j)
  then show ?case
    by (auto simp: leased_def lease_kept_def exhausted_def before_def split: option.splits)
qed (auto simp: leased_def lease_kept_def held_by_def live_def dead_letter_def heartbeat_row_def
    complete_row_def cancel_row_def wake_row_def)

text \<open>
  C3: A lease is exclusive. From the moment a worker holds a job until its lease expires
  on the database's clock, no other worker comes to hold the job, whatever the others
  claim, sweep, cancel or signal meanwhile: the job is still held by that worker, or has
  ended in success or cancellation, or was pruned after that.
\<close>

theorem lease_exclusive:
  assumes "db_ok now d" and "clocked now ops" and "fresh_run i ops"
    and "lookup_job d i = Some j" and "leased w until j" and "list_all (lease_kept i w until) ops"
  shows "case lookup_job (run_ops ops d) i of
      None \<Rightarrow> True
    | Some k \<Rightarrow> leased w until k \<or> (status k \<in> {StatusSucceeded, StatusCanceled} \<and> lease_owner k = None)"
proof (cases "lookup_job (run_ops ops d) i")
  case (Some k)
  have "leased w until k \<or> status k \<in> {StatusSucceeded, StatusCanceled}"
  proof (rule run_ops_job [OF assms(1-4) _ _ Some])
    fix e a k l assume op: "(e, a) \<in> set ops" and k: "job_id k = i"
      "leased w until k \<or> status k \<in> {StatusSucceeded, StatusCanceled}" and kl: "row_change e a k l"
    from op assms(6) have kept: "lease_kept i w until (e, a)" by (auto simp: list_all_iff)
    from kl show "leased w until l \<or> status l \<in> {StatusSucceeded, StatusCanceled}"
    proof (cases rule: row_change.cases)
      case rc_step
      from row_step_leased [OF this _ k(2)] kept k(1) show ?thesis by simp
    next
      case (rc_orphan gone)
      with k show ?thesis by (auto simp: leased_def orphan_def split: option.splits)
    qed
  qed (use assms(5) in simp)
  moreover have "job_ok (run_clock now ops) k"
    by (rule lookup_job_ok [OF run_ops_db_ok [OF assms(1,2)] Some])
  then have "status k \<noteq> StatusRunning \<Longrightarrow> lease_owner k = None" by (simp add: job_ok_def)
  ultimately show ?thesis using Some by auto
qed simp

lemma lease_exclusive_witness:
  "leased ''w1'' 60000000020 sample_job \<and> list_all (lease_kept ''j1'' ''w1'' 60000000020) sample_rest \<and>
   (case lookup_job (run_ops sample_rest sample_db) ''j1'' of
      None \<Rightarrow> True
    | Some k \<Rightarrow> leased ''w1'' 60000000020 k
        \<or> (status k \<in> {StatusSucceeded, StatusCanceled} \<and> lease_owner k = None))"
proof (intro conjI)
  show l: "leased ''w1'' 60000000020 sample_job" by (simp add: leased_def sample_job_def)
  show k: "list_all (lease_kept ''j1'' ''w1'' 60000000020) sample_rest"
    by (simp add: lease_kept_def sample_rest_def)
  show "case lookup_job (run_ops sample_rest sample_db) ''j1'' of
      None \<Rightarrow> True
    | Some k \<Rightarrow> leased ''w1'' 60000000020 k
        \<or> (status k \<in> {StatusSucceeded, StatusCanceled} \<and> lease_owner k = None)"
    by (rule lease_exclusive [OF sample_db_ok sample_rest_facts sample_lookup l k])
qed

end
