(* ===== verification/Contracts.thy ===== *)
theory Contracts
  imports Safety
begin

text \<open>
  What each store operation does, branch by branch: who may write, what the write does to
  the row, what the answer says, and what stays untouched.
\<close>

section \<open>Unit facts\<close>

lemma held_by_unique:
  "tables_ok d \<Longrightarrow> j \<in> set (jobs d) \<Longrightarrow> k \<in> set (jobs d) \<Longrightarrow> job_id j = job_id k \<Longrightarrow> j = k"
  using tables_ok_ids [of d] by (auto simp: job_ids_def intro: distinct_keys_eq)

lemma find_held:
  assumes "tables_ok d" and j: "lookup_job d i = Some j" and "P j" and P: "\<And>k. P k \<Longrightarrow> job_id k = i"
  shows "find P (jobs d) = Some j"
proof -
  have jin: "j \<in> set (jobs d)" by (rule lookup_job_in [OF j])
  then obtain k where k: "find P (jobs d) = Some k"
    using \<open>P j\<close> by (cases "find P (jobs d)") (auto simp: find_None_iff)
  then have "k \<in> set (jobs d)" "P k" by (auto simp: find_Some_iff)
  then have "k = j" using held_by_unique [OF assms(1)] jin P lookup_job_id [OF j] by metis
  with k show ?thesis by simp
qed

lemma rows_affected_0: "rows_affected P d = 0 \<longleftrightarrow> (\<forall>j\<in>set (jobs d). \<not> P j)"
  by (simp add: rows_affected_def filter_empty_conv)

lemma update_jobs_none: "rows_affected P d = 0 \<Longrightarrow> update_jobs P f d = d"
  by (simp add: rows_affected_0 update_jobs_def update_where_none)

lemma only_row:
  "tables_ok d \<Longrightarrow> lookup_job d i = Some j \<Longrightarrow> k \<in> set (jobs d) \<Longrightarrow> job_id k = i \<Longrightarrow> k = j"
  using lookup_job_iff [of d i k] by simp

lemma lookup_update_this:
  assumes "\<And>j. same_identity j (f j)"
  shows "lookup_job (update_jobs P f d) k = map_option (\<lambda>j. if P j then f j else j) (lookup_job d k)"
  using assms by (intro lookup_job_update) (auto simp: same_identity_def)

text \<open>An update of one job leaves the other rows as they are.\<close>

lemma lookup_update_other:
  assumes "\<And>j. same_identity j (f j)" and "\<And>j. P j \<Longrightarrow> job_id j = i" and "k \<noteq> i"
  shows "lookup_job (update_jobs P f d) k = lookup_job d k"
  using assms(2,3) lookup_job_id [of d k]
  by (cases "lookup_job d k") (auto simp: lookup_update_this [OF assms(1)])

section \<open>Fencing\<close>

text \<open>Without the lease, each of the holder's statements selects no row.\<close>

lemma not_holder_none:
  assumes "\<forall>j\<in>set (jobs d). \<not> held_by i w j"
  shows "rows_affected (held_by i w) d = 0"
    and "rows_affected (\<lambda>j. held_by i w j \<and> wake_version j = version) d = 0"
    and "update_jobs (held_by i w) f d = d" and "find (held_by i w) (jobs d) = None"
    and "\<not> list_ex (held_by i w) (jobs d)"
  using assms by (auto simp: rows_affected_0 update_jobs_def find_None_iff list_ex_iff update_where_none)

text \<open>
  The contract the worker and the runtime rely on: an operation is fenced by the lease of
  job \<open>i\<close> for worker \<open>w\<close> when on a database in which \<open>w\<close> does not hold it, it changes
  nothing and gives no answer that counts as accepted.
\<close>

locale fenced =
  fixes operation :: "senv \<Rightarrow> db \<Rightarrow> (goerr + 'a) \<times> db"
    and i w :: string
    and accepted :: "'a \<Rightarrow> bool"
  assumes refused: "\<forall>k\<in>set (jobs d). \<not> held_by i w k \<Longrightarrow>
    snd (operation e d) = d \<and> (\<forall>x. fst (operation e d) = Inr x \<longrightarrow> \<not> accepted x)"
begin

lemma unchanged: "\<forall>k\<in>set (jobs d). \<not> held_by i w k \<Longrightarrow> snd (operation e d) = d"
  using refused by blast

lemma answers:
  "\<forall>k\<in>set (jobs d). \<not> held_by i w k \<Longrightarrow> operation e d \<in> {(Inr x, d) |x. \<not> accepted x} \<union> range (\<lambda>err. (Inl err, d))"
  using refused [of d e] by (cases "operation e d"; cases "fst (operation e d)") auto

text \<open>What changes the database, or is accepted, comes from the holder of the row.\<close>

lemma changed_holder: "operation e d = (r, d') \<Longrightarrow> d' \<noteq> d \<Longrightarrow> \<exists>k\<in>set (jobs d). held_by i w k"
  using unchanged [of d e] by fastforce

lemma accepted_holder:
  assumes "operation e d = (Inr x, d')" and "accepted x" and "tables_ok d" and "lookup_job d i = Some j"
  shows "held_by i w j"
proof -
  obtain k where k: "k \<in> set (jobs d)" "held_by i w k" using refused [of d e] assms(1,2) by fastforce
  then have "k = j" using only_row [OF assms(3,4) k(1)] by (simp add: held_by_def)
  with k(2) show ?thesis by simp
qed

end

text \<open>Four of the five operations accept whenever they answer without an error.\<close>

locale strictly_fenced = fenced operation i w "\<lambda>_. True"
  for operation :: "senv \<Rightarrow> db \<Rightarrow> (goerr + 'a) \<times> db" and i w :: string
begin

lemma errors: "\<forall>k\<in>set (jobs d). \<not> held_by i w k \<Longrightarrow> \<exists>err. operation e d = (Inl err, d)"
  using answers [of d e] by auto

end

interpretation heartbeat: strictly_fenced "\<lambda>e. Heartbeat e i w lease" i w for i w lease
  by unfold_locales (simp add: Heartbeat_def withTx_def not_holder_none split: outcome.split)

interpretation save_step: strictly_fenced "\<lambda>e. SaveStep e i w name res" i w for i w name res
  by unfold_locales (simp add: SaveStep_def withTx_def not_holder_none split: outcome.split)

interpretation complete: strictly_fenced "\<lambda>e. Complete e i w res" i w for i w res
  by unfold_locales (auto simp: Complete_def withTx_def Let_def not_holder_none split: outcome.split option.split)

interpretation fail: strictly_fenced "\<lambda>e. Fail e i w cause" i w for i w cause
  by unfold_locales (simp add: Fail_def withTx_def not_holder_none split: outcome.split)

text \<open>\<open>Suspend\<close> tells a worker without the lease False, and parks for the holder with True.\<close>

interpretation suspend: fenced "\<lambda>e. Suspend e i w ra version" i w "\<lambda>parked. parked" for i w ra version
  by unfold_locales (auto simp: Suspend_def withTx_def Let_def not_holder_none split: outcome.split)

text \<open>
  C2: A worker that does not hold the job's lease cannot change anything: its heartbeat,
  checkpoint, completion and failure are refused with an error and its suspension with
  False, and the database stays as it was, whatever the faults of the connection.
\<close>

theorem stale_worker_refused:
  assumes "\<forall>j\<in>set (jobs d). job_id j = i \<and> status j = StatusRunning \<longrightarrow> lease_owner j \<noteq> Some w"
  shows "(\<exists>err. Heartbeat e i w lease d = (Inl err, d))
    \<and> (\<exists>err. SaveStep e i w name res d = (Inl err, d))
    \<and> (\<exists>err. Complete e i w res d = (Inl err, d))
    \<and> (\<exists>err. Fail e i w cause d = (Inl err, d))
    \<and> Suspend e i w ra version d \<in> {(Inr False, d)} \<union> range (\<lambda>err. (Inl err, d))"
proof -
  have h: "\<forall>j\<in>set (jobs d). \<not> held_by i w j" using assms by (auto simp: held_by_def)
  show ?thesis
    by (intro conjI heartbeat.errors [OF h] save_step.errors [OF h] complete.errors [OF h] fail.errors [OF h])
      (use suspend.answers [OF h, where e = e and ra = ra and version = version] in auto)
qed

lemma stale_worker_refused_witness:
  "list_all (\<lambda>j. lease_owner j \<noteq> Some ''w2'') (jobs sample_db) \<and>
   (\<exists>err. Complete (plain_env 50 '''') ''j1'' ''w2'' ''9'' sample_db = (Inl err, sample_db))"
proof (intro conjI)
  have h: "\<forall>j\<in>set (jobs sample_db). lease_owner j \<noteq> Some ''w2''"
    by (simp add: sample_db_facts sample_job_def)
  then show "list_all (\<lambda>j. lease_owner j \<noteq> Some ''w2'') (jobs sample_db)" by (simp add: list_all_iff)
  from h have h: "\<forall>j\<in>set (jobs sample_db). job_id j = ''j1'' \<and> status j = StatusRunning \<longrightarrow> lease_owner j \<noteq> Some ''w2''"
    by blast
  show "\<exists>err. Complete (plain_env 50 '''') ''j1'' ''w2'' ''9'' sample_db = (Inl err, sample_db)"
    using stale_worker_refused [OF h] by blast
qed

section \<open>The end of an attempt\<close>

text \<open>What the transaction of \<open>Fail\<close> does for the holder, and what the caller is told.\<close>

lemma Fail_effect:
  assumes "tables_ok d" and j: "lookup_job d i = Some j" and held: "held_by i w j"
    and nxt: "nxt = NextStatusAfterFailure (attempt j) (max_attempts j) cause"
    and ra: "ra = (if nxt = StatusDeadLetter then go_now e else go_now e + Backoff (attempt j))"
  obtains d' where
    "Fail e i w cause d = (case link e 0 of Acked \<Rightarrow> (Inr (), d') | Lost err \<Rightarrow> (Inl err, d) | Unacked err \<Rightarrow> (Inl err, d'))"
    and "lookup_job d' i = Some (fail_row e nxt (err_string cause) ra j)"
    and "\<And>i'. i' \<noteq> i \<Longrightarrow> lookup_job d' i' = lookup_job d i'"
    and "job_steps d' = job_steps d" and "job_signals d' = job_signals d"
proof -
  have f: "find (held_by i w) (jobs d) = Some j"
    using find_held [of d i j "held_by i w"] assms(1) j held by (simp add: held_by_def)
  let ?msg = "err_string cause"
  define P where "P k \<longleftrightarrow> job_id k = i \<and> lease_owner k = Some w" for k :: job
  let ?u = "update_jobs P (fail_row e nxt ?msg ra) d"
  have u: "lookup_job ?u i = Some (fail_row e nxt ?msg ra j)"
    using held by (simp add: lookup_update_this j P_def held_by_def)
  have other: "lookup_job ?u i' = lookup_job d i'" if "i' \<noteq> i" for i'
    using that by (intro lookup_update_other) (auto simp: P_def)
  have "\<exists>flds. Fail e i w cause d = (case link e 0 of
      Lost err \<Rightarrow> (Inl err, d)
    | Unacked err \<Rightarrow> (Inl err, case appendEvent e i ''job.failed'' flds ?u of Inl _ \<Rightarrow> d | Inr (_, d') \<Rightarrow> d')
    | Acked \<Rightarrow> (case appendEvent e i ''job.failed'' flds ?u of Inl err \<Rightarrow> (Inl err, d) | Inr (x, d') \<Rightarrow> (Inr x, d')))"
    unfolding Fail_def Let_def withTx_def f option.case nxt ra P_def by (rule exI, rule refl)
  moreover have "appendEvent e i ''job.failed'' flds ?u = Inr ((), insert_event e i ''job.failed'' (Fields flds) ?u)" for flds
    using u by (simp add: appendEvent_ok)
  ultimately obtain flds where "Fail e i w cause d = (let d' = insert_event e i ''job.failed'' (Fields flds) ?u in
      case link e 0 of Acked \<Rightarrow> (Inr (), d') | Lost err \<Rightarrow> (Inl err, d) | Unacked err \<Rightarrow> (Inl err, d'))"
    by (simp add: Let_def cong: outcome.case_cong) blast
  then show ?thesis using u other unfolding Let_def
    by (intro that [of "insert_event e i ''job.failed'' (Fields flds) ?u"]) simp_all
qed

text \<open>
  C12: A failed attempt has exactly the documented outcome: on a live connection the
  holder's report is accepted; the job is dead-lettered when the error is permanent or the
  attempt was the last of the budget, and is otherwise scheduled for retry after the
  backoff of this attempt; the error text is kept, the lease is released, and no other job
  changes.
\<close>

theorem fail_outcome:
  assumes "tables_ok d" and j: "lookup_job d i = Some j" and held: "held_by i w j" and "link e 0 = Acked"
  shows "\<exists>d' k. Fail e i w cause d = (Inr (), d') \<and> lookup_job d' i = Some k
    \<and> status k = (if IsPermanent cause \<or> max_attempts j \<le> attempt j then StatusDeadLetter else StatusRetrying)
    \<and> run_after k = (if status k = StatusDeadLetter then go_now e else go_now e + Backoff (attempt j))
    \<and> completed_at k = (if status k = StatusDeadLetter then Some (pg_now e) else None)
    \<and> attempt k = attempt j \<and> job_error k = Some (err_string cause)
    \<and> lease_owner k = None \<and> lease_expires_at k = None
    \<and> (\<forall>i'. i' \<noteq> i \<longrightarrow> lookup_job d' i' = lookup_job d i')
    \<and> job_steps d' = job_steps d \<and> job_signals d' = job_signals d"
proof -
  define nxt ra where "nxt = NextStatusAfterFailure (attempt j) (max_attempts j) cause"
    and "ra = (if nxt = StatusDeadLetter then go_now e else go_now e + Backoff (attempt j))"
  obtain d' where "Fail e i w cause d = (Inr (), d')"
    and "lookup_job d' i = Some (fail_row e nxt (err_string cause) ra j)"
    and "\<And>i'. i' \<noteq> i \<Longrightarrow> lookup_job d' i' = lookup_job d i'"
    and "job_steps d' = job_steps d" and "job_signals d' = job_signals d"
    by (rule Fail_effect [OF assms(1) j held nxt_def ra_def]) (simp add: assms(4))
  then show ?thesis
    by (intro exI [where x = d'] exI [where x = "fail_row e nxt (err_string cause) ra j"])
      (simp add: fail_row_def nxt_def ra_def NextStatusAfterFailure_def)
qed

lemma fail_outcome_witness:
  "held_by ''j1'' ''w1'' sample_job \<and> attempt sample_job < max_attempts sample_job \<and>
   (\<exists>d' k. Fail (plain_env 50 '''') ''j1'' ''w1'' (New ''declined'') sample_db = (Inr (), d')
      \<and> lookup_job d' ''j1'' = Some k \<and> status k = StatusRetrying
      \<and> run_after k = 50 + second \<and> job_error k = Some ''declined'')"
proof (intro conjI)
  show h: "held_by ''j1'' ''w1'' sample_job" and "attempt sample_job < max_attempts sample_job"
    by (simp_all add: held_by_def sample_job_def)
  have b: "Backoff 1 = second" by (simp add: Backoff_def)
  have l: "link (plain_env 50 '''') 0 = Acked" by simp
  from fail_outcome [OF sample_tables_ok sample_lookup h l, of "New ''declined''"] b
  show "\<exists>d' k. Fail (plain_env 50 '''') ''j1'' ''w1'' (New ''declined'') sample_db = (Inr (), d')
      \<and> lookup_job d' ''j1'' = Some k \<and> status k = StatusRetrying
      \<and> run_after k = 50 + second \<and> job_error k = Some ''declined''"
    by (auto simp: sample_job_def)
qed

text \<open>
  Recording a success takes two statements: when the connection is lost between them,
  the holder is told that the completion failed although the job has succeeded, with its
  result stored and no \<open>job.succeeded\<close> event.
\<close>

lemma complete_not_atomic:
  assumes "tables_ok d" and j: "lookup_job d i = Some j" and held: "held_by i w j"
    and "link e 0 = Acked" and "link e 1 = Lost err" and "jsonb e res = Some r" and "res \<noteq> ''''"
  shows "\<exists>d' k. Complete e i w res d = (Inl err, d') \<and> lookup_job d' i = Some k
    \<and> status k = StatusSucceeded \<and> job_result k = Some r \<and> job_events d' = job_events d"
proof -
  let ?u = "update_jobs (held_by i w) (complete_row e r) d"
  have "rows_affected (held_by i w) d \<noteq> 0"
    using held lookup_job_in [OF j] by (auto simp: rows_affected_0)
  then have "Complete e i w res d = (Inl err, ?u)"
    using assms(4-7) by (simp add: Complete_def Let_def withTx_def)
  moreover have "lookup_job ?u i = Some (complete_row e r j)"
    using held by (simp add: lookup_update_this j)
  ultimately show ?thesis by (simp add: complete_row_def)
qed

lemma complete_not_atomic_witness:
  "let e = (plain_env 50 '''')\<lparr>link := (\<lambda>n. if n = 0 then Acked else Lost (New ''conn closed''))\<rparr>
   in \<exists>d' k. Complete e ''j1'' ''w1'' ''9'' sample_db = (Inl (New ''conn closed''), d')
    \<and> lookup_job d' ''j1'' = Some k \<and> status k = StatusSucceeded \<and> job_result k = Some ''9''
    \<and> job_events d' = job_events sample_db"
  unfolding Let_def
  by (rule complete_not_atomic [OF sample_tables_ok sample_lookup])
    (simp_all add: held_by_def sample_job_def)

section \<open>Parking and waking\<close>

text \<open>
  Parking costs no retry attempt: when no signal has arrived since the claim read the
  job, the holder's suspension puts the job back in its queue, due at the requested time,
  with the attempt the claim had taken returned, so that the claim that resumes it reaches
  the same attempt number.
\<close>

lemma suspend_returns_attempt:
  assumes "tables_ok d" and j: "lookup_job d i = Some j" and held: "held_by i w j"
    and "job_ok now j" and "link e 0 = Acked" and "wake_version j = version"
  shows "\<exists>d' k. Suspend e i w ra version d = (Inr True, d') \<and> lookup_job d' i = Some k
    \<and> status k = StatusQueued \<and> run_after k = ra \<and> lease_owner k = None
    \<and> attempt k = attempt j - 1 \<and> (\<forall>e' opts. attempt (claim_row e' opts k) = attempt j)"
proof -
  define P where "P k \<longleftrightarrow> held_by i w k \<and> wake_version k = version" for k
  have P: "P = (\<lambda>k. held_by i w k \<and> wake_version k = version)" by (auto simp: P_def)
  let ?u = "update_jobs P (suspend_row e ra) d"
  have u: "lookup_job ?u i = Some (suspend_row e ra j)"
    using held assms(6) by (simp add: lookup_update_this j P_def)
  have "rows_affected P d \<noteq> 0"
    using held assms(6) lookup_job_in [OF j] by (auto simp: rows_affected_0 P_def)
  then have "Suspend e i w ra version d =
      (Inr True, insert_event e i ''job.suspended'' (Fields [(''run_after'', DTime ra)]) ?u)"
    using assms(5) u by (simp add: Suspend_def Let_def P [symmetric] appendEvent_ok)
  moreover have "1 \<le> attempt j" using assms(4) held by (simp add: job_ok_def held_by_def)
  ultimately show ?thesis using u
    by (intro exI [where x = "insert_event e i ''job.suspended'' (Fields [(''run_after'', DTime ra)]) ?u"]
        exI [where x = "suspend_row e ra j"])
      (simp add: suspend_row_def claim_row_def)
qed

lemma suspend_returns_attempt_witness:
  "held_by ''j1'' ''w1'' sample_job \<and> job_ok 40 sample_job \<and>
   (\<exists>d' k. Suspend (plain_env 50 '''') ''j1'' ''w1'' 99 1 sample_db = (Inr True, d')
    \<and> lookup_job d' ''j1'' = Some k \<and> status k = StatusQueued \<and> run_after k = 99 \<and> lease_owner k = None
    \<and> attempt k = attempt sample_job - 1
    \<and> (\<forall>e' opts. attempt (claim_row e' opts k) = attempt sample_job))"
proof (intro conjI)
  show h: "held_by ''j1'' ''w1'' sample_job" by (simp add: held_by_def sample_job_def)
  show ok: "job_ok 40 sample_job" by (rule lookup_job_ok [OF sample_db_ok sample_lookup])
  show "\<exists>d' k. Suspend (plain_env 50 '''') ''j1'' ''w1'' 99 1 sample_db = (Inr True, d')
    \<and> lookup_job d' ''j1'' = Some k \<and> status k = StatusQueued \<and> run_after k = 99 \<and> lease_owner k = None
    \<and> attempt k = attempt sample_job - 1
    \<and> (\<forall>e' opts. attempt (claim_row e' opts k) = attempt sample_job)"
    by (rule suspend_returns_attempt [OF sample_tables_ok sample_lookup h ok])
      (simp_all add: sample_job_def)
qed

text \<open>The wake counter never goes back, and an accepted signal moves it on.\<close>

lemma row_change_wake: "row_change e a j k \<Longrightarrow> wake_version j \<le> wake_version k"
  by (auto elim!: row_change.cases row_step.cases simp: claim_row_def dead_row_def heartbeat_row_def
      suspend_row_def complete_row_def fail_row_def cancel_row_def retry_row_def wake_row_def
      orphan_def split: option.splits)

lemma run_ops_wake:
  assumes "db_ok now d" and "clocked now ops" and "fresh_run i ops" and "lookup_job d i = Some j"
    and "lookup_job (run_ops ops d) i = Some k"
  shows "wake_version j \<le> wake_version k"
  by (rule run_ops_job [OF assms(1-4) _ _ assms(5), where Q = "\<lambda>l. wake_version j \<le> wake_version l"])
    (auto dest: row_change_wake)

lemma Signal_wakes:
  assumes "Signal e i name pl key d = (r, d')" and "job_signals d' \<noteq> job_signals d"
    and j: "lookup_job d i = Some j" and "tables_ok d"
  shows "lookup_job d' i = Some (wake_row e j)"
proof -
  from withTx_state [of e 0 _ d] assms(1,2) obtain p y d1 where live: "list_ex (live i) (jobs d)"
    and a: "appendEvent e i ''job.signaled'' [(''signal'', DStr name)]
        (insert_signal (new_signal e i name p key d) d) = Inr (y, d1)"
    and d': "d' = update_jobs (live i) (wake_row e) d1"
    unfolding Signal_def Let_def withTx_def
    by (auto split: outcome.splits option.splits sum.splits if_splits)
  from live obtain k where "k \<in> set (jobs d)" "live i k" by (auto simp: list_ex_iff)
  then have "live i j"
    using held_by_unique [OF assms(4) _ lookup_job_in [OF j]] lookup_job_id [OF j]
    by (metis live_def)
  with a show ?thesis unfolding d'
    by (auto simp: appendEvent_def lookup_update_this j split: if_splits)
qed

lemma run_ops_append: "run_ops (xs @ ys) d = run_ops ys (run_ops xs d)"
  by (induction xs arbitrary: d) auto

lemma clocked_append: "clocked now (xs @ ys) \<longleftrightarrow> clocked now xs \<and> clocked (run_clock now xs) ys"
  by (induction now xs rule: run_clock.induct) auto

lemma fresh_run_append [simp]: "fresh_run i (xs @ ys) \<longleftrightarrow> fresh_run i xs \<and> fresh_run i ys"
  by (simp add: fresh_run_def)

text \<open>
  C5: No wake-up is lost. When a signal is accepted after a worker read the job's wake
  version, anywhere in a run of other operations, a later suspension with that version
  does not park the job: it changes nothing and does not answer True.
\<close>

theorem no_lost_wakeup:
  assumes "db_ok now d" and "clocked now (ops1 @ (e, OpSignal i name pl key) # ops2)"
    and "fresh_run i (ops1 @ (e, OpSignal i name pl key) # ops2)" and "lookup_job d i = Some j"
    and "job_signals (apply_op e (OpSignal i name pl key) (run_ops ops1 d)) \<noteq> job_signals (run_ops ops1 d)"
    and "d' = run_ops (ops1 @ (e, OpSignal i name pl key) # ops2) d"
  shows "snd (Suspend e' i w ra (wake_version j) d') = d'
    \<and> fst (Suspend e' i w ra (wake_version j) d') \<noteq> Inr True"
proof -
  let ?a = "OpSignal i name pl key"
  define d1 where "d1 = run_ops ops1 d"
  define d2 where "d2 = apply_op e ?a d1"
  from assms(2) have cl: "clocked now ops1" "clocked (run_clock now ops1) [(e, ?a)]" "clocked (pg_now e) ops2"
    by (auto simp: clocked_append)
  from assms(3) have fr: "fresh_run i ops1" "fresh_run i ops2" by (auto simp: fresh_run_def)
  have ok1: "db_ok (run_clock now ops1) d1" unfolding d1_def by (rule run_ops_db_ok [OF assms(1) cl(1)])
  have ok2: "db_ok (pg_now e) d2" using run_ops_db_ok [OF ok1 cl(2)] by (simp add: d2_def)
  have d': "d' = run_ops ops2 d2" using assms(6) by (simp add: run_ops_append d1_def d2_def)
  have new: "wake_version j < wake_version l" if l: "lookup_job d2 i = Some l" for l
  proof (cases "lookup_job d1 i")
    case None
    then show ?thesis
      using apply_op_new_job [OF db_okD(1) [OF ok1] None, of e ?a] assms(3) l
      by (simp add: d2_def fresh_run_def)
  next
    case (Some k)
    have "lookup_job d2 i = Some (wake_row e k)"
      unfolding d2_def apply_op.simps
      by (rule Signal_wakes [OF prod.collapse [symmetric] _ Some db_okD(1) [OF ok1]])
        (use assms(5) in \<open>simp add: d1_def\<close>)
    moreover have "wake_version j \<le> wake_version k"
      using run_ops_wake [OF assms(1) cl(1) fr(1) assms(4)] Some by (simp add: d1_def)
    ultimately show ?thesis using l by (auto simp: wake_row_def)
  qed
  have "wake_version k \<noteq> wake_version j" if "k \<in> set (jobs d')" "job_id k = i" for k
  proof -
    have ok': "db_ok (run_clock (pg_now e) ops2) d'" unfolding d' by (rule run_ops_db_ok [OF ok2 cl(3)])
    then have k: "lookup_job d' i = Some k" using that lookup_job_iff [OF db_okD(1) [OF ok']] by simp
    show ?thesis
    proof (cases "lookup_job d2 i")
      case None
      have "lookup_job d' i = None"
        using run_ops_absent [OF ok2 cl(3) fr(2) None] by (simp add: d')
      with k show ?thesis by simp
    next
      case (Some l)
      then show ?thesis using new run_ops_wake [OF ok2 cl(3) fr(2) Some] k by (force simp: d')
    qed
  qed
  then have "rows_affected (\<lambda>k. held_by i w k \<and> wake_version k = wake_version j) d' = 0"
    by (auto simp: rows_affected_0 held_by_def)
  then show ?thesis by (simp add: Suspend_def Let_def withTx_def split: outcome.split)
qed

lemma no_lost_wakeup_witness:
  "let d' = run_ops ([] @ (plain_env 40 '''', OpSignal ''j1'' ''go'' ''1'' '''') # sample_rest) sample_db
   in snd (Suspend (plain_env 90 '''') ''j1'' ''w1'' 99 1 d') = d'
     \<and> fst (Suspend (plain_env 90 '''') ''j1'' ''w1'' 99 1 d') \<noteq> Inr True"
proof -
  have v: "wake_version sample_job = 1" by (simp add: sample_job_def)
  have g: "job_signals (apply_op (plain_env 40 '''') (OpSignal ''j1'' ''go'' ''1'' '''') (run_ops [] sample_db))
      \<noteq> job_signals (run_ops [] sample_db)" by code_simp
  show ?thesis unfolding Let_def v [symmetric]
    by (rule no_lost_wakeup [OF sample_db_ok _ _ sample_lookup g refl])
      (simp_all add: sample_rest_def fresh_run_def)
qed

section \<open>Enqueue\<close>

text \<open>An acknowledged enqueue answers the holder of its key, or the row it has inserted.\<close>

lemma Enqueue_cases:
  assumes "Enqueue e request d = (Inr (j, created), d')"
  obtains (hit) "\<not> created" "key_holder (rq_key request) d = Some j" "jobs d' = jobs d"
  | (new) pl where "created" "key_holder (rq_key request) d = None"
      "jsonb e (rq_payload (NormalizeEnqueue (go_now e) request)) = Some pl"
      "j = new_job e (NormalizeEnqueue (go_now e) request) pl" "jobs d' = jobs d @ [j]"
      "lookup_job d (job_id j) = None"
  using assms unfolding Enqueue_def Let_def
  by (auto dest!: withTx_InrD simp: appendEvent_def new_job_def split: option.splits sum.splits if_splits)

lemma key_holder_iff:
  assumes "tables_ok d" and "key \<noteq> ''''"
  shows "key_holder key d = Some j \<longleftrightarrow> j \<in> set (jobs d) \<and> idempotency_key j = Some key"
proof
  assume "key_holder key d = Some j"
  then show "j \<in> set (jobs d) \<and> idempotency_key j = Some key"
    using assms(2) by (auto simp: key_holder_def find_Some_iff)
next
  assume j: "j \<in> set (jobs d) \<and> idempotency_key j = Some key"
  then obtain k where k: "key_holder key d = Some k"
    using assms(2) by (cases "key_holder key d") (auto simp: key_holder_def find_None_iff)
  then have "k \<in> set (jobs d)" "idempotency_key k = Some key"
    using assms(2) by (auto simp: key_holder_def find_Some_iff)
  moreover have "jobs_ok d" using assms(1) by (simp add: tables_ok_def)
  ultimately have "job_id k = job_id j" using j jobs_ok_keyD by blast
  with k j \<open>k \<in> set (jobs d)\<close> show "key_holder key d = Some j"
    using held_by_unique [OF assms(1)] by blast
qed

lemma Enqueue_holds_key:
  assumes "tables_ok d" and "Enqueue e request d = (Inr (j, created), d')" and "rq_key request \<noteq> ''''"
  shows "j \<in> set (jobs d') \<and> idempotency_key j = Some (rq_key request)"
  using assms(2)
proof (cases rule: Enqueue_cases)
  case hit
  then show ?thesis using key_holder_iff [OF assms(1,3)] by simp
next
  case (new pl)
  then show ?thesis using assms(3) by (simp add: new_job_def)
qed

lemma enqueue_again:
  assumes "db_ok now d" and "now \<le> pg_now e" and "Enqueue e request d = (Inr (j, created), d1)"
    and "rq_key request = key" and "rq_key request' = key" and "key \<noteq> ''''"
    and "clocked (pg_now e) ops" and "fresh_run (job_id j) ops" and "d2 = run_ops ops d1"
    and "lookup_job d2 (job_id j) \<noteq> None" and "Enqueue e' request' d2 = (Inr (k, created'), d3)"
  shows "job_id k = job_id j \<and> \<not> created' \<and> jobs d3 = jobs d2 \<and> lookup_job d2 (job_id j) = Some k"
proof -
  have ok1: "db_ok (pg_now e) d1"
    using apply_op_db_ok [OF assms(1,2), of "OpEnqueue request"] assms(3) by simp
  have ok2: "db_ok (run_clock (pg_now e) ops) d2"
    unfolding assms(9) by (rule run_ops_db_ok [OF ok1 assms(7)])
  have j: "j \<in> set (jobs d1)" "idempotency_key j = Some key"
    using Enqueue_holds_key [OF db_okD(1) [OF assms(1)] assms(3)] assms(4,6) by auto
  then have lj: "lookup_job d1 (job_id j) = Some j" using lookup_job_iff [OF db_okD(1) [OF ok1]] by simp
  from assms(10) obtain l where l: "lookup_job d2 (job_id j) = Some l" by blast
  have "idempotency_key l = Some key"
  proof (rule run_ops_job [OF ok1 assms(7,8) lj])
    fix e a k m assume "idempotency_key k = Some key" "row_change e a k m"
    then show "idempotency_key m = Some key"
      by (auto elim!: row_change.cases dest: row_step_edge simp: same_identity_def)
  qed (use j l assms(9) in auto)
  then have kl: "key_holder key d2 = Some l"
    using key_holder_iff [OF db_okD(1) [OF ok2] assms(6)] lookup_job_in [OF l] by simp
  from assms(11) show ?thesis
  proof (cases rule: Enqueue_cases)
    case hit
    then show ?thesis using kl l assms(5) by (auto dest: lookup_job_id)
  next
    case (new pl)
    then show ?thesis using kl assms(5) by simp
  qed
qed

text \<open>
  C10: Enqueuing is idempotent under its key. Once a request with an idempotency key has
  been acknowledged, any later acknowledged request with the same key, whatever else it
  asks for and whatever has happened to the job meanwhile, answers the same job, says that
  nothing was created, and leaves the jobs table as it was, for as long as the job exists.
\<close>

theorem enqueue_idempotent:
  assumes "db_ok now d" and "now \<le> pg_now e" and "Enqueue e request d = (Inr (j, created), d1)"
    and "rq_key request = key" and "rq_key request' = key" and "key \<noteq> ''''"
    and "clocked (pg_now e) ops" and "fresh_run (job_id j) ops" and "d2 = run_ops ops d1"
    and "lookup_job d2 (job_id j) \<noteq> None" and "Enqueue e' request' d2 = (Inr (k, created'), d3)"
  shows "job_id k = job_id j \<and> \<not> created' \<and> jobs d3 = jobs d2 \<and> lookup_job d2 (job_id j) = Some k"
  by (rule enqueue_again [OF assms])

definition keyed_request :: enqueue_request where
  "keyed_request = zero_request\<lparr>rq_type := ''echo'', rq_key := ''order-1''\<rparr>"

definition keyed_job :: job where
  "keyed_job = new_job (plain_env 50 ''j2'') (NormalizeEnqueue 50 keyed_request) ''{}''"

definition keyed_db :: db where
  "keyed_db = snd (Enqueue (plain_env 50 ''j2'') keyed_request sample_db)"

lemma keyed_first: "Enqueue (plain_env 50 ''j2'') keyed_request sample_db = (Inr (keyed_job, True), keyed_db)"
proof -
  have "fst (Enqueue (plain_env 50 ''j2'') keyed_request sample_db) = Inr (keyed_job, True)" by code_simp
  then show ?thesis by (simp add: keyed_db_def prod_eq_iff)
qed

lemma enqueue_idempotent_witness:
  "\<exists>k d3. Enqueue (plain_env 80 ''j3'') keyed_request (run_ops sample_rest keyed_db) = (Inr (k, False), d3)
     \<and> job_id k = ''j2'' \<and> jobs d3 = jobs (run_ops sample_rest keyed_db)"
proof -
  let ?d2 = "run_ops sample_rest keyed_db"
  let ?r2 = "Enqueue (plain_env 80 ''j3'') keyed_request ?d2"
  have j: "job_id keyed_job = ''j2''" by (simp add: keyed_job_def new_job_def)
  have ok: "\<not> isl (fst ?r2)" and l: "lookup_job ?d2 (job_id keyed_job) \<noteq> None" by code_simp+
  obtain r d3 where r: "?r2 = (r, d3)" by fastforce
  with ok obtain k c where r2: "?r2 = (Inr (k, c), d3)" by (cases r) auto
  have "job_id k = job_id keyed_job \<and> \<not> c \<and> jobs d3 = jobs ?d2 \<and> lookup_job ?d2 (job_id keyed_job) = Some k"
    by (rule enqueue_idempotent [OF sample_db_ok _ keyed_first _ _ _ _ _ refl l r2, where key = "''order-1''"])
      (simp_all add: keyed_request_def sample_rest_def fresh_run_def j)
  with r2 j show ?thesis by auto
qed

section \<open>Claim\<close>

text \<open>The jobs a claim may take, as the documentation has it: waiting and due, or abandoned.\<close>

definition takeable :: "time \<Rightarrow> string \<Rightarrow> job \<Rightarrow> bool" where
  "takeable now q j \<longleftrightarrow> queue j = q \<and>
     ((status j \<in> {StatusQueued, StatusRetrying} \<and> run_after j \<le> now)
      \<or> (status j = StatusRunning \<and> (\<exists>t. lease_expires_at j = Some t \<and> t < now) \<and> attempt j < max_attempts j))"

lemma before_iff: "before x now \<longleftrightarrow> (\<exists>t. x = Some t \<and> t < now)"
  by (cases x) simp_all

lemma takeable_code [code]:
  "takeable now q j \<longleftrightarrow> queue j = q \<and>
     ((status j \<in> {StatusQueued, StatusRetrying} \<and> run_after j \<le> now)
      \<or> (status j = StatusRunning \<and> before (lease_expires_at j) now \<and> attempt j < max_attempts j))"
  by (simp add: takeable_def before_iff)

lemma claimable_takeable: "claimable e = takeable (pg_now e)"
  by (auto simp: claimable_def takeable_def before_iff fun_eq_iff)

abbreviation claim_order :: "job \<Rightarrow> time \<times> time" where
  "claim_order j \<equiv> (run_after j, created_at j)"

lemma claim_row_simps [simp]:
  "run_after (claim_row e opts j) = run_after j"
  "created_at (claim_row e opts j) = created_at j"
  "status (claim_row e opts j) = StatusRunning"
  "attempt (claim_row e opts j) = attempt j + 1"
  "lease_owner (claim_row e opts j) = Some (co_worker opts)"
  "lease_expires_at (claim_row e opts j) = Some (pg_now e + pgInterval (co_lease opts))"
  by (simp_all add: claim_row_def)

lemma claim_candidates_facts:
  assumes "tables_ok d"
  shows "distinct (map job_id (claim_candidates e opts d))"
    and "sorted (map claim_order (claim_candidates e opts d))"
    and "length (claim_candidates e opts d) \<le> nat (co_limit opts)"
    and "j \<in> set (jobs d) \<Longrightarrow> claimable e (co_queue opts) j \<Longrightarrow> \<not> row_locked e (job_id j) \<Longrightarrow>
      j \<notin> set (claim_candidates e opts d) \<Longrightarrow>
      length (claim_candidates e opts d) = nat (co_limit opts)
      \<and> (\<forall>k\<in>set (claim_candidates e opts d). claim_order k \<le> claim_order j)"
proof -
  define due where "due = sort_key claim_order
    (scanned e (filter (\<lambda>j. claimable e (co_queue opts) j \<and> \<not> row_locked e (job_id j)) (jobs d)))"
  have cands: "claim_candidates e opts d = take (nat (co_limit opts)) due"
    by (simp add: claim_candidates_def due_def)
  have srt: "sorted (map claim_order due)" by (simp add: due_def)
  have "distinct (map job_id (jobs d))" using tables_ok_ids [OF assms] by (simp add: job_ids_def)
  then have "distinct (map job_id due)"
    by (simp add: due_def distinct_sort_key_map distinct_map_filter_key)
  then show "distinct (map job_id (claim_candidates e opts d))"
    unfolding cands take_map [symmetric] by (rule distinct_take)
  show "sorted (map claim_order (claim_candidates e opts d))" unfolding cands by (rule sorted_take [OF srt])
  show "length (claim_candidates e opts d) \<le> nat (co_limit opts)" by (simp add: cands)
  assume "j \<in> set (jobs d)" "claimable e (co_queue opts) j" "\<not> row_locked e (job_id j)"
    and j: "j \<notin> set (claim_candidates e opts d)"
  then have "j \<in> set due" by (simp add: due_def)
  with j have jd: "j \<in> set (drop (nat (co_limit opts)) due)"
    unfolding cands by (metis append_take_drop_id Un_iff set_append)
  then have "nat (co_limit opts) < length due"
    by (metis drop_all empty_iff list.set(1) not_le)
  with jd show "length (claim_candidates e opts d) = nat (co_limit opts)
      \<and> (\<forall>k\<in>set (claim_candidates e opts d). claim_order k \<le> claim_order j)"
    unfolding cands using sorted_take_drop [OF srt] by auto
qed

lemma Claim_InrD:
  assumes "Claim e options d = (Inr cs, d')"
  shows "cs = returning e (map (claim_row e (claim_defaults options)) (claim_candidates e (claim_defaults options) d))"
    and "jobs d' = jobs (update_jobs (\<lambda>j. job_id j \<in> set (map job_id (claim_candidates e (claim_defaults options) d)))
           (claim_row e (claim_defaults options)) d)"
  using assms unfolding Claim_def Let_def
  by (auto dest!: withTx_InrD append_events_frame split: sum.splits if_splits simp del: set_map)

lemma lookup_job_jobs: "jobs d' = jobs d \<Longrightarrow> lookup_job d' = lookup_job d"
  by (simp add: lookup_job_def [abs_def])

text \<open>What a claim takes, and what it leaves.\<close>

lemma claim_takes:
  assumes "tables_ok d" and "Claim e options d = (Inr cs, d')" and "opts = claim_defaults options"
  shows "length cs \<le> nat (co_limit opts) \<and> distinct (map job_id cs)
    \<and> (\<forall>k\<in>set cs. lookup_job d' (job_id k) = Some k \<and> status k = StatusRunning
         \<and> lease_owner k = Some (co_worker opts)
         \<and> lease_expires_at k = Some (pg_now e + pgInterval (co_lease opts))
         \<and> (\<exists>j. lookup_job d (job_id k) = Some j \<and> takeable (pg_now e) (co_queue opts) j
               \<and> \<not> row_locked e (job_id j) \<and> attempt k = attempt j + 1 \<and> same_identity j k))
    \<and> (\<forall>j\<in>set (jobs d). takeable (pg_now e) (co_queue opts) j \<and> \<not> row_locked e (job_id j)
         \<and> job_id j \<notin> set (map job_id cs) \<longrightarrow>
         length cs = nat (co_limit opts) \<and> (\<forall>k\<in>set cs. claim_order k \<le> claim_order j))
    \<and> (\<forall>i. i \<notin> set (map job_id cs) \<longrightarrow> lookup_job d' i = lookup_job d i)"
proof -
  let ?c = "claim_candidates e opts d"
  let ?u = "update_jobs (\<lambda>j. job_id j \<in> set (map job_id ?c)) (claim_row e opts) d"
  have cs: "cs = returning e (map (claim_row e opts) ?c)" and d': "lookup_job d' = lookup_job ?u"
    using Claim_InrD [OF assms(2)] by (auto simp: assms(3) intro: lookup_job_jobs)
  have ids: "set (map job_id cs) = set (map job_id ?c)" by (simp add: cs image_image)
  have one: "lookup_job d (job_id j) = Some j \<and> claimable e (co_queue opts) j
      \<and> \<not> row_locked e (job_id j) \<and> lookup_job d' (job_id j) = Some (claim_row e opts j)" if "j \<in> set ?c" for j
    using that candidate_claimable [OF that] lookup_job_iff [OF assms(1), of "job_id j" j]
    by (simp add: d' lookup_update_this)
  have other: "lookup_job d' i = lookup_job d i" if "i \<notin> set (map job_id ?c)" for i
    using that lookup_job_id [of d i] by (cases "lookup_job d i") (auto simp: d' lookup_update_this)
  have "distinct (map job_id (map (claim_row e opts) ?c))"
    using claim_candidates_facts(1) [OF assms(1), of e opts] by (simp add: comp_def)
  then have dis: "distinct (map job_id cs)" unfolding cs by simp
  have left: "length cs = nat (co_limit opts) \<and> (\<forall>k\<in>set cs. claim_order k \<le> claim_order j)"
    if "j \<in> set (jobs d)" "takeable (pg_now e) (co_queue opts) j" "\<not> row_locked e (job_id j)"
      "job_id j \<notin> set (map job_id ?c)" for j
    using claim_candidates_facts(4) [OF assms(1) that(1) _ that(3)] that(2,4)
    by (auto simp: cs claimable_takeable)
  have each: "lookup_job d' (job_id k) = Some k \<and> status k = StatusRunning
      \<and> lease_owner k = Some (co_worker opts) \<and> lease_expires_at k = Some (pg_now e + pgInterval (co_lease opts))
      \<and> (\<exists>j. lookup_job d (job_id k) = Some j \<and> takeable (pg_now e) (co_queue opts) j
               \<and> \<not> row_locked e (job_id j) \<and> attempt k = attempt j + 1 \<and> same_identity j k)"
    if "k \<in> set cs" for k
    using that one by (auto simp: cs claimable_takeable)
  have "length cs \<le> nat (co_limit opts)" using claim_candidates_facts(3) [OF assms(1)] by (simp add: cs)
  then show ?thesis
    unfolding ids using dis each other left by blast
qed

text \<open>
  C11: A claim takes the right jobs. It answers at most the batch size of jobs, all of
  the queue asked for, each either waiting and due or running on an expired lease with
  attempts left; each is now running, held by the claimer for the lease period, on its
  next attempt; no unlocked job that could have been
  claimed is passed over for one that is due later; and no other job changes.
\<close>

theorem claim_correct:
  assumes "tables_ok d" and "Claim e options d = (Inr cs, d')" and "opts = claim_defaults options"
  shows "length cs \<le> nat (co_limit opts) \<and> distinct (map job_id cs)
    \<and> (\<forall>k\<in>set cs. lookup_job d' (job_id k) = Some k \<and> status k = StatusRunning
         \<and> lease_owner k = Some (co_worker opts)
         \<and> lease_expires_at k = Some (pg_now e + pgInterval (co_lease opts))
         \<and> (\<exists>j. lookup_job d (job_id k) = Some j \<and> takeable (pg_now e) (co_queue opts) j
               \<and> \<not> row_locked e (job_id j) \<and> attempt k = attempt j + 1 \<and> same_identity j k))
    \<and> (\<forall>j\<in>set (jobs d). takeable (pg_now e) (co_queue opts) j \<and> \<not> row_locked e (job_id j)
         \<and> job_id j \<notin> set (map job_id cs) \<longrightarrow>
         length cs = nat (co_limit opts) \<and> (\<forall>k\<in>set cs. claim_order k \<le> claim_order j))
    \<and> (\<forall>i. i \<notin> set (map job_id cs) \<longrightarrow> lookup_job d' i = lookup_job d i)"
  by (rule claim_takes [OF assms])

text \<open>The sample job is taken over once its lease has expired.\<close>

definition late_env :: senv where
  "late_env = plain_env 60000000021 ''''"

definition late_job :: job where
  "late_job = claim_row late_env (claim_defaults sample_claim) sample_job"

definition late_db :: db where
  "late_db = snd (Claim late_env sample_claim sample_db)"

lemma late_claim: "Claim late_env sample_claim sample_db = (Inr [late_job], late_db)"
proof -
  have "fst (Claim late_env sample_claim sample_db) = Inr [late_job]" by code_simp
  then show ?thesis by (simp add: prod_eq_iff late_db_def)
qed

lemma late_job_simps: "job_id late_job = ''j1''" "attempt late_job = 2"
  by (simp_all add: late_job_def sample_job_def claim_row_def)

lemma claim_correct_witness:
  "\<exists>k d'. Claim late_env sample_claim sample_db = (Inr [k], d')
     \<and> job_id k = ''j1'' \<and> attempt k = 2 \<and> lookup_job d' ''j1'' = Some k"
proof -
  have "lookup_job late_db (job_id late_job) = Some late_job"
    using claim_correct [OF sample_tables_ok late_claim refl] by simp
  with late_claim show ?thesis by (simp add: late_job_simps)
qed

text \<open>A claimed job's row, before and after.\<close>

lemma claimed_row:
  assumes "tables_ok d" and "Claim e options d = (Inr cs, d')" and "k \<in> set cs"
  obtains j where "lookup_job d (job_id k) = Some j" and "k = claim_row e (claim_defaults options) j"
    and "lookup_job d' (job_id k) = Some k" and "claimable e (co_queue (claim_defaults options)) j"
proof -
  let ?o = "claim_defaults options"
  from assms(3) obtain c where c: "c \<in> set (claim_candidates e ?o d)" "k = claim_row e ?o c"
    using Claim_InrD(1) [OF assms(2)] by auto
  have l: "lookup_job d (job_id c) = Some c"
    using candidate_claimable(1) [OF c(1)] lookup_job_iff [OF assms(1), of "job_id c" c] by simp
  moreover have "lookup_job d' (job_id c) = Some k"
    using lookup_job_jobs [OF Claim_InrD(2) [OF assms(2)]] c l by (simp add: lookup_update_this)
  ultimately show ?thesis using c candidate_claimable(2) [OF c(1)] by (intro that) simp_all
qed

text \<open>
  Two claims never hand out the same job while the first lease lasts, whichever
  workers and queues are involved.
\<close>

lemma claims_disjoint:
  assumes "tables_ok d" and "Claim e options d = (Inr cs, d1)" and "Claim e' options' d1 = (Inr cs', d2)"
    and "pg_now e' \<le> pg_now e + pgInterval (co_lease options)"
  shows "set (map job_id cs) \<inter> set (map job_id cs') = {}"
proof (rule ccontr)
  assume "\<not> ?thesis"
  then obtain k k' where k: "k \<in> set cs" "k' \<in> set cs'" "job_id k = job_id k'" by auto
  have ok1: "tables_ok d1"
    using effects_tables_ok [OF apply_op_effects [OF assms(1), of e "OpClaim options"] assms(1)] assms(2) by simp
  obtain c where c: "k = claim_row e (claim_defaults options) c" "lookup_job d1 (job_id k) = Some k"
    by (rule claimed_row [OF assms(1,2) k(1)])
  obtain c' where "lookup_job d1 (job_id k') = Some c'" "claimable e' (co_queue (claim_defaults options')) c'"
    by (rule claimed_row [OF ok1 assms(3) k(2)])
  with c k(3) have "claimable e' (co_queue (claim_defaults options')) (claim_row e (claim_defaults options) c)" by simp
  moreover have "co_lease (claim_defaults options) = co_lease options" by (simp add: claim_defaults_def Let_def)
  ultimately show False using assms(4) by (simp add: claimable_def)
qed

lemma claims_disjoint_witness:
  "\<exists>cs cs' d2. Claim late_env sample_claim sample_db = (Inr cs, late_db) \<and> cs \<noteq> []
     \<and> Claim (plain_env 60000000030 '''') sample_claim late_db = (Inr cs', d2)
     \<and> set (map job_id cs) \<inter> set (map job_id cs') = {}"
proof -
  let ?e = "plain_env 60000000030 ''''"
  have "fst (Claim ?e sample_claim late_db) = Inr []" by code_simp
  then obtain d2 where c: "Claim ?e sample_claim late_db = (Inr [], d2)" by (cases "Claim ?e sample_claim late_db") auto
  have "set (map job_id [late_job]) \<inter> set (map job_id ([] :: job list)) = {}"
    by (rule claims_disjoint [OF sample_tables_ok late_claim c])
      (simp add: late_env_def sample_claim_def pgInterval_def)
  with late_claim c show ?thesis by blast
qed

section \<open>Signals\<close>

text \<open>The body of \<open>Signal\<close> on a database in which ids are unique.\<close>

lemma live_row:
  assumes "tables_ok d"
  shows "list_ex (live i) (jobs d) \<longleftrightarrow> (\<exists>j. lookup_job d i = Some j \<and> live i j)"
  using lookup_job_iff [OF assms, of i] by (auto simp: list_ex_iff live_def dest: lookup_job_in)

definition signaled :: "senv \<Rightarrow> string \<Rightarrow> string \<Rightarrow> bytes \<Rightarrow> string \<Rightarrow> db \<Rightarrow> db" where
  "signaled e i name v key d = update_jobs (live i) (wake_row e)
     (insert_event e i ''job.signaled'' (Fields [(''signal'', DStr name)])
       (insert_signal (new_signal e i name v key d) d))"

lemma Signal_body:
  assumes t: "tables_ok d"
  shows "Signal e i name pl key d = withTx e 0 (\<lambda>_.
    case jsonb e (if pl = '''' then ''{}'' else pl) of
      None \<Rightarrow> Inl json_error
    | Some v \<Rightarrow>
        if signal_taken i name key d then Inr ((), d)
        else (case lookup_job d i of
            None \<Rightarrow> Inl (Sentinel ErrNotFound)
          | Some j \<Rightarrow>
              if \<not> live i j then Inl (Sentinel ErrInvalidTransition)
              else if int4 (wake_version j + 1) then Inr ((), signaled e i name v key d)
              else Inl range_error)) d"
proof -
  have wake: "list_ex (\<lambda>j. live i j \<and> \<not> int4 (wake_version j + 1)) (jobs d) \<longleftrightarrow> \<not> int4 (wake_version j + 1)"
    if "lookup_job d i = Some j" "live i j" for j
    using that lookup_job_in only_row [OF t that(1)] by (auto simp: list_ex_iff live_def)
  show ?thesis
    unfolding Signal_def Let_def withTx_def live_row [OF t]
    by (cases "link e 0"; cases "jsonb e (if pl = '''' then ''{}'' else pl)"; cases "lookup_job d i")
      (simp_all add: appendEvent_def wake signaled_def)
qed

lemma signal_taken_iff:
  "signal_taken i name key d \<longleftrightarrow>
    key \<noteq> '''' \<and> (\<exists>g\<in>set (job_signals d). sig_job g = i \<and> sig_name g = name \<and> sig_key g = Some key)"
  by (simp add: signal_taken_def list_ex_iff)

lemma signal_taken_stays:
  assumes "db_ok now d" and "clocked now ops" and "fresh_run i ops" and "signal_taken i name key d"
    and "lookup_job (run_ops ops d) i \<noteq> None"
  shows "signal_taken i name key (run_ops ops d)"
proof -
  have set_mailbox: "set (mailbox d i name) = {g \<in> set (job_signals d). sig_job g = i \<and> sig_name g = name}" for d
    by (simp only: mailbox_def set_sort set_filter)
  obtain new where "mailbox (run_ops ops d) i name = mailbox d i name @ new"
    using mailbox_stable [OF assms(1-3), of name] assms(5) by auto
  then have sub: "set (mailbox d i name) \<subseteq> set (mailbox (run_ops ops d) i name)" by simp
  obtain g where "g \<in> set (mailbox d i name)" "sig_key g = Some key" "key \<noteq> ''''"
    using assms(4) unfolding signal_taken_iff set_mailbox by auto
  with sub have "g \<in> set (mailbox (run_ops ops d) i name)" "sig_key g = Some key" "key \<noteq> ''''" by auto
  then show ?thesis unfolding signal_taken_iff set_mailbox by auto
qed

text \<open>A signal that was delivered already does nothing more, whatever the connection.\<close>

lemma Signal_again:
  assumes "tables_ok d" and "signal_taken i name key d"
  shows "snd (Signal e i name pl key d) = d"
    and "link e 0 = Acked \<Longrightarrow> jsonb e (if pl = '''' then ''{}'' else pl) \<noteq> None \<Longrightarrow>
      fst (Signal e i name pl key d) = Inr ()"
  unfolding Signal_body [OF assms(1)] using assms(2)
  by (cases "pl = ''''"; auto simp: withTx_def split: outcome.split option.split)+

lemma signaled_facts:
  assumes "tables_ok d" and "lookup_job d i = Some j" and "live i j"
  shows "lookup_job (signaled e i name v key d) i = Some (wake_row e j)"
    and "i' \<noteq> i \<Longrightarrow> lookup_job (signaled e i name v key d) i' = lookup_job d i'"
    and "job_signals (signaled e i name v key d) = job_signals d @ [new_signal e i name v key d]"
    and "job_steps (signaled e i name v key d) = job_steps d"
    and "mailbox (signaled e i name v key d) i' n = mailbox d i' n
      @ (if i' = i \<and> n = name then [new_signal e i name v key d] else [])"
proof -
  have "lookup_job (signaled e i name v key d) k = map_option (\<lambda>j. if live i j then wake_row e j else j) (lookup_job d k)" for k
    by (simp add: signaled_def lookup_update_this)
  then show "lookup_job (signaled e i name v key d) i = Some (wake_row e j)"
    "i' \<noteq> i \<Longrightarrow> lookup_job (signaled e i name v key d) i' = lookup_job d i'"
    using assms(2,3) lookup_job_id [of d i'] by (cases "lookup_job d i'"; auto simp: live_def)+
  show "job_signals (signaled e i name v key d) = job_signals d @ [new_signal e i name v key d]"
    "job_steps (signaled e i name v key d) = job_steps d"
    by (simp_all add: signaled_def update_jobs_def insert_event_def insert_signal_def)
  have "signals_ok d" using assms(1) by (simp add: tables_ok_def)
  then have "\<forall>g\<in>set (job_signals d). sig_id g < next_signal d" by (simp add: signals_ok_def)
  then have "sorted (map sig_id (job_signals d @ [new_signal e i name v key d]))"
    using sorted_sig_ids [OF \<open>signals_ok d\<close>] by (auto simp: sorted_append new_signal_def intro: less_imp_le)
  then have "mailbox (signaled e i name v key d) i' n
      = filter (\<lambda>g. sig_job g = i' \<and> sig_name g = n) (job_signals d @ [new_signal e i name v key d])"
    unfolding mailbox_def by (intro trans [OF sort_key_id_if_sorted [OF sorted_filter]])
      (simp_all add: signaled_def update_jobs_def insert_event_def insert_signal_def)
  then show "mailbox (signaled e i name v key d) i' n = mailbox d i' n
      @ (if i' = i \<and> n = name then [new_signal e i name v key d] else [])"
    using mailbox_filter [OF \<open>signals_ok d\<close>] by (auto simp: new_signal_def)
qed

text \<open>
  C14: A signal is delivered once, or refused with its reason and without effect. On a
  live connection a bad payload is an error, a key that was delivered to that mailbox
  before is acknowledged, a job that does not exist or is in a terminal status refuses the
  signal, and any other job gets it: one row with the payload and the key at the end of
  its mailbox, the job due no later than now and its wake version moved on, and nothing
  else changed. An error leaves the database as it was, unless the connection was lost
  after the commit. Once a keyed signal has been accepted, then after any further
  operations, as long as the job is not pruned, the same key has no effect, whatever the
  payload and the connection.
\<close>

theorem signal_once:
  assumes "db_ok now d" and "now \<le> pg_now e" and "Signal e i name pl key d = (r, d')"
    and "stored = jsonb e (if pl = '''' then ''{}'' else pl)"
    and "dup \<longleftrightarrow> key \<noteq> '''' \<and>
      (\<exists>g\<in>set (job_signals d). sig_job g = i \<and> sig_name g = name \<and> sig_key g = Some key)"
  shows "(link e 0 = Acked \<longrightarrow> r = (case stored of
        None \<Rightarrow> Inl json_error
      | Some v \<Rightarrow>
          if dup then Inr ()
          else (case lookup_job d i of
              None \<Rightarrow> Inl (Sentinel ErrNotFound)
            | Some j \<Rightarrow>
                if status j \<in> {StatusSucceeded, StatusDeadLetter, StatusCanceled}
                then Inl (Sentinel ErrInvalidTransition)
                else if wake_version j + 1 < 2 ^ 31 then Inr () else Inl range_error)))
    \<and> (dup \<or> (r \<noteq> Inr () \<and> (\<forall>err. link e 0 \<noteq> Unacked err)) \<longrightarrow> d' = d)
    \<and> (r = Inr () \<and> \<not> dup \<longrightarrow> (\<exists>j v g. lookup_job d i = Some j \<and> stored = Some v
         \<and> g = \<lparr>sig_id = next_signal d, sig_job = i, sig_name = name, sig_payload = v,
                sig_key = (if key = '''' then None else Some key), sig_at = pg_now e\<rparr>
         \<and> job_signals d' = job_signals d @ [g] \<and> mailbox d' i name = mailbox d i name @ [g]
         \<and> lookup_job d' i = Some (j\<lparr>run_after := min (run_after j) (pg_now e),
              wake_version := wake_version j + 1, updated_at := pg_now e\<rparr>)
         \<and> (\<forall>i'. i' \<noteq> i \<longrightarrow> lookup_job d' i' = lookup_job d i') \<and> job_steps d' = job_steps d))
    \<and> (r = Inr () \<and> key \<noteq> '''' \<and> clocked (pg_now e) ops \<and> fresh_run i ops
         \<and> lookup_job (run_ops ops d') i \<noteq> None \<longrightarrow>
         snd (Signal e' i name pl' key (run_ops ops d')) = run_ops ops d'
         \<and> (link e' 0 = Acked \<and> jsonb e' (if pl' = '''' then ''{}'' else pl') \<noteq> None \<longrightarrow>
              fst (Signal e' i name pl' key (run_ops ops d')) = Inr ()))"
proof -
  have t: "tables_ok d" by (rule db_okD(1) [OF assms(1)])
  have dup: "signal_taken i name key d \<longleftrightarrow> dup" by (simp add: signal_taken_iff assms(5))
  have S: "withTx e 0 (\<lambda>_. case stored of None \<Rightarrow> Inl json_error
    | Some v \<Rightarrow> if dup then Inr ((), d)
        else (case lookup_job d i of None \<Rightarrow> Inl (Sentinel ErrNotFound)
          | Some j \<Rightarrow> if \<not> live i j then Inl (Sentinel ErrInvalidTransition)
              else if int4 (wake_version j + 1) then Inr ((), signaled e i name v key d)
              else Inl range_error)) d = (r, d')"
    using assms(3) unfolding Signal_body [OF t] dup assms(4) .
  have live: "live i j \<longleftrightarrow> status j \<notin> {StatusSucceeded, StatusDeadLetter, StatusCanceled}"
    and ver: "int4 (wake_version j + 1) \<longleftrightarrow> wake_version j + 1 < 2 ^ 31" if "lookup_job d i = Some j" for j
    using lookup_job_id [OF that] lookup_job_ok [OF assms(1) that] by (auto simp: live_def int4_def job_ok_def)
  have one: "link e 0 = Acked \<Longrightarrow> r = (case stored of None \<Rightarrow> Inl json_error
      | Some v \<Rightarrow> if dup then Inr ()
          else (case lookup_job d i of None \<Rightarrow> Inl (Sentinel ErrNotFound)
            | Some j \<Rightarrow> if status j \<in> {StatusSucceeded, StatusDeadLetter, StatusCanceled}
                then Inl (Sentinel ErrInvalidTransition)
                else if wake_version j + 1 < 2 ^ 31 then Inr () else Inl range_error))"
    using S by (cases stored; cases dup; cases "lookup_job d i") (auto simp: live ver split: if_splits)
  have two: "dup \<or> (r \<noteq> Inr () \<and> (\<forall>err. link e 0 \<noteq> Unacked err)) \<Longrightarrow> d' = d"
    using S by (cases "link e 0") (auto simp: withTx_def split: option.splits sum.splits if_splits)
  have three: "\<exists>j v. lookup_job d i = Some j \<and> stored = Some v \<and> live i j \<and> d' = signaled e i name v key d"
    if "r = Inr ()" "\<not> dup"
    using S that by (cases "link e 0") (auto simp: withTx_def split: option.splits sum.splits if_splits)
  have taken: "signal_taken i name key d'" if "r = Inr ()" "key \<noteq> ''''"
  proof (cases dup)
    case True
    then show ?thesis using two dup by simp
  next
    case False
    with three [OF that(1)] signaled_facts(3) [OF t] that(2) show ?thesis
      by (auto simp: signal_taken_iff new_signal_def)
  qed
  have ok: "db_ok (pg_now e) d'"
    using apply_op_db_ok [OF assms(1,2), of "OpSignal i name pl key"] assms(3) by simp
  have four: "snd (Signal e' i name pl' key (run_ops ops d')) = run_ops ops d'
      \<and> (link e' 0 = Acked \<and> jsonb e' (if pl' = '''' then ''{}'' else pl') \<noteq> None \<longrightarrow>
           fst (Signal e' i name pl' key (run_ops ops d')) = Inr ())"
    if "r = Inr ()" "key \<noteq> ''''" "clocked (pg_now e) ops" "fresh_run i ops" "lookup_job (run_ops ops d') i \<noteq> None"
    using Signal_again [OF db_okD(1) [OF run_ops_db_ok [OF ok that(3)]]
        signal_taken_stays [OF ok that(3,4) taken [OF that(1,2)] that(5)]] by blast
  have "\<exists>j v g. lookup_job d i = Some j \<and> stored = Some v
         \<and> g = \<lparr>sig_id = next_signal d, sig_job = i, sig_name = name, sig_payload = v,
                sig_key = (if key = '''' then None else Some key), sig_at = pg_now e\<rparr>
         \<and> job_signals d' = job_signals d @ [g] \<and> mailbox d' i name = mailbox d i name @ [g]
         \<and> lookup_job d' i = Some (j\<lparr>run_after := min (run_after j) (pg_now e),
              wake_version := wake_version j + 1, updated_at := pg_now e\<rparr>)
         \<and> (\<forall>i'. i' \<noteq> i \<longrightarrow> lookup_job d' i' = lookup_job d i') \<and> job_steps d' = job_steps d"
    if accepted: "r = Inr ()" "\<not> dup"
  proof -
    obtain j v where j: "lookup_job d i = Some j" "stored = Some v" "live i j" "d' = signaled e i name v key d"
      using three [OF accepted] by blast
    then show ?thesis using signaled_facts [OF t j(1,3)]
      by (intro exI [where x = j] exI [where x = v] exI [where x = "new_signal e i name v key d"])
        (simp add: new_signal_def wake_row_def null_if_empty_def)
  qed
  with one two four show ?thesis by blast
qed

text \<open>
  A signal to the sample job is delivered, and after the job has finished and been signaled
  otherwise, the same key changes nothing.
\<close>

lemma signal_once_witness:
  "\<exists>d'. Signal (plain_env 45 '''') ''j1'' ''stop'' ''2'' ''k7'' sample_db = (Inr (), d')
     \<and> map sig_payload (mailbox d' ''j1'' ''stop'') = [''2'']
     \<and> map_option wake_version (lookup_job d' ''j1'') = Some 2
     \<and> Signal (plain_env 60 '''') ''j1'' ''stop'' ''3'' ''k7'' (run_ops sample_finish d') = (Inr (), run_ops sample_finish d')"
proof -
  let ?S = "Signal (plain_env 45 '''') ''j1'' ''stop'' ''2'' ''k7'' sample_db"
  define d' where "d' = snd ?S"
  have "fst ?S = Inr ()" by code_simp
  then have s: "?S = (Inr (), d')" by (simp add: prod_eq_iff d'_def)
  have "map_option status (lookup_job (run_ops sample_finish d') ''j1'') = Some StatusSucceeded"
    unfolding d'_def by code_simp
  then have there: "lookup_job (run_ops sample_finish d') ''j1'' \<noteq> None" by auto
  have seen: "map sig_payload (mailbox d' ''j1'' ''stop'') = [''2'']"
      "map_option wake_version (lookup_job d' ''j1'') = Some 2"
    unfolding d'_def by code_simp+
  have run: "clocked (pg_now (plain_env 45 '''')) sample_finish" "fresh_run ''j1'' sample_finish"
    by (simp_all add: sample_finish_def fresh_run_def)
  have time: "40 \<le> pg_now (plain_env 45 '''')" by simp
  note again = signal_once [OF sample_db_ok time s refl refl, of sample_finish "plain_env 60 ''''" "''3''",
    THEN conjunct2, THEN conjunct2, THEN conjunct2]
  have "snd (Signal (plain_env 60 '''') ''j1'' ''stop'' ''3'' ''k7'' (run_ops sample_finish d')) = run_ops sample_finish d'"
    "fst (Signal (plain_env 60 '''') ''j1'' ''stop'' ''3'' ''k7'' (run_ops sample_finish d')) = Inr ()"
    using again run there by auto
  then have "Signal (plain_env 60 '''') ''j1'' ''stop'' ''3'' ''k7'' (run_ops sample_finish d') = (Inr (), run_ops sample_finish d')"
    by (metis prod.collapse)
  with s seen show ?thesis by (intro exI [where x = d'] conjI)
qed

section \<open>The sweep and retention\<close>

lemma dead_row_simps [simp]:
  "status (dead_row e j) = StatusDeadLetter" "attempt (dead_row e j) = attempt j"
  "completed_at (dead_row e j) = Some (pg_now e)" "lease_owner (dead_row e j) = None"
  "lease_expires_at (dead_row e j) = None"
  by (simp_all add: dead_row_def)

lemma Sweep_InrD:
  assumes "DeadLetterExhausted e d = (Inr ids, d')"
  shows "ids = (if advisory e ''workrail:dead_letter_sweep''
      then map job_id (returning e (filter (\<lambda>j. exhausted e j \<and> \<not> row_locked e (job_id j)) (jobs d))) else [])"
    and "jobs d' = update_where (\<lambda>j. job_id j \<in> set ids) (dead_row e) (jobs d)"
  using assms unfolding DeadLetterExhausted_def Let_def
  by (auto dest!: withTx_InrD append_events_frame simp: update_where_none split: sum.splits if_splits simp del: set_map)

lemma sweep_row:
  assumes "tables_ok d" and "DeadLetterExhausted e d = (Inr ids, d')"
    and "advisory e ''workrail:dead_letter_sweep''" and j: "j \<in> set (jobs d)"
  shows "if exhausted e j \<and> \<not> row_locked e (job_id j)
      then job_id j \<in> set ids \<and> lookup_job d' (job_id j) = Some (dead_row e j)
      else job_id j \<notin> set ids \<and> lookup_job d' (job_id j) = Some j"
proof -
  have l: "lookup_job d (job_id j) = Some j" using lookup_job_iff [OF assms(1)] j by simp
  let ?cs = "returning e (filter (\<lambda>j. exhausted e j \<and> \<not> row_locked e (job_id j)) (jobs d))"
  have ids: "ids = map job_id ?cs" using Sweep_InrD(1) [OF assms(2)] assms(3) by simp
  have "job_id j \<in> set ids \<longleftrightarrow> exhausted e j \<and> \<not> row_locked e (job_id j)"
  proof
    assume "job_id j \<in> set ids"
    then have "j \<in> set ?cs" unfolding ids by (intro selected_by_id [OF assms(1) _ j]) auto
    then show "exhausted e j \<and> \<not> row_locked e (job_id j)" by simp
  qed (use j in \<open>simp add: ids\<close>)
  moreover have "lookup_job d' (job_id j) = lookup_job (update_jobs (\<lambda>j. job_id j \<in> set ids) (dead_row e) d) (job_id j)"
    using Sweep_InrD(2) [OF assms(2)] by (simp add: lookup_job_def)
  ultimately show "if exhausted e j \<and> \<not> row_locked e (job_id j)
      then job_id j \<in> set ids \<and> lookup_job d' (job_id j) = Some (dead_row e j)
      else job_id j \<notin> set ids \<and> lookup_job d' (job_id j) = Some j"
    by (simp add: lookup_update_this l)
qed

text \<open>
  C15: The sweep dead-letters exactly the jobs that are stuck: the process that gets the
  sweep's lock moves every unlocked running job whose lease has expired and whose attempts
  are spent to the dead-letter state, reports those ids, and changes no other job; a job
  with attempts left is left to the next claim.
\<close>

theorem sweep_correct:
  assumes "tables_ok d" and "DeadLetterExhausted e d = (Inr ids, d')"
    and "advisory e ''workrail:dead_letter_sweep''"
  shows "\<forall>j\<in>set (jobs d). \<exists>k. lookup_job d' (job_id j) = Some k \<and>
     (if status j = StatusRunning \<and> (\<exists>t. lease_expires_at j = Some t \<and> t < pg_now e)
         \<and> max_attempts j \<le> attempt j \<and> \<not> row_locked e (job_id j)
      then job_id j \<in> set ids \<and> status k = StatusDeadLetter \<and> attempt k = attempt j
         \<and> lease_owner k = None \<and> lease_expires_at k = None \<and> completed_at k = Some (pg_now e)
         \<and> job_error k \<noteq> None \<and> same_identity j k
      else job_id j \<notin> set ids \<and> k = j)"
proof
  fix j assume j: "j \<in> set (jobs d)"
  have "job_error (dead_row e j) \<noteq> None" by (simp add: dead_row_def split: option.split)
  with sweep_row [OF assms j] show "\<exists>k. lookup_job d' (job_id j) = Some k \<and>
     (if status j = StatusRunning \<and> (\<exists>t. lease_expires_at j = Some t \<and> t < pg_now e)
         \<and> max_attempts j \<le> attempt j \<and> \<not> row_locked e (job_id j)
      then job_id j \<in> set ids \<and> status k = StatusDeadLetter \<and> attempt k = attempt j
         \<and> lease_owner k = None \<and> lease_expires_at k = None \<and> completed_at k = Some (pg_now e)
         \<and> job_error k \<noteq> None \<and> same_identity j k
      else job_id j \<notin> set ids \<and> k = j)"
    unfolding exhausted_def before_iff by (simp split: if_splits)
qed

text \<open>
  The sample job with a budget of one attempt, abandoned by its worker: after the lease
  has expired the sweep finds it.
\<close>

definition spent_start :: "(senv \<times> store_op) list" where
  "spent_start =
     [(plain_env 10 ''j1'', OpEnqueue (zero_request\<lparr>rq_type := ''echo'', rq_run_after := 5, rq_max_attempts := 1\<rparr>)),
      (plain_env 20 '''', OpClaim sample_claim)]"

definition spent_db :: db where
  "spent_db = run_ops spent_start empty_db"

lemma spent_db_ok: "db_ok 20 spent_db"
  using run_ops_db_ok [OF db_ok_empty, of 0 spent_start] by (simp add: spent_db_def spent_start_def)

lemma sweep_correct_witness:
  "\<exists>ids d'. DeadLetterExhausted late_env spent_db = (Inr ids, d') \<and> ids = [''j1'']
     \<and> map_option status (lookup_job d' ''j1'') = Some StatusDeadLetter"
proof -
  have f: "fst (DeadLetterExhausted late_env spent_db) = Inr [''j1'']" by code_simp
  define d' where "d' = snd (DeadLetterExhausted late_env spent_db)"
  from f have s: "DeadLetterExhausted late_env spent_db = (Inr [''j1''], d')" by (simp add: prod_eq_iff d'_def)
  have "map job_id (jobs spent_db) = [''j1'']" by code_simp
  then obtain j where j: "j \<in> set (jobs spent_db)" "job_id j = ''j1''" by auto
  have "advisory late_env ''workrail:dead_letter_sweep''" by (simp add: late_env_def)
  from sweep_correct [OF db_okD(1) [OF spent_db_ok] s this] j
  obtain k where "lookup_job d' ''j1'' = Some k" "''j1'' \<notin> set [''j1''] \<or> status k = StatusDeadLetter"
    by (metis (no_types, lifting))
  with s show ?thesis by simp
qed

lemma orphan_Nil [simp]: "orphan [] = (\<lambda>j. j)"
  by (auto simp: orphan_def fun_eq_iff split: option.splits)

lemma delete_jobs_Nil [simp]: "delete_jobs [] d = d"
  by (simp add: delete_jobs_def)

definition prune_batch :: "senv \<Rightarrow> string \<Rightarrow> duration \<Rightarrow> db \<Rightarrow> job list" where
  "prune_batch e q older d =
     (if older \<le> 0 \<or> \<not> advisory e (''workrail:prune:'' @ q) then []
      else take pruneBatchSize (scanned e (filter (prunable e q older) (jobs d))))"

lemma Prune_InrD:
  "PruneCompleted e q older d = (Inr n, d') \<Longrightarrow>
   d' = delete_jobs (map job_id (prune_batch e q older d)) d \<and> n = int (length (prune_batch e q older d))"
  by (auto simp: PruneCompleted_def prune_batch_def Let_def dest!: withTx_InrD split: if_splits)

lemma delete_jobs_history:
  "i \<in> set gone \<Longrightarrow> \<forall>g\<in>set (job_signals (delete_jobs gone d)). sig_job g \<noteq> i"
  "i \<in> set gone \<Longrightarrow> \<forall>v\<in>set (job_events (delete_jobs gone d)). ev_job v \<noteq> i"
  by (auto simp: delete_jobs_def)

text \<open>Rows with distinct keys, selected by the keys of some of them.\<close>

lemma length_selected:
  assumes "distinct (map key rows)" and "distinct (map key cs)" and "set cs \<subseteq> set rows"
  shows "length (filter (\<lambda>r. key r \<in> set (map key cs)) rows) = length cs"
proof -
  have "map key (filter (\<lambda>r. key r \<in> set (map key cs)) rows) = filter (\<lambda>x. x \<in> set (map key cs)) (map key rows)"
    by (simp add: filter_map comp_def)
  then have "length (filter (\<lambda>r. key r \<in> set (map key cs)) rows)
      = card (set (filter (\<lambda>x. x \<in> set (map key cs)) (map key rows)))"
    using assms(1) by (metis distinct_card distinct_filter length_map)
  also have "set (filter (\<lambda>x. x \<in> set (map key cs)) (map key rows)) = set (map key cs)"
    using assms(3) by auto
  also have "card \<dots> = length cs" using distinct_card [OF assms(2)] by simp
  finally show ?thesis .
qed

lemma prune_batch_facts:
  "j \<in> set (prune_batch e q older d) \<Longrightarrow> j \<in> set (jobs d) \<and> prunable e q older j"
  "length (prune_batch e q older d) \<le> pruneBatchSize"
  by (auto simp: prune_batch_def dest: in_set_takeD split: if_splits)

text \<open>
  C16: Retention deletes only what is finished with. A prune removes at most a batch of
  5000 jobs, each of the given queue, succeeded or canceled, and finished before the
  cutoff; their steps, signals and events go with them, every other job and its history
  stays (a dead-lettered job in particular), the count it answers is the number removed,
  and without a positive retention it removes nothing.
\<close>

theorem prune_correct:
  assumes "tables_ok d" and "PruneCompleted e q older d = (Inr n, d')"
  shows "0 \<le> n \<and> n \<le> 5000 \<and> (older \<le> 0 \<longrightarrow> d' = d)
    \<and> int (length (jobs d')) + n = int (length (jobs d))
    \<and> (\<forall>j\<in>set (jobs d).
         if lookup_job d' (job_id j) = None
         then queue j = q \<and> status j \<in> {StatusSucceeded, StatusCanceled}
              \<and> (\<exists>t. completed_at j = Some t \<and> t < pg_now e - pgInterval older)
              \<and> (\<forall>name. lookup_step d' (job_id j) name = None)
              \<and> (\<forall>g\<in>set (job_signals d'). sig_job g \<noteq> job_id j) \<and> (\<forall>v\<in>set (job_events d'). ev_job v \<noteq> job_id j)
         else (\<exists>k. lookup_job d' (job_id j) = Some k \<and> unchanged j k)
              \<and> (\<forall>name. lookup_step d' (job_id j) name = lookup_step d (job_id j) name))"
proof (intro conjI ballI impI)
  let ?b = "prune_batch e q older d"
  have d': "d' = delete_jobs (map job_id ?b) d" and n: "n = int (length ?b)"
    using Prune_InrD [OF assms(2)] by blast+
  show "0 \<le> n" and "n \<le> 5000" using prune_batch_facts(2) by (simp_all add: n pruneBatchSize_def)
  show "d' = d" if "older \<le> 0" using that by (simp add: d' prune_batch_def)
  have ids: "distinct (map job_id (jobs d))" using tables_ok_ids [OF assms(1)] by (simp add: job_ids_def)
  have db: "distinct (map job_id ?b)"
    using distinct_map_filter_key [OF ids, of "prunable e q older"]
    by (simp add: prune_batch_def distinct_take flip: take_map)
  have "length (filter (\<lambda>j. job_id j \<in> set (map job_id ?b)) (jobs d)) = length ?b"
    by (rule length_selected [OF ids db]) (use prune_batch_facts(1) in blast)
  then show "int (length (jobs d')) + n = int (length (jobs d))"
    using sum_length_filter_compl [of "\<lambda>j. job_id j \<in> set (map job_id ?b)" "jobs d"]
    by (simp add: d' n delete_jobs_def del: set_map)
  fix j assume j: "j \<in> set (jobs d)"
  then have l: "lookup_job d (job_id j) = Some j" using lookup_job_iff [OF assms(1)] by simp
  have gone: "job_id j \<in> set (map job_id ?b) \<Longrightarrow> prunable e q older j"
    using selected_by_id [OF assms(1) _ j, of ?b] prune_batch_facts(1) by blast
  have stay: "unchanged j (orphan (map job_id ?b) j)"
    by (rule unchanged_orphan) (simp add: unchanged_def)
  show "if lookup_job d' (job_id j) = None
       then queue j = q \<and> status j \<in> {StatusSucceeded, StatusCanceled}
            \<and> (\<exists>t. completed_at j = Some t \<and> t < pg_now e - pgInterval older)
            \<and> (\<forall>name. lookup_step d' (job_id j) name = None)
            \<and> (\<forall>g\<in>set (job_signals d'). sig_job g \<noteq> job_id j) \<and> (\<forall>v\<in>set (job_events d'). ev_job v \<noteq> job_id j)
       else (\<exists>k. lookup_job d' (job_id j) = Some k \<and> unchanged j k)
            \<and> (\<forall>name. lookup_step d' (job_id j) name = lookup_step d (job_id j) name)"
  proof (cases "job_id j \<in> set (map job_id ?b)")
    case True
    then show ?thesis
      using gone delete_jobs_history
      by (simp add: d' lookup_job_delete lookup_step_delete prunable_def before_iff del: set_map)
  next
    case False
    then show ?thesis using stay by (simp add: d' lookup_job_delete lookup_step_delete l del: set_map)
  qed
qed

lemma prune_correct_witness:
  "\<exists>n d'. PruneCompleted (plain_env 5000000000 '''') ''default'' second (run_ops sample_finish sample_db) = (Inr n, d')
     \<and> n = 1 \<and> jobs d' = [] \<and> n \<le> 5000"
proof -
  let ?e = "plain_env 5000000000 ''''" and ?d = "run_ops sample_finish sample_db"
  have f: "fst (PruneCompleted ?e ''default'' second ?d) = Inr 1" "length (jobs ?d) = 1" by code_simp+
  define d' where "d' = snd (PruneCompleted ?e ''default'' second ?d)"
  from f have p: "PruneCompleted ?e ''default'' second ?d = (Inr 1, d')" by (simp add: prod_eq_iff d'_def)
  have ok: "tables_ok ?d"
    using run_ops_db_ok [OF sample_db_ok, of sample_finish] by (simp add: sample_finish_def db_ok_def)
  from prune_correct [OF ok p] f have "jobs d' = []" and "(1::int) \<le> 5000" by simp_all
  with p show ?thesis by blast
qed

section \<open>Completion and the limits of fencing\<close>

lemma complete_accepted:
  assumes "tables_ok d" and j: "lookup_job d i = Some j" and held: "held_by i w j"
    and "link e 0 = Acked" and "link e 1 = Acked" and "jsonb e (if res = '''' then ''{}'' else res) = Some r"
  shows "\<exists>d'. Complete e i w res d = (Inr (), d') \<and> lookup_job d' i = Some (complete_row e r j)
    \<and> (\<forall>i'. i' \<noteq> i \<longrightarrow> lookup_job d' i' = lookup_job d i')"
proof -
  let ?u = "update_jobs (held_by i w) (complete_row e r) d"
  let ?d' = "insert_event e i ''job.succeeded'' (Fields []) ?u"
  have "rows_affected (held_by i w) d \<noteq> 0"
    using held lookup_job_in [OF j] by (auto simp: rows_affected_0)
  moreover have u: "lookup_job ?u i = Some (complete_row e r j)"
    using held by (simp add: lookup_update_this j)
  ultimately have "Complete e i w res d = (Inr (), ?d')"
    unfolding Complete_def Let_def using assms(4-6) by (simp add: appendEvent_ok)
  moreover have "lookup_job ?u i' = lookup_job d i'" if "i' \<noteq> i" for i'
    using that by (intro lookup_update_other) (auto simp: held_by_def)
  ultimately show ?thesis using u by (intro exI [where x = ?d']) simp
qed

text \<open>
  C17: Fencing goes by the worker id, not by the lease. When a worker's lease expires and
  a claim under the same worker id takes the job again, the first execution's completion
  is accepted in the second one's place, and the completion of the second is then refused.
\<close>

theorem fencing_by_worker_id:
  assumes "tables_ok d" and "lookup_job d i = Some j" and "held_by i w j"
    and "before (lease_expires_at j) (pg_now e)"
    and "Claim e options d = (Inr cs, d1)" and "co_worker options = w" and "k \<in> set cs" and "job_id k = i"
    and "link e' 0 = Acked" and "link e' 1 = Acked" and "jsonb e' (if res = '''' then ''{}'' else res) = Some r"
  shows "\<exists>d2 l. Complete e' i w res d1 = (Inr (), d2) \<and> lookup_job d2 i = Some l
    \<and> status l = StatusSucceeded \<and> job_result l = Some r \<and> attempt l = attempt j + 1
    \<and> (\<forall>e'' res'. \<exists>err. Complete e'' i w res' d2 = (Inl err, d2))"
proof -
  let ?o = "claim_defaults options"
  have ok1: "tables_ok d1"
    using effects_tables_ok [OF apply_op_effects [OF assms(1), of e "OpClaim options"] assms(1)] assms(5) by simp
  obtain c where c: "c \<in> set (claim_candidates e ?o d)" "k = claim_row e ?o c"
    using assms(7) Claim_InrD(1) [OF assms(5)] by auto
  then have "c = j"
    using candidate_claimable(1) [OF c(1)] held_by_unique [OF assms(1)] lookup_job_in [OF assms(2)]
      lookup_job_id [OF assms(2)] assms(8) by (metis job_id_rows(1))
  have "lookup_job d1 i = Some k"
    using lookup_job_jobs [OF Claim_InrD(2) [OF assms(5)]] assms(2) c \<open>c = j\<close> lookup_job_id [OF assms(2)]
    by (force simp: lookup_update_this)
  moreover have "co_worker ?o = w" using assms(6) by (simp add: claim_defaults_def Let_def)
  then have "held_by i w k" using c assms(8) by (simp add: held_by_def)
  ultimately obtain d2 where d2: "Complete e' i w res d1 = (Inr (), d2)" "lookup_job d2 i = Some (complete_row e' r k)"
    using complete_accepted [OF ok1 _ _ assms(9-11)] by blast
  have ok2: "tables_ok d2"
    using effects_tables_ok [OF apply_op_effects [OF ok1, of e' "OpComplete i w res"] ok1] d2 by simp
  have "\<not> held_by i w l" if "l \<in> set (jobs d2)" for l
    using that lookup_job_iff [OF ok2, of i l] d2(2) by (auto simp: held_by_def complete_row_def)
  then have "rows_affected (held_by i w) d2 = 0" "update_jobs (held_by i w) f d2 = d2" for f
    by (auto simp: rows_affected_0 update_jobs_def update_where_none)
  then have "\<exists>err. Complete e'' i w res' d2 = (Inl err, d2)" for e'' res'
    by (auto simp: Complete_def withTx_def Let_def split: outcome.split option.split)
  with d2 show ?thesis using c \<open>c = j\<close> by (simp add: complete_row_def)
qed

lemma fencing_by_worker_id_witness:
  "held_by ''j1'' ''w1'' sample_job \<and> before (lease_expires_at sample_job) (pg_now late_env) \<and>
   (\<exists>d2 l. Complete (plain_env 60000000040 '''') ''j1'' ''w1'' ''1'' late_db = (Inr (), d2)
     \<and> lookup_job d2 ''j1'' = Some l \<and> attempt l = 2
     \<and> (\<forall>e'' res'. \<exists>err. Complete e'' ''j1'' ''w1'' res' d2 = (Inl err, d2)))"
proof (intro conjI)
  show h: "held_by ''j1'' ''w1'' sample_job" and b: "before (lease_expires_at sample_job) (pg_now late_env)"
    by (simp_all add: held_by_def sample_job_def late_env_def)
  have "\<exists>d2 l. Complete (plain_env 60000000040 '''') ''j1'' ''w1'' ''1'' late_db = (Inr (), d2)
      \<and> lookup_job d2 ''j1'' = Some l \<and> status l = StatusSucceeded \<and> job_result l = Some ''1''
      \<and> attempt l = attempt sample_job + 1
      \<and> (\<forall>e'' res'. \<exists>err. Complete e'' ''j1'' ''w1'' res' d2 = (Inl err, d2))"
    by (rule fencing_by_worker_id [OF sample_tables_ok sample_lookup h b late_claim, where k = late_job])
      (simp_all add: sample_claim_def late_job_simps)
  then show "\<exists>d2 l. Complete (plain_env 60000000040 '''') ''j1'' ''w1'' ''1'' late_db = (Inr (), d2)
     \<and> lookup_job d2 ''j1'' = Some l \<and> attempt l = 2
     \<and> (\<forall>e'' res'. \<exists>err. Complete e'' ''j1'' ''w1'' res' d2 = (Inl err, d2))"
    by (auto simp: sample_job_def)
qed

section \<open>The operator\<close>

lemma cancel_outcome:
  assumes "tables_ok d" and j: "lookup_job d i = Some j" and "link e 0 = Acked" and "link e 1 = Acked"
  shows "if status j \<in> {StatusSucceeded, StatusDeadLetter, StatusCanceled}
    then Cancel e i d = (Inl (Sentinel ErrInvalidTransition), d)
    else \<exists>d'. Cancel e i d = (Inr (), d') \<and> lookup_job d' i = Some (cancel_row e j)"
proof (cases "live i j")
  case True
  then have "rows_affected (live i) d \<noteq> 0" using lookup_job_in [OF j] by (auto simp: rows_affected_0)
  with True assms(3,4) show ?thesis
    by (auto simp: Cancel_def appendEvent_ok lookup_update_this j live_def)
next
  case False
  then have none: "rows_affected (live i) d = 0"
    using only_row [OF assms(1) j] by (auto simp: rows_affected_0 live_def)
  with False update_jobs_none [OF none] lookup_job_id [OF j] assms(3) show ?thesis
    by (auto simp: Cancel_def live_def)
qed

lemma retry_outcome:
  assumes "tables_ok d" and j: "lookup_job d i = Some j" and "link e 0 = Acked" and "link e 1 = Acked"
  shows "if status j \<noteq> StatusDeadLetter
    then RetryDeadLetter e i d = (Inl (Sentinel ErrInvalidTransition), d)
    else \<exists>d'. RetryDeadLetter e i d = (Inr (retry_row e j), d') \<and> lookup_job d' i = Some (retry_row e j)"
proof (cases "dead_letter i j")
  case True
  then have "find (dead_letter i) (jobs d) = Some j"
    using find_held [of d i j "dead_letter i"] assms(1) j by (simp add: dead_letter_def)
  moreover have "lookup_job (update_jobs (dead_letter i) (retry_row e) d) i = Some (retry_row e j)"
    using True by (simp add: lookup_update_this j)
  moreover have "job_id j = i" "status j = StatusDeadLetter" using True by (simp_all add: dead_letter_def)
  ultimately show ?thesis using assms(3,4) by (simp add: RetryDeadLetter_def appendEvent_ok)
next
  case False
  then have "find (dead_letter i) (jobs d) = None"
    using only_row [OF assms(1) j] by (auto simp: find_None_iff dead_letter_def)
  with False lookup_job_id [OF j] assms(3) show ?thesis by (auto simp: RetryDeadLetter_def dead_letter_def)
qed

lemma replay_outcome:
  assumes "lookup_job d i = Some j" and "link e 0 = Acked" and "link e 1 = Acked"
  shows "if lookup_job d (new_uuid e) \<noteq> None
    then Replay e i d = (Inl primary_key_error, d)
    else \<exists>d'. Replay e i d = (Inr (replay_job e j), d') \<and> lookup_job d' i = Some j
      \<and> lookup_job d' (new_uuid e) = Some (replay_job e j)"
proof -
  have "job_id (replay_job e j) = new_uuid e" by (simp add: replay_job_def)
  with assms show ?thesis by (auto simp: Replay_def appendEvent_ok lookup_job_insert)
qed

text \<open>
  The operator's operations do what they say. Cancel ends any job that is not
  finished and revokes its lease; retry gives a dead-lettered job, and no other, a fresh
  attempt budget and makes it due at once; replay leaves the job as it is and adds a new
  one with its queue, type, payload and budget. What the status forbids is refused with
  an error and changes nothing.
\<close>

lemma operator_operations:
  assumes "tables_ok d" and "lookup_job d i = Some j" and "link e 0 = Acked" and "link e 1 = Acked"
  shows "(if status j \<in> {StatusSucceeded, StatusDeadLetter, StatusCanceled}
      then Cancel e i d = (Inl (Sentinel ErrInvalidTransition), d)
      else \<exists>d'. Cancel e i d = (Inr (), d') \<and> lookup_job d' i = Some (cancel_row e j))
    \<and> (if status j \<noteq> StatusDeadLetter
      then RetryDeadLetter e i d = (Inl (Sentinel ErrInvalidTransition), d)
      else \<exists>d'. RetryDeadLetter e i d = (Inr (retry_row e j), d') \<and> lookup_job d' i = Some (retry_row e j))
    \<and> (if lookup_job d (new_uuid e) \<noteq> None
      then Replay e i d = (Inl primary_key_error, d)
      else \<exists>d'. Replay e i d = (Inr (replay_job e j), d') \<and> lookup_job d' i = Some j
        \<and> lookup_job d' (new_uuid e) = Some (replay_job e j))"
  using cancel_outcome [OF assms] retry_outcome [OF assms] replay_outcome [OF assms(2-4)] by blast

lemma operator_operations_witness:
  "\<exists>d'. Cancel (plain_env 50 ''j9'') ''j1'' sample_db = (Inr (), d')
     \<and> lookup_job d' ''j1'' = Some (cancel_row (plain_env 50 ''j9'') sample_job)"
  using operator_operations [OF sample_tables_ok sample_lookup, of "plain_env 50 ''j9''"]
  by (simp add: sample_job_def)

end
