(* ===== verification/Progress.thy ===== *)
theory Progress
  imports Contracts
begin

text \<open>
  What a queue of durable jobs promises, in the abstract, and that the store keeps it: the
  life of a job as an automaton over its remaining attempts, which every run of the store
  refines; the budget of executions that follows; and that polling drains a queue.
\<close>

section \<open>The life of a job\<close>

text \<open>The attempts a waiting or leased job has left; nothing else of the row matters.\<close>

datatype life = Waiting nat | Leased nat | Succeeded | Dead | Canceled

text \<open>
  What each operation does to the life of job \<open>i\<close>, whose budget is \<open>m\<close> attempts, when it
  acts on it; None where it must not act.
\<close>

fun life_after :: "nat \<Rightarrow> string \<Rightarrow> store_op \<Rightarrow> life \<Rightarrow> life option" where
  "life_after m i (OpClaim opts) l =
     (case l of Waiting (Suc n) \<Rightarrow> Some (Leased n) | Leased (Suc n) \<Rightarrow> Some (Leased n) | _ \<Rightarrow> None)"
| "life_after m i OpDeadLetterExhausted l = (if l = Leased 0 then Some Dead else None)"
| "life_after m i (OpSuspend i' w ra version) l =
     (case l of Leased n \<Rightarrow> if i' = i then Some (Waiting (Suc n)) else None | _ \<Rightarrow> None)"
| "life_after m i (OpComplete i' w res) l =
     (case l of Leased n \<Rightarrow> if i' = i then Some Succeeded else None | _ \<Rightarrow> None)"
| "life_after m i (OpFail i' w cause) l =
     (case l of
        Leased n \<Rightarrow>
          if i' \<noteq> i then None else if IsPermanent cause \<or> n = 0 then Some Dead else Some (Waiting n)
      | _ \<Rightarrow> None)"
| "life_after m i (OpCancel i') l =
     (case l of
        Waiting n \<Rightarrow> if i' = i then Some Canceled else None
      | Leased n \<Rightarrow> if i' = i then Some Canceled else None
      | _ \<Rightarrow> None)"
| "life_after m i (OpRetryDeadLetter i') l = (if i' = i \<and> l = Dead then Some (Waiting m) else None)"
| "life_after m i a l = None"

text \<open>
  What an operation's answer tells about job \<open>i\<close>: that it was acted on, that it was not,
  or neither, when an error was answered and the connection did fail.
\<close>

datatype verdict = Acted | Untouched | Unsure

definition judge :: "senv \<Rightarrow> ('a \<Rightarrow> bool) \<Rightarrow> goerr + 'a \<Rightarrow> verdict" where
  "judge e touched r =
     (case r of
        Inr x \<Rightarrow> if touched x then Acted else Untouched
      | Inl err \<Rightarrow> if link e 0 = Acked \<and> link e 1 = Acked then Untouched else Unsure)"

fun verdict_on :: "string \<Rightarrow> senv \<Rightarrow> store_op \<Rightarrow> db \<Rightarrow> verdict" where
  "verdict_on i e (OpClaim opts) d = judge e (\<lambda>cs. i \<in> set (map job_id cs)) (fst (Claim e opts d))"
| "verdict_on i e OpDeadLetterExhausted d = judge e (\<lambda>ids. i \<in> set ids) (fst (DeadLetterExhausted e d))"
| "verdict_on i e (OpSuspend i' w ra version) d =
     judge e (\<lambda>parked. parked \<and> i' = i) (fst (Suspend e i' w ra version d))"
| "verdict_on i e (OpComplete i' w res) d = judge e (\<lambda>_. i' = i) (fst (Complete e i' w res d))"
| "verdict_on i e (OpFail i' w cause) d = judge e (\<lambda>_. i' = i) (fst (Fail e i' w cause d))"
| "verdict_on i e (OpCancel i') d = judge e (\<lambda>_. i' = i) (fst (Cancel e i' d))"
| "verdict_on i e (OpRetryDeadLetter i') d = judge e (\<lambda>_. i' = i) (fst (RetryDeadLetter e i' d))"
| "verdict_on i e a d = Untouched"

fun transcript :: "string \<Rightarrow> (senv \<times> store_op) list \<Rightarrow> db \<Rightarrow> (store_op \<times> verdict) list" where
  "transcript i [] d = []"
| "transcript i ((e, a) # ops) d = (a, verdict_on i e a d) # transcript i ops (apply_op e a d)"

text \<open>
  The lives of a job that agree with such a transcript: an operation that acted takes its
  transition, one that did not leaves the life as it is, and only an answer lost with the
  connection leaves both open.
\<close>

inductive life_run :: "nat \<Rightarrow> string \<Rightarrow> (store_op \<times> verdict) list \<Rightarrow> life \<Rightarrow> life \<Rightarrow> bool" for m i where
  lr_end: "life_run m i [] l l"
| lr_act: "life_after m i a l = Some l1 \<Longrightarrow> v \<noteq> Untouched \<Longrightarrow> life_run m i ops l1 l2 \<Longrightarrow>
    life_run m i ((a, v) # ops) l l2"
| lr_idle: "v \<noteq> Acted \<Longrightarrow> life_run m i ops l l2 \<Longrightarrow> life_run m i ((a, v) # ops) l l2"

inductive_cases life_run_NilE [elim!]: "life_run m i [] l l2"
inductive_cases life_run_ConsE: "life_run m i ((a, v) # ops) l l2"

definition attempts_left :: "job \<Rightarrow> nat" where
  "attempts_left j = nat (max_attempts j - attempt j)"

definition life_of :: "job \<Rightarrow> life" where
  "life_of j =
     (case status j of
        StatusQueued \<Rightarrow> Waiting (attempts_left j)
      | StatusRetrying \<Rightarrow> Waiting (attempts_left j)
      | StatusRunning \<Rightarrow> Leased (attempts_left j)
      | StatusSucceeded \<Rightarrow> Succeeded
      | StatusFailed \<Rightarrow> Dead
      | StatusDeadLetter \<Rightarrow> Dead
      | StatusCanceled \<Rightarrow> Canceled)"

lemma life_after_done [simp]: "life_after m i a Succeeded = None" "life_after m i a Canceled = None"
  by (cases a; simp)+

lemma life_run_done:
  assumes "life_run m i ops l l'" and "l \<in> {Succeeded, Canceled}"
  shows "l' = l"
  using assms by (induction rule: life_run.induct) auto

text \<open>The part of a row's well-formedness the automaton needs, which does not mention the clock.\<close>

definition counted :: "job \<Rightarrow> bool" where
  "counted j \<longleftrightarrow> 1 \<le> max_attempts j \<and> 0 \<le> attempt j \<and> attempt j \<le> max_attempts j
     \<and> (status j = StatusRunning \<longrightarrow> 1 \<le> attempt j)
     \<and> (status j \<in> {StatusQueued, StatusRetrying} \<longrightarrow> attempt j < max_attempts j)
     \<and> status j \<noteq> StatusFailed"

lemma job_ok_counted: "job_ok now j \<Longrightarrow> counted j"
  by (simp add: job_ok_def counted_def)

text \<open>The transition of each statement, row by row.\<close>

lemma life_claim:
  assumes "claimable e q j" and "counted j"
  shows "life_after m i (OpClaim options) (life_of j) = Some (life_of (claim_row e opts j))"
proof -
  have "attempt j < max_attempts j"
    using assms by (cases "status j") (auto simp: claimable_def counted_def)
  then have "attempts_left j = Suc (attempts_left (claim_row e opts j))"
    by (simp add: attempts_left_def claim_row_def)
  moreover have "life_of (claim_row e opts j) = Leased (attempts_left (claim_row e opts j))"
    by (simp add: life_of_def)
  ultimately show ?thesis using assms(1)
    by (cases "status j") (auto simp: claimable_def life_of_def)
qed

lemma life_dead: "exhausted e j \<Longrightarrow> life_after m i OpDeadLetterExhausted (life_of j) = Some (life_of (dead_row e j))"
  by (simp add: exhausted_def life_of_def attempts_left_def)

lemma life_suspend:
  assumes "held_by i w j" and "counted j"
  shows "life_after m i (OpSuspend i w ra version) (life_of j) = Some (life_of (suspend_row e ra j))"
proof -
  have "attempts_left (suspend_row e ra j) = Suc (attempts_left j)"
    using assms by (auto simp: attempts_left_def suspend_row_def held_by_def counted_def)
  moreover have "status (suspend_row e ra j) = StatusQueued" by (simp add: suspend_row_def)
  ultimately show ?thesis using assms(1) by (simp add: life_of_def held_by_def)
qed

lemma life_complete:
  "held_by i w j \<Longrightarrow> life_after m i (OpComplete i w res) (life_of j) = Some (life_of (complete_row e r j))"
  by (simp add: held_by_def life_of_def complete_row_def)

lemma life_fail:
  assumes "held_by i w j"
  shows "life_after m i (OpFail i w cause) (life_of j) =
    Some (life_of (fail_row e (NextStatusAfterFailure (attempt j) (max_attempts j) cause) msg ra j))"
proof -
  have "attempts_left (fail_row e s msg ra j) = attempts_left j" "status (fail_row e s msg ra j) = s" for s
    by (simp_all add: attempts_left_def fail_row_def)
  moreover have "attempts_left j = 0 \<longleftrightarrow> max_attempts j \<le> attempt j" by (simp add: attempts_left_def)
  ultimately show ?thesis using assms by (simp add: held_by_def life_of_def NextStatusAfterFailure_def)
qed

lemma life_cancel:
  assumes "live i j" and "counted j"
  shows "life_after m i (OpCancel i) (life_of j) = Some (life_of (cancel_row e j))"
  using assms by (cases "status j") (simp_all add: live_def counted_def life_of_def cancel_row_def)

lemma life_retry:
  assumes "dead_letter i j"
  shows "life_after (nat (max_attempts j)) i (OpRetryDeadLetter i) (life_of j) = Some (life_of (retry_row e j))"
proof -
  have "attempts_left (retry_row e j) = nat (max_attempts j)" "status (retry_row e j) = StatusQueued"
    by (simp_all add: attempts_left_def retry_row_def)
  then show ?thesis using assms by (simp add: dead_letter_def life_of_def)
qed

text \<open>
  A call of one or two units of work, judged by its answer: \<open>kept\<close> holds of the state when
  it did not act and \<open>acted\<close> when it did.
\<close>

lemma judge_withTx:
  assumes "kept d"
    and "\<And>x d'. body d = Inr (x, d') \<Longrightarrow> (if touched x then acted d' else kept d')"
  shows "(kept (snd (withTx e 0 body d)) \<and> judge e touched (fst (withTx e 0 body d)) \<noteq> Acted)
    \<or> (acted (snd (withTx e 0 body d)) \<and> judge e touched (fst (withTx e 0 body d)) \<noteq> Untouched)"
proof (cases "body d")
  case (Inr y)
  then obtain x d' where b: "body d = Inr (x, d')" by (cases y) auto
  then show ?thesis using assms(1) assms(2) [OF b]
    by (cases "link e 0"; cases "touched x") (simp_all add: withTx_def judge_def)
qed (use assms(1) in \<open>cases "link e 0"; simp add: withTx_def judge_def\<close>)

lemma judge_and_then:
  assumes "kept d"
    and "\<And>x d'. body d = Inr (x, d') \<Longrightarrow> (if sel x then acted d' else kept d')"
    and "\<And>x d'. body d = Inr (x, d') \<Longrightarrow> \<not> sel x \<Longrightarrow>
      kept (snd (k x d')) \<and> (\<forall>y. fst (k x d') = Inr y \<longrightarrow> \<not> touched y)"
    and "\<And>x d'. body d = Inr (x, d') \<Longrightarrow> sel x \<Longrightarrow> acted (snd (k x d')) \<and>
      (case fst (k x d') of Inl err \<Rightarrow> link e 1 \<noteq> Acked | Inr y \<Rightarrow> touched y)"
  shows "(kept (snd (and_then (withTx e 0 body d) k)) \<and> judge e touched (fst (and_then (withTx e 0 body d) k)) \<noteq> Acted)
    \<or> (acted (snd (and_then (withTx e 0 body d) k)) \<and> judge e touched (fst (and_then (withTx e 0 body d) k)) \<noteq> Untouched)"
proof (cases "body d")
  case (Inr y)
  then obtain x d' where b: "body d = Inr (x, d')" by (cases y) auto
  show ?thesis
  proof (cases "link e 0 = Acked")
    case True
    then show ?thesis using b assms(2-4) [OF b]
      by (cases "sel x"; cases "fst (k x d')") (simp_all add: judge_def)
  next
    case False
    then show ?thesis using b assms(1,2)
      by (cases "link e 0"; cases "sel x") (simp_all add: withTx_def judge_def)
  qed
qed (use assms(1) in \<open>cases "link e 0"; simp add: withTx_def judge_def\<close>)

text \<open>How the life of a job moves under one operation, read off its answer.\<close>

definition still :: "string \<Rightarrow> job \<Rightarrow> db \<Rightarrow> bool" where
  "still i j d \<longleftrightarrow> lookup_job d i = Some j"

definition moved :: "string \<Rightarrow> store_op \<Rightarrow> job \<Rightarrow> db \<Rightarrow> bool" where
  "moved i a j d \<longleftrightarrow> (\<exists>k. lookup_job d i = Some k
     \<and> life_after (nat (max_attempts j)) i a (life_of j) = Some (life_of k))"

definition follows :: "string \<Rightarrow> store_op \<Rightarrow> verdict \<Rightarrow> job \<Rightarrow> db \<Rightarrow> bool" where
  "follows i a v j d \<longleftrightarrow> (still i j d \<and> v \<noteq> Acted) \<or> (moved i a j d \<and> v \<noteq> Untouched)"

lemma still_moved_frame:
  "jobs d' = jobs d \<Longrightarrow> still i j d' = still i j d" "jobs d' = jobs d \<Longrightarrow> moved i a j d' = moved i a j d"
  by (simp_all add: still_def moved_def lookup_job_def)

lemma follows_withTx:
  assumes "still i j d"
    and "\<And>x d'. body d = Inr (x, d') \<Longrightarrow> (if touched x then moved i a j d' else still i j d')"
  shows "follows i a (judge e touched (fst (withTx e 0 body d))) j (snd (withTx e 0 body d))"
  using judge_withTx [of "still i j" d body touched "moved i a j" e] assms unfolding follows_def by blast

lemma follows_and_then:
  assumes "still i j d"
    and "\<And>x d'. body d = Inr (x, d') \<Longrightarrow> (if sel x then moved i a j d' else still i j d')"
    and "\<And>x d'. body d = Inr (x, d') \<Longrightarrow> \<not> sel x \<Longrightarrow>
      still i j (snd (k x d')) \<and> (\<forall>y. fst (k x d') = Inr y \<longrightarrow> \<not> touched y)"
    and "\<And>x d'. body d = Inr (x, d') \<Longrightarrow> sel x \<Longrightarrow> moved i a j (snd (k x d')) \<and>
      (case fst (k x d') of Inl err \<Rightarrow> link e 1 \<noteq> Acked | Inr y \<Rightarrow> touched y)"
  shows "follows i a (judge e touched (fst (and_then (withTx e 0 body d) k))) j (snd (and_then (withTx e 0 body d) k))"
  using judge_and_then [of "still i j" d body sel "moved i a j" k touched e, OF assms] unfolding follows_def .

text \<open>The row of job \<open>i\<close> after an update of the rows a statement selects.\<close>

lemma update_follows:
  assumes "lookup_job d i = Some j" and "\<And>j. same_identity j (f j)"
  shows "P j \<Longrightarrow> life_after (nat (max_attempts j)) i a (life_of j) = Some (life_of (f j)) \<Longrightarrow> moved i a j (update_jobs P f d)"
    and "\<not> P j \<Longrightarrow> still i j (update_jobs P f d)"
  using assms(1) by (auto simp: moved_def still_def lookup_update_this [OF assms(2)])

lemma no_row_selected:
  assumes "tables_ok d" and "lookup_job d i = Some j" and "\<And>k. P k \<Longrightarrow> job_id k = i"
  shows "rows_affected P d \<noteq> 0 \<longleftrightarrow> P j"
  unfolding rows_affected_0 using lookup_job_in [OF assms(2)] only_row [OF assms(1,2)] assms(3) by metis

lemma claim_follows:
  assumes d: "tables_ok d" and j: "lookup_job d i = Some j" and c: "counted j"
  shows "follows i (OpClaim options) (verdict_on i e (OpClaim options) d) j (apply_op e (OpClaim options) d)"
  unfolding verdict_on.simps apply_op.simps Claim_def Let_def
proof (rule follows_withTx, goal_cases)
  case 1
  then show ?case using j by (simp add: still_def)
next
  case (2 x d')
  let ?o = "claim_defaults options"
  let ?cs = "claim_candidates e ?o d"
  have x: "set (map job_id x) = set (map job_id ?cs)"
    and d': "jobs d' = jobs (update_jobs (\<lambda>j. job_id j \<in> set (map job_id ?cs)) (claim_row e ?o) d)"
    using 2 by (auto dest!: append_events_frame simp: image_image split: sum.splits if_splits)
  have sel: "claimable e (co_queue ?o) j" if "job_id j \<in> set (map job_id ?cs)"
    using that candidate_claimable selected_by_id [OF d _ lookup_job_in [OF j], of ?cs] by blast
  show ?case unfolding x still_moved_frame [OF d']
    using update_follows [OF j, where f = "claim_row e ?o" and P = "\<lambda>j. job_id j \<in> set (map job_id ?cs)"]
      life_claim [OF sel c] lookup_job_id [OF j] by simp
qed


lemma sweep_follows:
  assumes d: "tables_ok d" and j: "lookup_job d i = Some j"
  shows "follows i OpDeadLetterExhausted (verdict_on i e OpDeadLetterExhausted d) j (apply_op e OpDeadLetterExhausted d)"
  unfolding verdict_on.simps apply_op.simps DeadLetterExhausted_def Let_def
proof (rule follows_withTx, goal_cases)
  case 1
  then show ?case using j by (simp add: still_def)
next
  case (2 x d')
  let ?cs = "returning e (filter (\<lambda>j. exhausted e j \<and> \<not> row_locked e (job_id j)) (jobs d))"
  show ?case
  proof (cases "advisory e ''workrail:dead_letter_sweep''")
    case True
    then have x: "x = map job_id ?cs" and d': "jobs d' = jobs (update_jobs (\<lambda>j. job_id j \<in> set x) (dead_row e) d)"
      using 2 by (auto dest!: append_events_frame split: sum.splits)
    have sel: "exhausted e j" if "job_id j \<in> set x"
      using that selected_by_id [OF d _ lookup_job_in [OF j], of ?cs] unfolding x by auto
    show ?thesis unfolding still_moved_frame [OF d']
      using update_follows [OF j, where f = "dead_row e" and P = "\<lambda>j. job_id j \<in> set x"]
        life_dead [OF sel] lookup_job_id [OF j] by simp
  qed (use 2 j in \<open>simp add: still_def\<close>)
qed

lemma suspend_follows:
  assumes d: "tables_ok d" and j: "lookup_job d i = Some j" and c: "counted j"
  shows "follows i (OpSuspend i' w ra version) (verdict_on i e (OpSuspend i' w ra version) d) j
    (apply_op e (OpSuspend i' w ra version) d)"
  unfolding verdict_on.simps apply_op.simps Suspend_def Let_def
proof (rule follows_withTx, goal_cases)
  case 1
  then show ?case using j by (simp add: still_def)
next
  case (2 x d')
  define P where "P = (\<lambda>j. held_by i' w j \<and> wake_version j = version)"
  note up = update_follows [OF j, where f = "suspend_row e ra" and P = P]
  show ?case
  proof (cases "rows_affected P d = 0")
    case False
    then have x: "x" and d': "jobs d' = jobs (update_jobs P (suspend_row e ra) d)"
      using 2 unfolding P_def [symmetric] by (auto simp: appendEvent_def insert_event_def split: if_splits)
    show ?thesis
    proof (cases "i' = i")
      case True
      then have "P j" using False no_row_selected [OF d j, of P] by (auto simp: P_def held_by_def)
      then have "moved i (OpSuspend i w ra version) j (update_jobs P (suspend_row e ra) d)"
        using True by (intro up(1) life_suspend c) (simp_all add: P_def)
      then show ?thesis using True x by (simp add: still_moved_frame [OF d'])
    next
      case neq: False
      then have "\<not> P j" using lookup_job_id [OF j] by (auto simp: P_def held_by_def)
      then show ?thesis using neq up(2) by (simp add: still_moved_frame [OF d'])
    qed
  qed (use 2 j in \<open>simp add: still_def P_def\<close>)
qed

lemma fail_follows:
  assumes d: "tables_ok d" and j: "lookup_job d i = Some j"
  shows "follows i (OpFail i' w cause) (verdict_on i e (OpFail i' w cause) d) j (apply_op e (OpFail i' w cause) d)"
  unfolding verdict_on.simps apply_op.simps Fail_def Let_def
proof (rule follows_withTx, goal_cases)
  case 1
  then show ?case using j by (simp add: still_def)
next
  case (2 x d')
  define P where "P = (\<lambda>k :: job. job_id k = i' \<and> lease_owner k = Some w)"
  from 2 obtain h where h: "find (held_by i' w) (jobs d) = Some h"
    by (cases "find (held_by i' w) (jobs d)") auto
  define nxt where "nxt = NextStatusAfterFailure (attempt h) (max_attempts h) cause"
  obtain ra where d': "jobs d' = jobs (update_jobs P (fail_row e nxt (err_string cause) ra) d)"
    using 2 by (auto simp: h appendEvent_def insert_event_def P_def nxt_def split: if_splits)
  note up = update_follows [OF j, where f = "fail_row e nxt (err_string cause) ra" and P = P]
  show ?case
  proof (cases "i' = i")
    case True
    have "h \<in> set (jobs d)" "held_by i' w h" using h by (auto simp: find_Some_iff)
    then have "h = j" "held_by i w j" using only_row [OF d j] True by (auto simp: held_by_def)
    then have "life_after (nat (max_attempts j)) i (OpFail i w cause) (life_of j) =
        Some (life_of (fail_row e nxt (err_string cause) ra j))"
      unfolding nxt_def using life_fail [of i w j] by blast
    moreover have "P j" using \<open>held_by i w j\<close> True by (simp add: P_def held_by_def)
    ultimately have "moved i (OpFail i w cause) j (update_jobs P (fail_row e nxt (err_string cause) ra) d)"
      using up(1) by simp
    then show ?thesis using True by (simp add: still_moved_frame [OF d'])
  next
    case False
    then have "\<not> P j" using lookup_job_id [OF j] by (auto simp: P_def)
    then show ?thesis using False up(2) by (simp add: still_moved_frame [OF d'])
  qed
qed

lemma jobs_event: "jobs (snd (withTx e n (appendEvent e i ty flds) d)) = jobs d"
  by (cases "link e n") (simp_all add: withTx_def appendEvent_def insert_event_def)

lemmas still_moved_event [simp] = still_moved_frame [OF jobs_event]

text \<open>Complete and Cancel: one statement that selects rows of the job named, then its event.\<close>

lemma two_unit_follows:
  assumes d: "tables_ok d" and j: "lookup_job d i = Some j"
    and f: "\<And>j. same_identity j (f j)" and P: "\<And>k. P k \<Longrightarrow> job_id k = i'"
    and life: "i' = i \<Longrightarrow> P j \<Longrightarrow> life_after (nat (max_attempts j)) i a (life_of j) = Some (life_of (f j))"
    and body: "\<And>x d'. body d = Inr (x, d') \<Longrightarrow> x = rows_affected P d \<and> d' = update_jobs P f d"
  shows "let r = and_then (withTx e 0 body d) (\<lambda>n d. if n = 0 then (Inl err, d) else withTx e 1 (appendEvent e i' ty flds) d)
    in follows i a (judge e (\<lambda>_. i' = i) (fst r)) j (snd r)"
proof -
  have sel: "P j \<longleftrightarrow> rows_affected P d \<noteq> 0 \<and> i' = i"
    using no_row_selected [OF d j, of P] P [of j] P lookup_job_id [OF j] by blast
  have acted: "moved i a j (update_jobs P f d)" if "P j"
    using that sel life by (intro update_follows(1) [OF j f]) auto
  have kept: "still i j (update_jobs P f d)" if "\<not> P j"
    using that by (intro update_follows(2) [OF j] f)
  show ?thesis unfolding Let_def
proof (rule follows_and_then [where sel = "\<lambda>n. n \<noteq> 0 \<and> i' = i"], goal_cases)
  case 1
  then show ?case using j by (simp add: still_def)
next
  case (2 x d')
  then show ?case using body [OF 2] sel acted kept by simp
next
  case (3 x d')
  then have s: "still i j d'" using body [OF 3(1)] sel kept by simp
  show ?case
  proof (cases "x = 0")
    case False
    then show ?thesis using 3 s by simp
  qed (use 3 s in simp)
next
  case (4 x d')
  then have "moved i a j d'" using body [OF 4(1)] sel acted by simp
  then have m: "moved i a j d'" "lookup_job d' i' \<noteq> None" using 4 by (auto simp: moved_def)
  from m(1) have "moved i a j (snd (withTx e 1 (appendEvent e i' ty flds) d'))" by simp
  moreover have "case fst (withTx e 1 (appendEvent e i' ty flds) d') of Inl err \<Rightarrow> link e 1 \<noteq> Acked | Inr y \<Rightarrow> True"
    using m(2) by (cases "link e 1") (simp_all add: withTx_def appendEvent_ok)
  ultimately show ?case using 4 by (simp split: sum.splits)
qed
qed

lemma complete_follows:
  assumes "tables_ok d" and "lookup_job d i = Some j"
  shows "follows i (OpComplete i' w res) (verdict_on i e (OpComplete i' w res) d) j (apply_op e (OpComplete i' w res) d)"
proof (cases "jsonb e (if res = '''' then ''{}'' else res)")
  case None
  then show ?thesis using assms(2)
    by (cases "link e 0") (auto simp: Complete_def Let_def withTx_def follows_def still_def judge_def)
next
  case (Some r)
  show ?thesis
    unfolding verdict_on.simps apply_op.simps Complete_def Let_def
  proof (rule two_unit_follows [OF assms, unfolded Let_def, where f = "complete_row e r" and P = "held_by i' w"], goal_cases)
    case 3
    then show ?case using life_complete [of i w j] by blast
  qed (use Some in \<open>auto simp: held_by_def\<close>)
qed

lemma cancel_follows:
  assumes "tables_ok d" and "lookup_job d i = Some j" and "counted j"
  shows "follows i (OpCancel i') (verdict_on i e (OpCancel i') d) j (apply_op e (OpCancel i') d)"
  unfolding verdict_on.simps apply_op.simps Cancel_def
proof (rule two_unit_follows [OF assms(1,2), unfolded Let_def, where f = "cancel_row e" and P = "live i'"], goal_cases)
  case 3
  then show ?case using life_cancel [OF _ assms(3), of i] by blast
qed (auto simp: live_def)

lemma retry_follows:
  assumes d: "tables_ok d" and j: "lookup_job d i = Some j"
  shows "follows i (OpRetryDeadLetter i') (verdict_on i e (OpRetryDeadLetter i') d) j (apply_op e (OpRetryDeadLetter i') d)"
  unfolding verdict_on.simps apply_op.simps RetryDeadLetter_def
proof (rule follows_and_then [where sel = "\<lambda>_. i' = i"], goal_cases)
  case 1
  then show ?case using j by (simp add: still_def)
next
  case (2 x d')
  then have "find (dead_letter i') (jobs d) \<noteq> None" and d': "d' = update_jobs (dead_letter i') (retry_row e) d"
    by (auto split: option.splits)
  then have "i' = i \<Longrightarrow> dead_letter i j"
    using only_row [OF d j] by (auto simp: find_Some_iff dead_letter_def dest!: nth_mem)
  then show ?case
    using update_follows [OF j, where P = "dead_letter i'" and f = "retry_row e"] life_retry [of i j] lookup_job_id [OF j]
    by (cases "i' = i") (simp_all add: d' dead_letter_def)
next
  case (3 x d')
  then have "\<not> dead_letter i' j" using lookup_job_id [OF j] by (auto simp: dead_letter_def)
  then have "still i j d'"
    using 3 update_follows [OF j, where P = "dead_letter i'" and f = "retry_row e"] by (auto split: option.splits)
  then have "still i j (snd (withTx e 1 (appendEvent e (job_id x) ''job.dlq_retried'' []) d'))" by simp
  moreover have "snd (and_then r (\<lambda>_ d. (Inr x, d))) = snd r" for r :: "(goerr + unit) \<times> db" and x :: job
    by (cases r; cases "fst r") auto
  ultimately show ?case using 3(2) by simp
next
  case (4 x d')
  then obtain h where h: "find (dead_letter i') (jobs d) = Some h" and x: "x = retry_row e h"
    and d': "d' = update_jobs (dead_letter i') (retry_row e) d" by (auto split: option.splits)
  have "h \<in> set (jobs d)" "dead_letter i' h" using h by (auto simp: find_Some_iff)
  then have hj: "h = j" "dead_letter i j" using only_row [OF d j] 4(2) by (auto simp: dead_letter_def)
  then have m: "moved i (OpRetryDeadLetter i') j d'"
    using 4(2) life_retry [of i j] update_follows [OF j, where P = "dead_letter i'" and f = "retry_row e"] by (simp add: d')
  then have "lookup_job d' (job_id x) \<noteq> None" using lookup_job_id [OF j] by (auto simp: moved_def x hj)
  moreover from m have "moved i (OpRetryDeadLetter i') j (snd (withTx e 1 (appendEvent e (job_id x) ''job.dlq_retried'' []) d'))" by simp
  ultimately show ?case using 4(2)
    by (cases "link e 1") (simp_all add: withTx_def appendEvent_ok)
qed

text \<open>The other operations leave the life of a job as it is.\<close>

fun bookkeeping :: "store_op \<Rightarrow> bool" where
  "bookkeeping (OpEnqueue req) = True"
| "bookkeeping (OpHeartbeat i w lease) = True"
| "bookkeeping (OpPruneCompleted q older) = True"
| "bookkeeping (OpSaveStep i w name res) = True"
| "bookkeeping (OpSignal i name pl key) = True"
| "bookkeeping (OpReplay i) = True"
| "bookkeeping (OpRecordEvent i ty det) = True"
| "bookkeeping a = False"

lemma life_of_cong:
  "status k = status j \<Longrightarrow> attempt k = attempt j \<Longrightarrow> max_attempts k = max_attempts j \<Longrightarrow> life_of k = life_of j"
  by (simp add: life_of_def attempts_left_def split: status.split)

lemma row_change_bookkeeping:
  assumes "row_change e a j k" and "bookkeeping a"
  shows "life_of k = life_of j"
  using assms
  by (auto elim!: row_change.cases row_step.cases intro!: life_of_cong
      simp: heartbeat_row_def wake_row_def orphan_def split: option.split)

lemma row_change_budget: "row_change e a j k \<Longrightarrow> max_attempts k = max_attempts j"
  by (auto elim!: row_change.cases dest: row_step_edge simp: orphan_def same_identity_def split: option.splits)

lemma op_follows:
  assumes d: "tables_ok d" and j: "lookup_job d i = Some j" and c: "counted j"
    and k: "lookup_job (apply_op e a d) i = Some k"
  shows "(life_of k = life_of j \<and> verdict_on i e a d \<noteq> Acted)
    \<or> (life_after (nat (max_attempts j)) i a (life_of j) = Some (life_of k) \<and> verdict_on i e a d \<noteq> Untouched)"
proof (cases "bookkeeping a")
  case True
  have "(row_change e a)\<^sup>*\<^sup>* j k" using apply_op_job [OF d j, of e a] k by auto
  then have "life_of k = life_of j"
    by (induction rule: rtranclp_induct) (auto dest: row_change_bookkeeping [OF _ True])
  moreover have "verdict_on i e a d = Untouched" using True by (cases a) auto
  ultimately show ?thesis by simp
next
  case False
  then have "follows i a (verdict_on i e a d) j (apply_op e a d)"
    using claim_follows [OF d j c] sweep_follows [OF d j] suspend_follows [OF d j c] complete_follows [OF d j]
      fail_follows [OF d j] cancel_follows [OF d j c] retry_follows [OF d j]
    by (cases a) (simp_all del: verdict_on.simps apply_op.simps)
  then show ?thesis using k by (auto simp: follows_def still_def moved_def)
qed

text \<open>
  C7: The store refines the life of a job. Along any run of any operations by any workers,
  clients and operators, what happens to a job, seen as its remaining attempts, is the run
  of the abstract automaton that the answers tell: every operation that answers that it
  acted on the job takes its transition (a claim spends an attempt, parking gives it back,
  a failure keeps the count or ends the job, a revival restores the whole budget), every
  operation that answers that it did not leaves the life as it is, and only an error on a
  failed connection leaves open which; so a succeeded or canceled job stays so.
\<close>

theorem store_refines_life:
  assumes "db_ok now d" and "clocked now ops" and "fresh_run i ops"
    and "lookup_job d i = Some j" and "lookup_job (run_ops ops d) i = Some k"
  shows "life_run (nat (max_attempts j)) i (transcript i ops d) (life_of j) (life_of k)
    \<and> (life_of j \<in> {Succeeded, Canceled} \<longrightarrow> status k = status j)"
proof -
  have run: "life_run (nat (max_attempts j)) i (transcript i ops d) (life_of j) (life_of k)"
    using assms
  proof (induction ops arbitrary: now d j)
    case Nil
    then show ?case by (simp add: lr_end)
  next
    case (Cons op ops)
    obtain e a where op: "op = (e, a)" by (cases op)
    let ?d = "apply_op e a d"
    have d: "tables_ok d" by (rule db_okD(1) [OF Cons.prems(1)])
    have ok: "db_ok (pg_now e) ?d" and cl: "clocked (pg_now e) ops" and fr: "fresh_run i ops"
      using Cons.prems(1-3) by (auto simp: op fresh_run_def intro: apply_op_db_ok db_ok_mono)
    have "lookup_job ?d i \<noteq> None"
      using run_ops_absent [OF ok cl fr] Cons.prems(5) by (auto simp: op)
    then obtain l where l: "lookup_job ?d i = Some l" by blast
    have m: "max_attempts l = max_attempts j"
      by (rule run_ops_job [OF Cons.prems(1) _ _ Cons.prems(4), of "[(e, a)]"])
        (use Cons.prems(2,3) l in \<open>auto simp: op fresh_run_def dest: row_change_budget\<close>)
    have "counted j" using lookup_job_ok [OF Cons.prems(1,4)] by (rule job_ok_counted)
    from op_follows [OF d Cons.prems(4) this l] Cons.IH [OF ok cl fr l] Cons.prems(5)
    show ?case by (auto simp: op m intro: lr_act lr_idle)
  qed
  moreover have "status k = status j" if "life_of j \<in> {Succeeded, Canceled}"
  proof -
    have "life_of k = life_of j" using life_run_done [OF run] that by simp
    then show ?thesis using that by (cases "status j"; cases "status k"; simp add: life_of_def)
  qed
  ultimately show ?thesis by simp
qed

text \<open>A stale completion, a failure, the claim of the retry after its backoff, and its completion.\<close>

definition life_sample :: "(senv \<times> store_op) list" where
  "life_sample =
     [(plain_env 45 '''', OpComplete ''j1'' ''w2'' ''8''),
      (plain_env 50 '''', OpFail ''j1'' ''w1'' (New ''declined'')),
      (plain_env 2000000000 '''', OpClaim sample_claim),
      (plain_env 2000000010 '''', OpComplete ''j1'' ''w1'' ''9'')]"

lemma store_refines_life_witness:
  "map snd (transcript ''j1'' life_sample sample_db) = [Untouched, Acted, Acted, Acted]
   \<and> life_run 3 ''j1'' (transcript ''j1'' life_sample sample_db) (Leased 2) Succeeded"
proof
  show t: "map snd (transcript ''j1'' life_sample sample_db) = [Untouched, Acted, Acted, Acted]" by code_simp
  have "map_option status (lookup_job (run_ops life_sample sample_db) ''j1'') = Some StatusSucceeded" by code_simp
  then obtain k where k: "lookup_job (run_ops life_sample sample_db) ''j1'' = Some k" "life_of k = Succeeded"
    by (auto simp: life_of_def)
  have v: "life_of sample_job = Leased 2" "nat (max_attempts sample_job) = 3" by code_simp+
  have "clocked 40 life_sample" "fresh_run ''j1'' life_sample"
    by (simp_all add: life_sample_def fresh_run_def)
  from store_refines_life [OF sample_db_ok this sample_lookup k(1)] k(2) v
  show "life_run 3 ''j1'' (transcript ''j1'' life_sample sample_db) (Leased 2) Succeeded" by simp
qed

section \<open>The budget of executions\<close>

text \<open>How often a job is handed to a worker along a run: the answered claims that contain it.\<close>

definition handed_out :: "string \<Rightarrow> senv \<Rightarrow> store_op \<Rightarrow> db \<Rightarrow> bool" where
  "handed_out i e a d =
     (case a of
        OpClaim options \<Rightarrow>
          (case fst (Claim e options d) of Inl _ \<Rightarrow> False | Inr cs \<Rightarrow> i \<in> job_id ` set cs)
      | _ \<Rightarrow> False)"

fun handed :: "string \<Rightarrow> (senv \<times> store_op) list \<Rightarrow> db \<Rightarrow> nat" where
  "handed i [] d = 0"
| "handed i ((e, a) # ops) d = (if handed_out i e a d then 1 else 0) + handed i ops (apply_op e a d)"

text \<open>The operations that give attempts back: parking the job, and reviving it.\<close>

fun gives_back :: "string \<Rightarrow> store_op \<Rightarrow> bool" where
  "gives_back i (OpSuspend i' _ _ _) = (i' = i)"
| "gives_back i (OpRetryDeadLetter i') = (i' = i)"
| "gives_back i _ = False"

lemma handed_outE:
  assumes "handed_out i e a d"
  obtains options cs d' l where "a = OpClaim options" and "Claim e options d = (Inr cs, d')"
    and "l \<in> set cs" and "job_id l = i"
proof -
  from assms obtain options where a: "a = OpClaim options" by (cases a) (auto simp: handed_out_def)
  obtain r d' where c: "Claim e options d = (r, d')" by (cases "Claim e options d")
  from assms a c show ?thesis by (cases r) (auto simp: handed_out_def intro: that)
qed

lemma row_change_spends:
  assumes "row_change e a j k" and "\<not> gives_back (job_id j) a"
  shows "attempt j \<le> attempt k \<and> max_attempts k = max_attempts j \<and> job_id k = job_id j"
  using assms
  by (auto elim!: row_change.cases row_step.cases simp: claim_row_def dead_row_def heartbeat_row_def
      suspend_row_def complete_row_def fail_row_def cancel_row_def retry_row_def wake_row_def held_by_def
      dead_letter_def orphan_def split: option.splits)

lemma apply_op_spends:
  assumes "tables_ok d" and "lookup_job d i = Some j" and "lookup_job (apply_op e a d) i = Some k"
    and "\<not> gives_back i a"
  shows "attempt j + (if handed_out i e a d then 1 else 0) \<le> attempt k \<and> max_attempts k = max_attempts j"
proof -
  have "(row_change e a)\<^sup>*\<^sup>* j k" using apply_op_job [OF assms(1,2), of e a] assms(3) by auto
  then have "attempt j \<le> attempt k \<and> max_attempts k = max_attempts j \<and> job_id k = job_id j"
    by (induction rule: rtranclp_induct)
      (use assms(4) lookup_job_id [OF assms(2)] in \<open>auto dest: row_change_spends\<close>)
  moreover have "attempt k = attempt j + 1" if h: "handed_out i e a d"
  proof -
    from h obtain options cs d' l where a: "a = OpClaim options" and c: "Claim e options d = (Inr cs, d')"
      and l: "l \<in> set cs" "job_id l = i"
      by (rule handed_outE)
    obtain m where "lookup_job d (job_id l) = Some m" "l = claim_row e (claim_defaults options) m"
      and "lookup_job d' (job_id l) = Some l"
      by (rule claimed_row [OF assms(1) c l(1)])
    with assms(2,3) l(2) a c show ?thesis by simp
  qed
  ultimately show ?thesis by auto
qed

lemma handed_absent:
  assumes "db_ok now d" and "clocked now ops" and "fresh_run i ops" and "lookup_job d i = None"
  shows "handed i ops d = 0"
  using assms
proof (induction ops arbitrary: now d)
  case (Cons op ops)
  obtain e a where op: "op = (e, a)" by (cases op)
  have ok: "db_ok (pg_now e) (apply_op e a d)"
    using Cons.prems(1,2) by (auto simp: op intro: apply_op_db_ok db_ok_mono)
  have "lookup_job (apply_op e a d) i = None"
    using run_ops_absent [of now d "[(e, a)]" i] Cons.prems by (simp add: op fresh_run_def)
  then have "handed i ops (apply_op e a d) = 0"
    using Cons.IH [OF ok] Cons.prems by (simp add: op fresh_run_def)
  moreover have "\<not> handed_out i e a d"
    using Cons.prems(4) by (auto elim!: handed_outE claimed_row [OF db_okD(1) [OF Cons.prems(1)]])
  ultimately show ?case by (simp add: op)
qed simp

text \<open>
  C8: Retries end. A job is handed to workers at most as often as its budget allows,
  whatever the workers, the faults and the order of the operations, unless it is parked or
  an operator revives it: the answered claims that contain it number at most the attempts
  it had left. So failing, losing leases and crashing cannot run a job forever.
\<close>

theorem attempt_budget:
  assumes "db_ok now d" and "clocked now ops" and "fresh_run i ops" and "lookup_job d i = Some j"
    and "list_all (\<lambda>(e, a). \<not> gives_back i a) ops"
  shows "int (handed i ops d) \<le> max_attempts j - attempt j"
  using assms
proof (induction ops arbitrary: now d j)
  case Nil
  then show ?case using lookup_job_ok [OF Nil(1,4)] by (simp add: job_ok_def)
next
  case (Cons op ops)
  obtain e a where op: "op = (e, a)" by (cases op)
  have d: "tables_ok d" by (rule db_okD(1) [OF Cons.prems(1)])
  have ok: "db_ok (pg_now e) (apply_op e a d)" and cl: "clocked (pg_now e) ops" and fr: "fresh_run i ops"
    using Cons.prems(1-3) by (auto simp: op fresh_run_def intro: apply_op_db_ok db_ok_mono)
  show ?case
  proof (cases "lookup_job (apply_op e a d) i")
    case None
    have "\<not> handed_out i e a d"
    proof
      assume h: "handed_out i e a d"
      then have "a \<noteq> OpPruneCompleted q older" for q older by (auto simp: handed_out_def)
      with None apply_op_job [OF d Cons.prems(4), of e a] show False by (auto simp: pruned_by_def)
    qed
    then show ?thesis
      using handed_absent [OF ok cl fr None] lookup_job_ok [OF Cons.prems(1,4)] by (simp add: op job_ok_def)
  next
    case (Some k)
    then show ?thesis
      using apply_op_spends [OF d Cons.prems(4) Some] Cons.IH [OF ok cl fr Some] Cons.prems(5)
      by (auto simp: op)
  qed
qed

lemma attempt_budget_witness:
  "handed ''j1'' [(late_env, OpClaim sample_claim)] sample_db = 1
   \<and> int (handed ''j1'' [(late_env, OpClaim sample_claim)] sample_db) \<le> max_attempts sample_job - attempt sample_job"
proof
  show "handed ''j1'' [(late_env, OpClaim sample_claim)] sample_db = 1"
    using late_claim by (simp add: handed_out_def late_job_simps)
  show "int (handed ''j1'' [(late_env, OpClaim sample_claim)] sample_db) \<le> max_attempts sample_job - attempt sample_job"
    by (rule attempt_budget [OF sample_db_ok _ _ sample_lookup])
      (simp_all add: late_env_def fresh_run_def)
qed

section \<open>Polling drains a queue\<close>

text \<open>
  A worker's successive polls, each at its own time, over its own connection and beside
  other transactions: what each was answered, and the database they leave.
\<close>

fun polls :: "claim_options \<Rightarrow> senv list \<Rightarrow> db \<Rightarrow> (goerr + job list) list \<times> db" where
  "polls options [] d = ([], d)"
| "polls options (e # es) d =
     (let (r, d1) = Claim e options d; (rs, d2) = polls options es d1 in (r # rs, d2))"

text \<open>On a live connection a claim is always answered.\<close>

lemma Claim_answers:
  assumes "db_ok (pg_now e) d" and "link e 0 = Acked"
  shows "\<exists>cs d'. Claim e options d = (Inr cs, d')"
proof -
  let ?o = "claim_defaults options"
  let ?cs = "claim_candidates e ?o d"
  let ?u = "update_jobs (\<lambda>j. job_id j \<in> set (map job_id ?cs)) (claim_row e ?o) d"
  have cand: "lookup_job d (job_id c) = Some c \<and> int4 (attempt c + 1)" if c: "c \<in> set ?cs" for c
  proof -
    have l: "lookup_job d (job_id c) = Some c"
      using candidate_claimable(1) [OF c] lookup_job_iff [OF db_okD(1) [OF assms(1)]] by simp
    have "job_ok (pg_now e) c" by (rule lookup_job_ok [OF assms(1) l])
    then have "0 \<le> attempt c" "attempt c < max_attempts c" "int4 (max_attempts c)"
      using candidate_claimable(2) [OF c] by (auto simp: job_ok_def claimable_def)
    with l show ?thesis by (simp add: int4_def)
  qed
  have "lookup_job ?u (job_id c) \<noteq> None" if "c \<in> set ?cs" for c
    using cand [OF that] by (simp add: lookup_update_this)
  then have "\<forall>(i, ty, flds)\<in>set (map (claimed_event ?o) (returning e (map (claim_row e ?o) ?cs))). lookup_job ?u i \<noteq> None"
    by (auto simp: claimed_event_def)
  then obtain d' where "append_events e (map (claimed_event ?o) (returning e (map (claim_row e ?o) ?cs))) ?u = Inr ((), d')"
    using append_events_ok by blast
  moreover have "\<not> list_ex (\<lambda>j. \<not> int4 (attempt j)) (returning e (map (claim_row e ?o) ?cs))"
    using cand by (auto simp: list_ex_iff)
  ultimately show ?thesis using assms(2) by (simp add: Claim_def Let_def withTx_def)
qed

lemma takeable_later: "takeable now q j \<Longrightarrow> now \<le> later \<Longrightarrow> takeable later q j"
  by (auto simp: takeable_def)

lemma claimed_not_takeable:
  "later \<le> pg_now e + pgInterval (co_lease opts) \<Longrightarrow> \<not> takeable later q (claim_row e opts j)"
  by (simp add: takeable_def)

text \<open>
  Polls within one lease period hand a job out at most once, leave its row as handed out,
  and pass an unlocked due job over only when every batch is full.
\<close>

lemma polls_facts:
  assumes "db_ok now d" and "sorted (now # map pg_now es)" and "opts = claim_defaults options"
    and "list_all (\<lambda>e. link e 0 = Acked \<and> pg_now e \<le> stop \<and> stop \<le> pg_now e + pgInterval (co_lease options)) es"
  shows "\<exists>css d'. polls options es d = (map Inr css, d') \<and> distinct (map job_id (concat css))
    \<and> (\<forall>i. i \<notin> set (map job_id (concat css)) \<longrightarrow> lookup_job d' i = lookup_job d i)
    \<and> (\<forall>k\<in>set (concat css). lookup_job d' (job_id k) = Some k \<and> status k = StatusRunning
         \<and> lease_owner k = Some (co_worker opts) \<and> \<not> takeable stop (co_queue opts) k
         \<and> (\<exists>j. lookup_job d (job_id k) = Some j \<and> takeable stop (co_queue opts) j
               \<and> same_identity j k \<and> attempt k = attempt j + 1))
    \<and> (\<forall>j\<in>set (jobs d). takeable now (co_queue opts) j \<and> list_all (\<lambda>e. \<not> row_locked e (job_id j)) es
         \<and> job_id j \<notin> set (map job_id (concat css)) \<longrightarrow>
         length (concat css) = length es * nat (co_limit opts))"
  using assms(1,2,4)
proof (induction es arbitrary: now d)
  case (Cons e es)
  let ?q = "co_queue opts"
  have t: "tables_ok d" by (rule db_okD(1) [OF Cons.prems(1)])
  have now: "now \<le> pg_now e" "pg_now e \<le> stop" "stop \<le> pg_now e + pgInterval (co_lease opts)"
    using Cons.prems by (simp_all add: assms(3) claim_defaults_def Let_def)
  have e: "db_ok (pg_now e) d" using Cons.prems(1) now(1) by (rule db_ok_mono)
  obtain cs d1 where c: "Claim e options d = (Inr cs, d1)"
    using Claim_answers [OF e, of options] Cons.prems(3) by auto
  have ok: "db_ok (pg_now e) d1"
    using apply_op_db_ok [OF e, of e "OpClaim options"] c by simp
  obtain css hs d' where hs: "concat css = hs" and p: "polls options es d1 = (map Inr css, d')" and dis: "distinct (map job_id hs)"
    and other: "\<And>i. i \<notin> set (map job_id hs) \<Longrightarrow> lookup_job d' i = lookup_job d1 i"
    and each: "\<And>k. k \<in> set hs \<Longrightarrow> lookup_job d' (job_id k) = Some k \<and> status k = StatusRunning
         \<and> lease_owner k = Some (co_worker opts) \<and> \<not> takeable stop ?q k
         \<and> (\<exists>j. lookup_job d1 (job_id k) = Some j \<and> takeable stop ?q j \<and> same_identity j k \<and> attempt k = attempt j + 1)"
    and full: "\<And>j. j \<in> set (jobs d1) \<Longrightarrow> takeable (pg_now e) ?q j \<Longrightarrow> list_all (\<lambda>e. \<not> row_locked e (job_id j)) es
         \<Longrightarrow> job_id j \<notin> set (map job_id hs) \<Longrightarrow> length hs = length es * nat (co_limit opts)"
    using Cons.IH [OF ok] Cons.prems(2,3) by (simp del: set_concat set_map) blast
  note taken = claim_takes [OF t c assms(3)]
  have here: "lookup_job d1 (job_id k) = Some k \<and> status k = StatusRunning \<and> lease_owner k = Some (co_worker opts)
      \<and> \<not> takeable stop ?q k
      \<and> (\<exists>j. lookup_job d (job_id k) = Some j \<and> takeable stop ?q j \<and> same_identity j k \<and> attempt k = attempt j + 1)"
    if k: "k \<in> set cs" for k
  proof -
    obtain j where "k = claim_row e opts j" using claimed_row [OF t c k] by (metis assms(3))
    then have "\<not> takeable stop ?q k" using claimed_not_takeable [OF now(3)] by simp
    then show ?thesis using taken k takeable_later [OF _ now(2)] by blast
  qed
  have stays: "job_id k \<notin> set (map job_id hs)" if "k \<in> set cs" for k
  proof
    assume "job_id k \<in> set (map job_id hs)"
    then obtain l where "l \<in> set hs" "job_id l = job_id k" by auto
    with here [OF that] each [of l] show False by auto
  qed
  have apart: "set (map job_id cs) \<inter> set (map job_id hs) = {}"
    using stays by (auto simp del: set_concat)
  have all: "concat (cs # css) = cs @ hs" by (simp add: hs)
  show ?case
  proof (intro exI [where x = "cs # css"] exI [where x = d'], unfold all, intro conjI ballI allI impI, goal_cases)
    case 1
    show ?case using c p by simp
  next
    case 2
    show ?case using apart dis taken by simp
  next
    case (3 i)
    then show ?case using other [of i] taken by (simp del: set_concat)
  next
    case (4 k)
    then show ?case using here [of k] each [of k] other [OF stays [of k]] by (auto simp del: set_concat)
  next
    case (5 k)
    then show ?case using here [of k] each [of k] by (auto simp del: set_concat)
  next
    case (6 k)
    then show ?case using here [of k] each [of k] by (auto simp del: set_concat)
  next
    case (7 k)
    then show ?case using here [of k] each [of k] by (auto simp del: set_concat)
  next
    case (8 k)
    then consider "k \<in> set cs" | "k \<in> set hs" by auto
    then show ?case
    proof cases
      case 2
      then have "job_id k \<notin> set (map job_id cs)" using apart by auto
      then show ?thesis using each [OF 2] taken by simp
    qed (use here in blast)
  next
    case (9 j)
    then have j: "j \<in> set (jobs d)" "takeable (pg_now e) ?q j" "job_id j \<notin> set (map job_id cs)"
      "job_id j \<notin> set (map job_id hs)" "\<not> row_locked e (job_id j)"
      "list_all (\<lambda>e. \<not> row_locked e (job_id j)) es"
      using takeable_later [OF _ now(1)] by auto
    have "lookup_job d1 (job_id j) = Some j" using taken j lookup_job_iff [OF t] by simp
    then have "length hs = length es * nat (co_limit opts)"
      using full [OF lookup_job_in j(2,6,4)] by simp
    moreover have "length cs = nat (co_limit opts)" using taken j by blast
    ultimately show ?case by simp
  qed
qed simp

text \<open>
  C9: Polling drains a queue. On a live connection every poll is answered, each at its own
  time; and polls that cover, in batches of the limit, the jobs of the queue that can be
  taken by the end of the first lease period hand out every job that was due at the start
  and is not kept locked. They hand it out exactly once, and leave it running, leased by
  the poller and on its next attempt.
\<close>

theorem queue_drains:
  assumes "db_ok now d" and "sorted (now # map pg_now es)" and "opts = claim_defaults options"
    and "list_all (\<lambda>e. link e 0 = Acked \<and> pg_now e \<le> stop \<and> stop \<le> pg_now e + pgInterval (co_lease options)) es"
    and "now \<le> stop" and "length (filter (takeable stop (co_queue opts)) (jobs d)) \<le> length es * nat (co_limit opts)"
  shows "\<exists>css d'. polls options es d = (map Inr css, d') \<and> distinct (map job_id (concat css))
    \<and> (\<forall>k\<in>set (concat css). lookup_job d' (job_id k) = Some k \<and> status k = StatusRunning
         \<and> lease_owner k = Some (co_worker opts))
    \<and> (\<forall>j\<in>set (jobs d). takeable now (co_queue opts) j \<and> list_all (\<lambda>e. \<not> row_locked e (job_id j)) es \<longrightarrow>
         (\<exists>k\<in>set (concat css). same_identity j k \<and> attempt k = attempt j + 1))"
proof -
  let ?q = "co_queue opts" and ?T = "filter (takeable stop (co_queue opts)) (jobs d)"
  have t: "tables_ok d" by (rule db_okD(1) [OF assms(1)])
  obtain css hs d' where hs: "concat css = hs" and p: "polls options es d = (map Inr css, d')" and dis: "distinct (map job_id hs)"
    and each: "\<And>k. k \<in> set hs \<Longrightarrow> lookup_job d' (job_id k) = Some k \<and> status k = StatusRunning
         \<and> lease_owner k = Some (co_worker opts)
         \<and> (\<exists>j. lookup_job d (job_id k) = Some j \<and> takeable stop ?q j \<and> same_identity j k \<and> attempt k = attempt j + 1)"
    and full: "\<And>j. j \<in> set (jobs d) \<Longrightarrow> takeable now ?q j \<Longrightarrow> list_all (\<lambda>e. \<not> row_locked e (job_id j)) es
         \<Longrightarrow> job_id j \<notin> set (map job_id hs) \<Longrightarrow> length hs = length es * nat (co_limit opts)"
    using polls_facts [OF assms(1-4)] by (simp del: set_concat set_map) blast
  have sub: "set (map job_id hs) \<subseteq> set (map job_id ?T)"
  proof
    fix i assume "i \<in> set (map job_id hs)"
    then obtain k where k: "k \<in> set hs" "i = job_id k" by auto
    then obtain j where j: "lookup_job d (job_id k) = Some j" "takeable stop ?q j" using each by blast
    then have "j \<in> set ?T" "job_id j = i" using lookup_job_in [OF j(1)] lookup_job_id [OF j(1)] k(2) by simp_all
    then show "i \<in> set (map job_id ?T)" by force
  qed
  have handed: "\<exists>k\<in>set hs. same_identity j k \<and> attempt k = attempt j + 1"
    if j: "j \<in> set (jobs d)" "takeable now ?q j" "list_all (\<lambda>e. \<not> row_locked e (job_id j)) es" for j
  proof -
    have "job_id j \<in> set (map job_id hs)"
    proof (rule ccontr)
      assume out: "job_id j \<notin> set (map job_id hs)"
      have "job_id j \<in> set (map job_id ?T)" using j takeable_later [OF j(2) assms(5)] by simp
      then have "set (map job_id hs) \<subset> set (map job_id ?T)" using out sub by blast
      then have "card (set (map job_id hs)) < card (set (map job_id ?T))" by (intro psubset_card_mono) auto
      also have "\<dots> \<le> length ?T" using card_length [of "map job_id ?T"] by simp
      finally have "length hs < length ?T" using distinct_card [OF dis] by simp
      then show False using full [OF j out] assms(6) by simp
    qed
    then obtain k where k: "k \<in> set hs" "job_id k = job_id j" by auto
    moreover have "lookup_job d (job_id j) = Some j" using lookup_job_iff [OF t] j(1) by simp
    ultimately show ?thesis using each [OF k(1)] by auto
  qed
  show ?thesis
    by (rule exI [where x = css], rule exI [where x = d'], unfold hs) (use p dis each handed in blast)
qed

lemma queue_drains_witness:
  "\<exists>css d'. polls sample_claim [late_env, plain_env 60000000050 ''''] sample_db = (map Inr css, d')
     \<and> (\<exists>k\<in>set (concat css). job_id k = ''j1'' \<and> attempt k = 2 \<and> lookup_job d' ''j1'' = Some k)"
proof -
  let ?es = "[late_env, plain_env 60000000050 '''']" and ?now = "60000000021 :: int"
  define stop :: int where "stop = 60000000050"
  have o: "co_lease sample_claim = minute" by (simp add: sample_claim_def)
  have q: "co_queue (claim_defaults sample_claim) = ''default''" "co_limit (claim_defaults sample_claim) = 1"
    by code_simp+
  have ok: "db_ok ?now sample_db" by (rule db_ok_mono [OF sample_db_ok]) simp
  have srt: "sorted (?now # map pg_now ?es)" by (simp add: late_env_def)
  have within: "list_all (\<lambda>e. link e 0 = Acked \<and> pg_now e \<le> stop \<and> stop \<le> pg_now e + pgInterval (co_lease sample_claim)) ?es"
    by (simp add: late_env_def o stop_def pgInterval_def)
  have few: "length (filter (takeable stop (co_queue (claim_defaults sample_claim))) (jobs sample_db))
      \<le> length ?es * nat (co_limit (claim_defaults sample_claim))"
    by (rule order_trans [OF length_filter_le]) (simp add: sample_db_facts q)
  obtain css d' where p: "polls sample_claim ?es sample_db = (map Inr css, d')"
    and rows: "\<forall>k\<in>set (concat css). lookup_job d' (job_id k) = Some k"
    and all: "\<forall>j\<in>set (jobs sample_db). takeable ?now (co_queue (claim_defaults sample_claim)) j
      \<and> list_all (\<lambda>e. \<not> row_locked e (job_id j)) ?es \<longrightarrow>
         (\<exists>k\<in>set (concat css). same_identity j k \<and> attempt k = attempt j + 1)"
    using queue_drains [OF ok srt refl within _ few] by (auto simp: stop_def simp del: set_concat)
  have "takeable ?now (co_queue (claim_defaults sample_claim)) sample_job" unfolding q by code_simp
  moreover have "sample_job \<in> set (jobs sample_db)" by (rule lookup_job_in [OF sample_lookup])
  ultimately obtain k where "k \<in> set (concat css)" "same_identity sample_job k" "attempt k = attempt sample_job + 1"
    using all by (auto simp: late_env_def simp del: set_concat)
  then show ?thesis using p rows by (force simp: same_identity_def sample_job_def simp del: set_concat)
qed

end
