(* ===== verification/Queries.thy ===== *)
theory Queries
  imports Contracts
begin

text \<open>
  The read side of \<open>store.go\<close>: \<open>Get\<close>, \<open>GetJob\<close>, \<open>events\<close>, \<open>List\<close> with its keyset
  cursor, \<open>QueueDepth\<close> and \<open>ParkedCount\<close>. Ids stand for uuids in their canonical text
  form, on which PostgreSQL's order is the order of the text.
\<close>

section \<open>Definitions\<close>

text \<open>The order of the enum \<open>job_status\<close> (migration 001), which \<open>ORDER BY status\<close> follows.\<close>

fun status_rank :: "status \<Rightarrow> nat" where
  "status_rank StatusQueued = 0"
| "status_rank StatusRunning = 1"
| "status_rank StatusRetrying = 2"
| "status_rank StatusSucceeded = 3"
| "status_rank StatusFailed = 4"
| "status_rank StatusDeadLetter = 5"
| "status_rank StatusCanceled = 6"

instantiation status :: linorder
begin

definition less_eq_status :: "status \<Rightarrow> status \<Rightarrow> bool" where
  "less_eq_status s t \<longleftrightarrow> status_rank s \<le> status_rank t"

definition less_status :: "status \<Rightarrow> status \<Rightarrow> bool" where
  "less_status s t \<longleftrightarrow> status_rank s < status_rank t"

instance
proof
  fix s t :: status
  show "s \<le> t \<Longrightarrow> t \<le> s \<Longrightarrow> s = t" by (cases s; cases t) (simp_all add: less_eq_status_def)
qed (auto simp: less_eq_status_def less_status_def)

end

definition events :: "db \<Rightarrow> string \<Rightarrow> event list" where
  "events d i = sort_key ev_id (filter (\<lambda>v. ev_job v = i) (job_events d))"

definition Get :: "senv \<Rightarrow> string \<Rightarrow> db \<Rightarrow> (goerr + job \<times> event list) \<times> db" where
  "Get e i d0 =
     and_then
       (withTx e 0 (\<lambda>d. case lookup_job d i of
            None \<Rightarrow> Inl (Sentinel ErrNotFound)
          | Some j \<Rightarrow> Inr (j, d)) d0)
       (\<lambda>j d. and_then (withTx e 1 (\<lambda>d. Inr (events d i, d)) d) (\<lambda>evs d. (Inr (j, evs), d)))"

definition GetJob :: "senv \<Rightarrow> string \<Rightarrow> db \<Rightarrow> (goerr + job) \<times> db" where
  "GetJob e i d0 = and_then (Get e i d0) (\<lambda>(j, _) d. (Inr j, d))"

text \<open>The defaults and the filters of \<open>List\<close>; the cursor counts only when both parts are set.\<close>

definition list_limit :: "list_options \<Rightarrow> int" where
  "list_limit opts = (if lo_limit opts \<le> 0 \<or> 100 < lo_limit opts then 50 else lo_limit opts)"

definition list_cursor :: "list_options \<Rightarrow> (time \<times> string) option" where
  "list_cursor opts =
     (if lo_before_at opts \<noteq> 0 \<and> lo_before_id opts \<noteq> '''' then Some (lo_before_at opts, lo_before_id opts)
      else None)"

abbreviation list_key :: "job \<Rightarrow> time \<times> string" where
  "list_key j \<equiv> (created_at j, job_id j)"

definition list_matches :: "list_options \<Rightarrow> job \<Rightarrow> bool" where
  "list_matches opts j \<longleftrightarrow>
     (lo_queue opts = '''' \<or> queue j = lo_queue opts)
   \<and> (lo_status opts = '''' \<or> status_string (status j) = lo_status opts)
   \<and> (lo_type opts = '''' \<or> workflow_type j = lo_type opts)
   \<and> (lo_parent opts = '''' \<or> parent_id j = Some (lo_parent opts))"

definition list_selects :: "list_options \<Rightarrow> job \<Rightarrow> bool" where
  "list_selects opts j \<longleftrightarrow> list_matches opts j
   \<and> (case list_cursor opts of None \<Rightarrow> True | Some c \<Rightarrow> list_key j < c)"

definition listing :: "list_options \<Rightarrow> db \<Rightarrow> job list" where
  "listing opts d = rev (sort_key list_key (filter (list_selects opts) (jobs d)))"

definition List_jobs :: "senv \<Rightarrow> list_options \<Rightarrow> db \<Rightarrow> (goerr + job list) \<times> db" where
  "List_jobs e opts d0 =
     (if \<not> IsValidStatus (lo_status opts) then (Inl (Sentinel ErrInvalidStatus), d0)
      else withTx e 0 (\<lambda>d. Inr (take (nat (list_limit opts)) (listing opts d), d)) d0)"

text \<open>\<open>GROUP BY queue, status ORDER BY queue, status\<close> (text in byte order).\<close>

definition queue_groups :: "db \<Rightarrow> (string \<times> status) list" where
  "queue_groups d = sort (remdups (map (\<lambda>j. (queue j, status j)) (jobs d)))"

definition QueueDepth :: "senv \<Rightarrow> db \<Rightarrow> (goerr + (string \<times> string \<times> nat) list) \<times> db" where
  "QueueDepth e = withTx e 0 (\<lambda>d. Inr
     (map (\<lambda>(q, s). (q, status_string s, length (filter (\<lambda>j. queue j = q \<and> status j = s) (jobs d))))
        (queue_groups d), d))"

definition ParkedCount :: "senv \<Rightarrow> db \<Rightarrow> (goerr + nat) \<times> db" where
  "ParkedCount e = withTx e 0 (\<lambda>d. Inr
     (length (filter (\<lambda>j. status j \<in> {StatusQueued, StatusRetrying} \<and> pg_now e < run_after j) (jobs d)), d))"

section \<open>Reads change nothing\<close>

lemma reads_pure:
  "snd (Get e i d) = d" "snd (GetJob e i d) = d" "snd (List_jobs e opts d) = d"
  "snd (QueueDepth e d) = d" "snd (ParkedCount e d) = d"
  "snd (GetStep e i name d) = d" "snd (ListSteps e i d) = d"
  "snd (GetSignalAt e i name n d) = d" "snd (ListSignals e i d) = d"
  by (auto simp: Get_def GetJob_def List_jobs_def QueueDepth_def ParkedCount_def GetStep_def
      ListSteps_def GetSignalAt_def ListSignals_def withTx_def
      split: outcome.splits option.splits)

lemma GetJob_InrD: "GetJob e i d = (Inr j, d') \<Longrightarrow> d' = d \<and> lookup_job d i = Some j"
  by (auto simp: GetJob_def Get_def and_then_def withTx_def
      split: prod.splits sum.splits outcome.splits option.splits)

section \<open>The keyset cursor\<close>

lemma listing_set: "set (listing opts d) = {j \<in> set (jobs d). list_selects opts j}"
  by (auto simp: listing_def)

lemma listing_sorted: "sorted (rev (map list_key (listing opts d)))"
  by (simp add: listing_def rev_map)

lemma listing_distinct: "tables_ok d \<Longrightarrow> distinct (map list_key (listing opts d))"
  using tables_ok_ids [of d]
  by (auto simp: listing_def rev_map distinct_map job_ids_def inj_on_def)

text \<open>In a strictly descending list, what is below an element is what comes after it.\<close>

lemma below_after:
  fixes key :: "'r \<Rightarrow> 'k :: linorder"
  assumes "sorted_wrt (>) (map key (xs @ x # ys))"
  shows "filter (\<lambda>y. key y < key x) (xs @ x # ys) = ys"
  using assms by (auto simp: sorted_wrt_append filter_empty_conv intro!: filter_True dest: order.asym)

lemma sorted_desc:
  "sorted (rev ks) \<Longrightarrow> distinct ks \<Longrightarrow> sorted_wrt (>) (ks :: 'k :: linorder list)"
  by (metis distinct_rev sorted_wrt_rev strict_sorted_iff)

lemma listing_next:
  assumes "tables_ok d" and "listing opts d = xs @ j # ys" and "created_at j \<noteq> 0" and "job_id j \<noteq> ''''"
  shows "listing (opts\<lparr>lo_before_at := created_at j, lo_before_id := job_id j\<rparr>) d = ys"
proof -
  let ?opts = "opts\<lparr>lo_before_at := created_at j, lo_before_id := job_id j\<rparr>"
  have desc: "sorted_wrt (>) (map list_key (xs @ j # ys))"
    using sorted_desc [OF listing_sorted listing_distinct [OF assms(1)], of opts] assms(2) by simp
  have "list_selects opts j" using listing_set [of opts d] assms(2) by auto
  then have sel: "case list_cursor opts of None \<Rightarrow> True | Some c \<Rightarrow> list_key j < c"
    by (simp add: list_selects_def)
  have cur: "case list_cursor opts of None \<Rightarrow> True | Some c \<Rightarrow> list_key k < c"
    if "list_key k < list_key j" for k
    using less_trans [OF that] sel by (cases "list_cursor opts") (simp_all del: less_prod_simp)
  have c: "list_cursor ?opts = Some (list_key j)" using assms(3,4) by (simp add: list_cursor_def)
  have m: "list_matches ?opts k = list_matches opts k" for k by (simp add: list_matches_def)
  have "list_selects ?opts k \<longleftrightarrow> list_selects opts k \<and> list_key k < list_key j" for k
    unfolding list_selects_def c m option.case using cur [of k] by blast
  then have "list_selects ?opts = (\<lambda>k. list_selects opts k \<and> list_key k < list_key j)" by (rule ext)
  then have "filter (list_selects ?opts) (jobs d) = filter (\<lambda>k. list_key k < list_key j) (filter (list_selects opts) (jobs d))"
    by (simp only: filter_filter)
  then have "listing ?opts d = filter (\<lambda>k. list_key k < list_key j) (listing opts d)"
    by (simp only: listing_def rev_filter [symmetric] filter_sort)
  also have "\<dots> = ys" unfolding assms(2) by (rule below_after [OF desc])
  finally show ?thesis .
qed

lemma List_jobs_InrD:
  "List_jobs e opts d = (Inr page, d') \<Longrightarrow>
   d' = d \<and> page = take (nat (list_limit opts)) (listing opts d) \<and> IsValidStatus (lo_status opts)"
  by (auto simp: List_jobs_def dest!: withTx_InrD split: if_splits)

text \<open>
  Paging through a listing loses and repeats nothing. A page holds at most 100 jobs,
  newest first, each passing the filters; when the caller sends the creation time and id
  of the last job of a page as the cursor, the next page starts exactly where that page
  ended, and a page shorter than the limit is the last one.
\<close>

lemma list_paging:
  assumes "tables_ok d" and "List_jobs e opts d = (Inr page, d1)" and "page \<noteq> []"
    and "created_at (last page) \<noteq> 0" and "job_id (last page) \<noteq> ''''"
    and "opts' = opts\<lparr>lo_before_at := created_at (last page), lo_before_id := job_id (last page)\<rparr>"
    and "List_jobs e' opts' d = (Inr page', d2)"
  shows "length page \<le> 100 \<and> (\<forall>j\<in>set page. j \<in> set (jobs d) \<and> list_selects opts j)
    \<and> page @ page' = take (length page + nat (list_limit opts)) (listing opts d)
    \<and> (length page < nat (list_limit opts) \<longrightarrow> page = listing opts d \<and> page' = [])"
proof -
  define n where "n = nat (list_limit opts)"
  have page: "page = take n (listing opts d)" using List_jobs_InrD [OF assms(2)] by (simp add: n_def)
  have split: "listing opts d = page @ drop n (listing opts d)" by (simp add: page)
  also have "\<dots> = butlast page @ last page # drop n (listing opts d)"
    using append_butlast_last_id [OF assms(3)] by (metis append.assoc append_Cons append_Nil)
  finally have "listing opts d = butlast page @ last page # drop n (listing opts d)" .
  then have rest: "listing opts' d = drop n (listing opts d)"
    unfolding assms(6) by (rule listing_next [OF assms(1) _ assms(4,5)])
  have "list_limit opts' = list_limit opts" by (simp add: assms(6) list_limit_def)
  then have page': "page' = take n (drop n (listing opts d))"
    using List_jobs_InrD [OF assms(7)] rest by (simp add: n_def)
  have "n \<le> 100" by (auto simp: n_def list_limit_def nat_le_iff)
  moreover have "page @ page' = take (length page + n) (listing opts d)"
    by (subst split) (simp add: page')
  moreover have "set page \<subseteq> set (listing opts d)" unfolding page by (rule set_take_subset)
  moreover have "length page < n \<longrightarrow> page = listing opts d \<and> page' = []"
    using take_all_or_full page page' by (metis drop_all le_cases list.size(3) take_Nil take_all_iff not_le)
  moreover have "length page \<le> n" by (simp add: page)
  ultimately show ?thesis
    unfolding n_def [symmetric] using listing_set [of opts d] le_trans by blast
qed

text \<open>Two jobs, read one to a page.\<close>

definition one_per_page :: list_options where
  "one_per_page = zero_list_options\<lparr>lo_limit := 1\<rparr>"

lemma keyed_db_ok: "db_ok 50 keyed_db"
proof -
  have "db_ok 50 (apply_op (plain_env 50 ''j2'') (OpEnqueue keyed_request) sample_db)"
    using apply_op_db_ok [OF sample_db_ok, of "plain_env 50 ''j2''" "OpEnqueue keyed_request"] by simp
  then show ?thesis by (simp add: keyed_db_def)
qed

lemma list_paging_witness:
  "fst (List_jobs (plain_env 60 '''') one_per_page keyed_db) = Inr [keyed_job] \<and>
   (\<exists>page'. fst (List_jobs (plain_env 70 '''')
        (one_per_page\<lparr>lo_before_at := 50, lo_before_id := ''j2''\<rparr>) keyed_db) = Inr page'
      \<and> [keyed_job] @ page' = take 2 (listing one_per_page keyed_db))"
proof -
  let ?e = "plain_env 60 ''''" and ?e' = "plain_env 70 ''''"
  let ?o = "one_per_page\<lparr>lo_before_at := 50, lo_before_id := ''j2''\<rparr>"
  have f: "fst (List_jobs ?e one_per_page keyed_db) = Inr [keyed_job]" by code_simp
  then have l: "List_jobs ?e one_per_page keyed_db = (Inr [keyed_job], keyed_db)"
    using reads_pure(3) by (simp add: prod_eq_iff)
  have "\<not> isl (fst (List_jobs ?e' ?o keyed_db))" by code_simp
  then obtain page' where p: "fst (List_jobs ?e' ?o keyed_db) = Inr page'"
    by (cases "fst (List_jobs ?e' ?o keyed_db)") auto
  then have l': "List_jobs ?e' ?o keyed_db = (Inr page', keyed_db)"
    using reads_pure(3) by (simp add: prod_eq_iff)
  have "[keyed_job] @ page' = take (length [keyed_job] + nat (list_limit one_per_page)) (listing one_per_page keyed_db)"
    using list_paging [OF db_okD(1) [OF keyed_db_ok] l _ _ _ _ l']
    by (simp add: keyed_job_def new_job_def)
  with f p show ?thesis by (simp add: one_per_page_def list_limit_def numeral_2_eq_2)
qed

section \<open>The queue gauges\<close>

text \<open>Counting the rows of each group counts the rows.\<close>

lemma sum_groups:
  assumes "distinct gs" and "(\<lambda>j. (queue j, status j)) ` set rows \<subseteq> set gs"
  shows "sum_list (map (\<lambda>p. if P (snd p) then length (filter (\<lambda>j. queue j = fst p \<and> status j = snd p) rows) else 0) gs)
    = length (filter (\<lambda>j. P (status j)) rows)"
  using assms(2)
proof (induction rows)
  case (Cons j rows)
  let ?g = "\<lambda>p. if P (snd p) then length (filter (\<lambda>j. queue j = fst p \<and> status j = snd p) rows) else 0"
  let ?u = "\<lambda>p. if p = (queue j, status j) then (if P (status j) then 1 else 0) else 0 :: nat"
  have u: "sum_list (map ?u gs) = (if P (status j) then 1 else 0)"
    using assms(1) Cons.prems by (simp add: sum_list_distinct_conv_sum_set sum.delta)
  have step: "(if P (snd p) then length (filter (\<lambda>j. queue j = fst p \<and> status j = snd p) (j # rows)) else 0) = ?u p + ?g p" for p
    by auto
  have ih: "sum_list (map ?g gs) = length (filter (\<lambda>j. P (status j)) rows)"
    by (rule Cons.IH) (use Cons.prems in auto)
  let ?f = "\<lambda>p. if P (snd p) then length (filter (\<lambda>j. queue j = fst p \<and> status j = snd p) (j # rows)) else 0"
  have "sum_list (map ?f gs) = sum_list (map (\<lambda>p. ?u p + ?g p) gs)"
    by (rule arg_cong [where f = sum_list], rule map_cong [OF refl], rule step)
  also have "\<dots> = sum_list (map ?u gs) + sum_list (map ?g gs)" by (rule sum_list_addf)
  also have "\<dots> = length (filter (\<lambda>j. P (status j)) (j # rows))" unfolding u ih by simp
  finally show ?case .
next
  case Nil
  show ?case by (simp only: filter.simps list.size if_cancel sum_list_0)
qed

lemma length_filter_conj_le: "length (filter (\<lambda>x. P x \<and> Q x) xs) \<le> length (filter P xs)"
  by (induction xs) auto

text \<open>
  The queue gauges account for every job. \<open>QueueDepth\<close> lists each pair of queue and
  status that occurs once, in order, with the number of its jobs, so that the counts add
  up to the number of jobs; the jobs \<open>ParkedCount\<close> counts are among its queued and
  retrying ones.
\<close>

lemma queue_depth_counts:
  assumes "QueueDepth e d = (Inr depths, d1)" and "ParkedCount e' d = (Inr parked, d2)"
  shows "sum_list (map (\<lambda>(q, s, n). n) depths) = length (jobs d)
    \<and> (\<forall>(q, s, n)\<in>set depths. 0 < n \<and> n = length (filter (\<lambda>j. queue j = q \<and> status_string (status j) = s) (jobs d)))
    \<and> distinct (map (\<lambda>(q, s, n). (q, s)) depths)
    \<and> parked \<le> sum_list (map (\<lambda>(q, s, n). if s \<in> {''queued'', ''retrying''} then n else 0) depths)"
proof -
  let ?cnt = "\<lambda>p. length (filter (\<lambda>j. queue j = fst p \<and> status j = snd p) (jobs d))"
  have depths: "depths = map (\<lambda>(q, s). (q, status_string s, ?cnt (q, s))) (queue_groups d)"
    and parked: "parked = length (filter (\<lambda>j. status j \<in> {StatusQueued, StatusRetrying} \<and> pg_now e' < run_after j) (jobs d))"
    using assms by (auto simp: QueueDepth_def ParkedCount_def dest!: withTx_InrD)
  have grp: "set (queue_groups d) = (\<lambda>j. (queue j, status j)) ` set (jobs d)" "distinct (queue_groups d)"
    by (simp_all add: queue_groups_def)
  have count: "sum_list (map (\<lambda>p. if P (snd p) then ?cnt p else 0) (queue_groups d))
      = length (filter (\<lambda>j. P (status j)) (jobs d))" for P
    by (rule sum_groups [OF grp(2)]) (simp add: grp(1))
  have "sum_list (map (\<lambda>(q, s, n). n) depths) = length (jobs d)"
    using count [of "\<lambda>_. True"] by (simp add: depths comp_def case_prod_beta)
  moreover have "\<forall>(q, s, n)\<in>set depths. 0 < n \<and> n = length (filter (\<lambda>j. queue j = q \<and> status_string (status j) = s) (jobs d))"
    using grp(1) by (auto simp: depths filter_empty_conv)
  moreover have "distinct (map (\<lambda>(q, s, n). (q, s)) depths)"
    using grp(2) by (simp add: depths comp_def case_prod_beta distinct_map inj_on_def prod_eq_iff)
  moreover have "sum_list (map (\<lambda>(q, s, n). if s \<in> {''queued'', ''retrying''} then n else 0) depths)
      = length (filter (\<lambda>j. status j \<in> {StatusQueued, StatusRetrying}) (jobs d))"
  proof -
    have "status_string s \<in> {''queued'', ''retrying''} \<longleftrightarrow> s \<in> {StatusQueued, StatusRetrying}" for s
      by (cases s) simp_all
    then show ?thesis
      using count [of "\<lambda>s. s \<in> {StatusQueued, StatusRetrying}"]
      by (simp add: depths comp_def case_prod_beta del: insert_iff)
  qed
  moreover have "parked \<le> length (filter (\<lambda>j. status j \<in> {StatusQueued, StatusRetrying}) (jobs d))"
    unfolding parked by (rule length_filter_conj_le)
  ultimately show ?thesis by simp
qed

lemma queue_depth_counts_witness:
  "\<exists>depths parked. fst (QueueDepth (plain_env 60 '''') keyed_db) = Inr depths
     \<and> fst (ParkedCount (plain_env 60 '''') keyed_db) = Inr parked
     \<and> sum_list (map (\<lambda>(q, s, n). n) depths) = 2"
proof -
  let ?e = "plain_env 60 ''''"
  have f: "\<not> isl (fst (QueueDepth ?e keyed_db))" "\<not> isl (fst (ParkedCount ?e keyed_db))"
    "length (jobs keyed_db) = 2" by code_simp+
  obtain a d1 where q: "QueueDepth ?e keyed_db = (a, d1)" by fastforce
  with f obtain depths where q': "QueueDepth ?e keyed_db = (Inr depths, d1)" by (cases a) auto
  obtain b d2 where p: "ParkedCount ?e keyed_db = (b, d2)" by fastforce
  with f obtain parked where p': "ParkedCount ?e keyed_db = (Inr parked, d2)" by (cases b) auto
  from queue_depth_counts [OF q' p'] f q' p' show ?thesis by simp
qed

end
