(* ===== verification/Runtime.thy ===== *)
theory Runtime
  imports Queries Gojson
begin

text \<open>
  The workflow runtime of \<open>internal/engine\<close>: \<open>steps.go\<close>, \<open>sleep.go\<close>, \<open>signal.go\<close>,
  \<open>activities.go\<close> and \<open>children.go\<close>. A workflow or activity is a function of its context
  and input on a state; the runtime reaches the store only through the interface
  \<open>StepStore\<close>, here the record \<open>runtime\<close>, together with the clock and the timer of the
  process. The last section instantiates it by the PostgreSQL store, in a world where
  other processes act on the database before every call.
\<close>

section \<open>Results and contexts\<close>

text \<open>A Go call returns a value or an error, or panics.\<close>

datatype 'a ret = Ok 'a | Err goerr | Panic string

text \<open>\<open>stepRunner\<close>, without the store; \<open>frame\<close> is the activity path.\<close>

record runner =
  rn_job :: string
  rn_worker :: string
  rn_queue :: string
  rn_frame :: string

record ctx =
  ctx_runner :: "runner option"
  ctx_registry :: bool

definition background :: ctx where
  "background = \<lparr>ctx_runner = None, ctx_registry = False\<rparr>"

definition WithStepRunner :: "ctx \<Rightarrow> string \<Rightarrow> string \<Rightarrow> string \<Rightarrow> ctx" where
  "WithStepRunner c i w q = c\<lparr>ctx_runner := Some \<lparr>rn_job = i, rn_worker = w, rn_queue = q, rn_frame = ''''\<rparr>\<rparr>"

definition WithRegistry :: "ctx \<Rightarrow> ctx" where
  "WithRegistry c = c\<lparr>ctx_registry := True\<rparr>"

text \<open>The new runner does not carry the queue over.\<close>

definition pushFrame :: "ctx \<Rightarrow> string \<Rightarrow> ctx" where
  "pushFrame c name =
     (case ctx_runner c of
        None \<Rightarrow> c
      | Some r \<Rightarrow>
          let f = (if rn_frame r \<noteq> '''' then rn_frame r @ ''/'' @ name else name)
          in c\<lparr>ctx_runner := Some \<lparr>rn_job = rn_job r, rn_worker = rn_worker r, rn_queue = '''', rn_frame = f\<rparr>\<rparr>)"

definition scope :: "runner \<Rightarrow> string \<Rightarrow> string" where
  "scope r name = (if rn_frame r = '''' then name else rn_frame r @ ''/'' @ name)"

section \<open>The store as the runtime sees it\<close>

record 's runtime =
  get_step :: "string \<Rightarrow> string \<Rightarrow> 's \<Rightarrow> (goerr + bytes option) \<times> 's"
  save_step :: "string \<Rightarrow> string \<Rightarrow> string \<Rightarrow> bytes \<Rightarrow> 's \<Rightarrow> (goerr + bytes) \<times> 's"
  get_signal_at :: "string \<Rightarrow> string \<Rightarrow> int \<Rightarrow> 's \<Rightarrow> (goerr + bytes option) \<times> 's"
  enqueue :: "enqueue_request \<Rightarrow> 's \<Rightarrow> (goerr + job \<times> bool) \<times> 's"
  get_job :: "string \<Rightarrow> 's \<Rightarrow> (goerr + job) \<times> 's"
  time_now :: "'s \<Rightarrow> time \<times> 's"
  timer :: "duration \<Rightarrow> 's \<Rightarrow> goerr option \<times> 's"

type_synonym 's step_fn = "ctx \<Rightarrow> 's \<Rightarrow> bytes ret \<times> 's"
type_synonym 's workflow = "ctx \<Rightarrow> bytes \<Rightarrow> 's \<Rightarrow> bytes ret \<times> 's"

section \<open>Steps\<close>

definition RunStep :: "'s runtime \<Rightarrow> ctx \<Rightarrow> string \<Rightarrow> 's step_fn \<Rightarrow> 's \<Rightarrow> bytes ret \<times> 's" where
  "RunStep R c name fn s =
     (case ctx_runner c of
        None \<Rightarrow> fn c s
      | Some r \<Rightarrow>
          (case get_step R (rn_job r) (scope r name) s of
             (Inl err, s1) \<Rightarrow> (Err (Wrapf (''load step '' @ quoted name @ '': '') err ''''), s1)
           | (Inr (Some cached), s1) \<Rightarrow> (Ok cached, s1)
           | (Inr None, s1) \<Rightarrow>
               (case fn c s1 of
                  (Panic msg, s2) \<Rightarrow> (Panic msg, s2)
                | (Err err, s2) \<Rightarrow> (Err (Wrapf (''step '' @ quoted name @ '': '') err ''''), s2)
                | (Ok out, s2) \<Rightarrow>
                    (let out = (if out = '''' then ''{}'' else out)
                     in case save_step R (rn_job r) (rn_worker r) (scope r name) out s2 of
                          (Inl err, s3) \<Rightarrow> (Err (Wrapf (''save step '' @ quoted name @ '': '') err ''''), s3)
                        | (Inr stored, s3) \<Rightarrow> (Ok stored, s3)))))"

section \<open>Timers\<close>

definition timerKey :: "string \<Rightarrow> string" where
  "timerKey name = ''__timer:'' @ name"

definition Sleep :: "'s runtime \<Rightarrow> ctx \<Rightarrow> string \<Rightarrow> duration \<Rightarrow> 's \<Rightarrow> unit ret \<times> 's" where
  "Sleep R c name dur s =
     (if dur \<le> 0 then (Ok (), s)
      else if ctx_runner c = None then
        (case timer R dur s of (None, s1) \<Rightarrow> (Ok (), s1) | (Some err, s1) \<Rightarrow> (Err err, s1))
      else
        (case RunStep R c (timerKey name)
            (\<lambda>_ s. case time_now R s of (now, s1) \<Rightarrow>
               (case marshal_time (now + dur) of
                  None \<Rightarrow> (Err (New ''Time.MarshalJSON: year outside of range [0,9999]''), s1)
                | Some raw \<Rightarrow> (Ok raw, s1))) s of
           (Panic msg, s1) \<Rightarrow> (Panic msg, s1)
         | (Err err, s1) \<Rightarrow> (Err err, s1)
         | (Ok raw, s1) \<Rightarrow>
             (case unmarshal_time raw of
                None \<Rightarrow> (Err (Wrapf (''timer '' @ quoted name @ '': decode checkpoint: '') (New ''bad time'') ''''), s1)
              | Some wake \<Rightarrow>
                  (case time_now R s1 of (now, s2) \<Rightarrow>
                     if now < wake then (Err (SuspendError wake), s2) else (Ok (), s2)))))"

section \<open>Signals\<close>

definition signalPollInterval :: duration where
  "signalPollInterval = 5 * second"

definition signalKey :: "string \<Rightarrow> int \<Rightarrow> string" where
  "signalKey name index = ''__signal:'' @ name @ ''#'' @ int_str index"

definition suspend_poll :: "'s runtime \<Rightarrow> 's \<Rightarrow> 'a ret \<times> 's" where
  "suspend_poll R s = (case time_now R s of (now, s1) \<Rightarrow> (Err (SuspendError (now + signalPollInterval)), s1))"

definition WaitSignalAt :: "'s runtime \<Rightarrow> ctx \<Rightarrow> string \<Rightarrow> int \<Rightarrow> 's \<Rightarrow> bytes ret \<times> 's" where
  "WaitSignalAt R c name index s =
     (if index < 0 then (Err (New (''signal index '' @ int_str index @ '' out of range'')), s)
      else case ctx_runner c of
        None \<Rightarrow> (Err (New ''workrail: WaitSignal requires a worker''), s)
      | Some r \<Rightarrow>
          (case get_step R (rn_job r) (scope r (signalKey name index)) s of
             (Inl err, s1) \<Rightarrow> (Err (Wrapf (''load signal '' @ quoted name @ '': '') err ''''), s1)
           | (Inr (Some cached), s1) \<Rightarrow> (Ok cached, s1)
           | (Inr None, s1) \<Rightarrow>
               (case get_signal_at R (rn_job r) name index s1 of
                  (Inl err, s2) \<Rightarrow> (Err (Wrapf (''poll signal '' @ quoted name @ '': '') err ''''), s2)
                | (Inr None, s2) \<Rightarrow> suspend_poll R s2
                | (Inr (Some pl), s2) \<Rightarrow> RunStep R c (signalKey name index) (\<lambda>_ s. (Ok pl, s)) s2)))"

definition WaitSignal :: "'s runtime \<Rightarrow> ctx \<Rightarrow> string \<Rightarrow> 's \<Rightarrow> bytes ret \<times> 's" where
  "WaitSignal R c name = WaitSignalAt R c name 0"

section \<open>Activities\<close>

text \<open>\<open>acts\<close> is the activity table of the registry the context carries.\<close>

definition ExecuteActivity ::
    "(string \<Rightarrow> 's workflow option) \<Rightarrow> ctx \<Rightarrow> string \<Rightarrow> bytes \<Rightarrow> 's \<Rightarrow> bytes ret \<times> 's" where
  "ExecuteActivity acts c name input s =
     (if ctx_runner c = None then (Err (New ''workrail: ExecuteActivity requires a worker''), s)
      else if \<not> ctx_registry c
        then (Err (New ''workrail: ExecuteActivity requires a registered workflow runtime''), s)
      else (case acts name of
          None \<Rightarrow> (Err (New (''unknown activity '' @ quoted name)), s)
        | Some activity \<Rightarrow> activity (pushFrame c name) input s))"

section \<open>Children\<close>

definition childKey :: "string \<Rightarrow> string" where
  "childKey name = ''__child:'' @ name"

definition child_request :: "runner \<Rightarrow> string \<Rightarrow> string \<Rightarrow> bytes \<Rightarrow> enqueue_request" where
  "child_request r name ty input = zero_request\<lparr>rq_queue := rn_queue r, rq_type := ty, rq_payload := input,
     rq_key := ''child:'' @ rn_job r @ '':'' @ name, rq_parent := rn_job r\<rparr>"

text \<open>What the parent makes of the child it reads.\<close>

definition child_outcome :: "'s runtime \<Rightarrow> string \<Rightarrow> job \<Rightarrow> 's \<Rightarrow> bytes ret \<times> 's" where
  "child_outcome R name child s =
     (case status child of
        StatusSucceeded \<Rightarrow>
          (case job_result child of
             None \<Rightarrow> (Ok ''{}'', s)
           | Some out \<Rightarrow> (Ok (if out = '''' then ''{}'' else out), s))
      | StatusDeadLetter \<Rightarrow> (Err (PermanentError (New (''child workflow '' @ quoted name @ '' ended as '' @ status_string StatusDeadLetter))), s)
      | StatusCanceled \<Rightarrow> (Err (PermanentError (New (''child workflow '' @ quoted name @ '' ended as '' @ status_string StatusCanceled))), s)
      | _ \<Rightarrow> suspend_poll R s)"

definition ExecuteChild ::
    "'s runtime \<Rightarrow> ctx \<Rightarrow> string \<Rightarrow> string \<Rightarrow> bytes \<Rightarrow> 's \<Rightarrow> bytes ret \<times> 's" where
  "ExecuteChild R c name ty input0 s =
     (case ctx_runner c of
        None \<Rightarrow> (Err (New ''workrail: ExecuteChild requires a worker''), s)
      | Some r \<Rightarrow>
          (let input = (if input0 = '''' then ''{}'' else input0)
           in case RunStep R c (childKey name)
                (\<lambda>_ s. case enqueue R (child_request r name ty input) s of
                   (Inl err, s1) \<Rightarrow> (Err err, s1)
                 | (Inr (j, _), s1) \<Rightarrow> (Ok (marshal_string (job_id j)), s1)) s of
              (Panic msg, s1) \<Rightarrow> (Panic msg, s1)
            | (Err err, s1) \<Rightarrow> (Err err, s1)
            | (Ok raw, s1) \<Rightarrow>
                (case unmarshal_string raw of
                   None \<Rightarrow> (Err (Wrapf (''child '' @ quoted name @ '': decode checkpoint: '') (New ''bad string'') ''''), s1)
                 | Some i \<Rightarrow>
                     (case get_job R i s1 of
                        (Inl err, s2) \<Rightarrow> (Err (Wrapf (''child '' @ quoted name @ '': '') err ''''), s2)
                      | (Inr child, s2) \<Rightarrow> child_outcome R name child s2))))"

end
