(* ===== verification/Checkpoints.thy ===== *)
theory Checkpoints
  imports Runtime
begin

text \<open>
  The contract between the runtime and its store. The locale states what the runtime
  relies on, about one job: the checkpoints a state holds, and how states evolve when
  calls are made and other processes act. The lemmas on steps and timers are proved
  from it; the PostgreSQL store provides it.
\<close>

section \<open>The contract\<close>

text \<open>
  \<open>step s n\<close> is the checkpoint of the job under the scoped name \<open>n\<close>, \<open>gone s\<close> says the job
  has been deleted, \<open>later\<close> relates a state to those it can evolve into, and \<open>same u x\<close>
  says that \<open>x\<close> is how the store keeps \<open>u\<close>.
\<close>

locale checkpoint_store = evolution later for later :: "'s \<Rightarrow> 's \<Rightarrow> bool" +
  fixes R :: "'s runtime" and i :: string and valid :: "'s \<Rightarrow> bool"
    and step :: "'s \<Rightarrow> string \<Rightarrow> bytes option" and gone :: "'s \<Rightarrow> bool"
    and same :: "bytes \<Rightarrow> bytes \<Rightarrow> bool"
  assumes later_valid: "later s s' \<Longrightarrow> valid s \<Longrightarrow> valid s'"
    and later_step: "later s s' \<Longrightarrow> valid s \<Longrightarrow> step s n = Some v \<Longrightarrow> step s' n = Some v \<or> gone s'"
    and same_refl: "same v v"
    and get_later: "get_step R i n s = (got, s') \<Longrightarrow> later s s'"
    and get_step: "get_step R i n s = (Inr q, s') \<Longrightarrow> valid s \<Longrightarrow> q = step s' n"
    and save_later: "save_step R i w n v s = (res, s') \<Longrightarrow> later s s'"
    and save_step: "save_step R i w n v s = (Inr u, s') \<Longrightarrow> valid s \<Longrightarrow> \<exists>x. step s' n = Some x \<and> same u x"
    and now_later: "time_now R s = (t, s') \<Longrightarrow> later s s'"
begin

text \<open>A function run inside a step evolves the state.\<close>

definition evolves :: "'s step_fn \<Rightarrow> bool" where
  "evolves fn \<longleftrightarrow> (\<forall>c s. later s (snd (fn c s)))"

lemma evolvesD: "evolves fn \<Longrightarrow> fn c s = (r, s') \<Longrightarrow> later s s'"
  by (metis evolves_def snd_conv)

lemma run_step_later:
  assumes "ctx_runner c = Some r" and "rn_job r = i" and "evolves fn"
    and "RunStep R c name fn s = (out, s')"
  shows "later s s'"
proof -
  obtain q s1 where g: "get_step R i (scope r name) s = (q, s1)" by fastforce
  obtain f s2 where f: "fn c s1 = (f, s2)" by fastforce
  have l: "later s s1" "later s1 s2" using get_later [OF g] evolvesD [OF assms(3) f] by auto
  have "s' = s1 \<or> s' = s2 \<or> later s2 s'"
    using assms(4) g f
    by (auto simp: RunStep_def assms(1,2) Let_def dest: save_later
        split: sum.splits option.splits ret.splits prod.splits)
  then show ?thesis using l later_trans by blast
qed

text \<open>A step that returns a value has recorded it.\<close>

lemma run_step_records:
  assumes "ctx_runner c = Some r" and "rn_job r = i" and "evolves fn" and "valid s"
    and "RunStep R c name fn s = (Ok v, s')"
  shows "\<exists>x. step s' (scope r name) = Some x \<and> same v x"
proof -
  obtain q s1 where g: "get_step R i (scope r name) s = (q, s1)" by fastforce
  obtain f s2 where f: "fn c s1 = (f, s2)" by fastforce
  have v: "valid s1" "valid s2"
    using later_valid get_later [OF g] evolvesD [OF assms(3) f] assms(4) by auto
  show ?thesis
  proof (cases q)
    case (Inr cached)
    show ?thesis
    proof (cases cached)
      case (Some x)
      then show ?thesis
        using assms(5) g get_step [OF _ assms(4)] Inr same_refl by (auto simp: RunStep_def assms(1,2))
    next
      case None
      then show ?thesis
        using assms(5) g f Inr save_step [OF _ v(2)]
        by (auto simp: RunStep_def assms(1,2) Let_def split: ret.splits sum.splits prod.splits)
    qed
  qed (use assms(5) g in \<open>simp add: RunStep_def assms(1,2)\<close>)
qed

text \<open>
  A recorded step is answered from its checkpoint by one read: the function is not run,
  whatever it is, unless the state that read meets has lost the job.
\<close>

lemma run_step_replays:
  assumes "ctx_runner c = Some r" and "rn_job r = i" and "valid s" and "step s (scope r name) = Some x"
    and "later s s1"
  obtains (read) s2 where "\<And>fn. RunStep R c name fn s1 = (Ok x, s2)" and "later s1 s2"
      and "get_step R i (scope r name) s1 = (Inr (Some x), s2)"
  | (failed) err s2 e where "\<And>fn. RunStep R c name fn s1 = (Err err, s2)" and "\<And>t. err \<noteq> SuspendError t"
      and "later s1 s2" and "get_step R i (scope r name) s1 = (Inl e, s2)"
  | (gone) s2 q where "gone s2" and "later s1 s2" and "get_step R i (scope r name) s1 = (q, s2)"
proof -
  obtain q s2 where g: "get_step R i (scope r name) s1 = (q, s2)" by fastforce
  have v: "valid s1" using later_valid [OF assms(5,3)] .
  have l: "later s1 s2" by (rule get_later [OF g])
  show ?thesis
  proof (cases q)
    case (Inl err)
    have "RunStep R c name fn s1 = (Err (Wrapf (''load step '' @ quoted name @ '': '') err ''''), s2)" for fn
      using g Inl by (simp add: RunStep_def assms(1,2))
    then show ?thesis by (rule failed) (use l g Inl in auto)
  next
    case (Inr cached)
    then have c: "cached = step s2 (scope r name)" using get_step [OF _ v] g by simp
    have "step s2 (scope r name) = Some x \<or> gone s2"
      using later_step [OF later_trans [OF assms(5) l] assms(3,4)] .
    then show ?thesis
    proof
      assume x: "step s2 (scope r name) = Some x"
      then have "RunStep R c name fn s1 = (Ok x, s2)" for fn
        using g Inr c by (simp add: RunStep_def assms(1,2))
      then show ?thesis by (rule read) (use l g Inr c x in auto)
    qed (use gone l g in blast)
  qed
qed

text \<open>A timer whose deadline is recorded waits for that deadline, whatever it is asked.\<close>

lemma sleep_replays:
  assumes "ctx_runner c = Some r" and "rn_job r = i" and "valid s"
    and "step s (scope r (timerKey name)) = Some x" and "unmarshal_time x = Some wake"
    and "later s s1" and "0 < dur" and "Sleep R c name dur s1 = (out, s')"
  shows "\<exists>q s2. get_step R i (scope r (timerKey name)) s1 = (q, s2) \<and> (gone s2 \<or> (case q of
      Inl e \<Rightarrow> s' = s2 \<and> (\<exists>err. out = Err err \<and> (\<forall>t. err \<noteq> SuspendError t))
    | Inr _ \<Rightarrow> \<exists>now. time_now R s2 = (now, s') \<and> out = (if now < wake then Err (SuspendError wake) else Ok ())))"
proof (rule run_step_replays [OF assms(1-4,6)], goal_cases)
  case (1 s2)
  obtain now s3 where n: "time_now R s2 = (now, s3)" by fastforce
  then show ?case
    using assms(8) 1 assms(1,5,7) by (auto simp: Sleep_def split: if_splits)
next
  case (2 err s2)
  then show ?case using assms(8) assms(1,7) by (auto simp: Sleep_def)
qed blast

text \<open>A suspension for a timer has recorded its deadline.\<close>

lemma sleep_records:
  assumes "ctx_runner c = Some r" and "rn_job r = i" and "valid s"
    and "Sleep R c name dur s = (Err (SuspendError wake), s')"
  shows "\<exists>s1 raw x. later s s1 \<and> later s1 s' \<and> step s1 (scope r (timerKey name)) = Some x
    \<and> same raw x \<and> unmarshal_time raw = Some wake"
proof -
  define fn where "fn = (\<lambda>(_ :: ctx) s. case time_now R s of (now, s1) \<Rightarrow>
     (case marshal_time (now + dur) of
        None \<Rightarrow> (Err (New ''Time.MarshalJSON: year outside of range [0,9999]''), s1)
      | Some raw \<Rightarrow> (Ok raw, s1)))"
  have ev: "evolves fn"
    by (auto simp: evolves_def fn_def split: prod.splits option.splits dest: now_later)
  obtain out s1 where rs: "RunStep R c (timerKey name) fn s = (out, s1)" by fastforce
  have none: "out \<noteq> Err (SuspendError t)" for t
    using rs by (auto simp: RunStep_def assms(1) Let_def split: prod.splits sum.splits option.splits ret.splits)
  with assms(1,4) rs [unfolded fn_def] obtain raw where raw: "out = Ok raw" "unmarshal_time raw = Some wake"
    and l: "later s1 s'"
    by (auto simp: Sleep_def split: ret.splits option.splits prod.splits if_splits dest: now_later)
  have "\<exists>x. step s1 (scope r (timerKey name)) = Some x \<and> same raw x"
    using run_step_records [OF assms(1,2) ev assms(3)] rs raw(1) by blast
  moreover have "later s s1" by (rule run_step_later [OF assms(1,2) ev rs])
  ultimately show ?thesis using raw(2) l by blast
qed

text \<open>The deadline of a timer never moves, provided the store keeps JSON times.\<close>

lemma sleep_fixed:
  assumes "ctx_runner c = Some r" and "rn_job r = i" and "valid s"
    and "Sleep R c name dur s = (Err (SuspendError wake), s')"
    and "\<And>u x t. same u x \<Longrightarrow> unmarshal_time u = Some t \<Longrightarrow> unmarshal_time x = Some t"
    and "later s' s1" and "ctx_runner c' = Some r'" and "rn_job r' = i" and "scope r' = scope r"
    and "0 < dur'" and "Sleep R c' name dur' s1 = (out, s2)"
  shows "\<exists>q s3. get_step R i (scope r (timerKey name)) s1 = (q, s3) \<and> (gone s3 \<or> (case q of
      Inl e \<Rightarrow> s2 = s3 \<and> (\<exists>err. out = Err err \<and> (\<forall>t. err \<noteq> SuspendError t))
    | Inr _ \<Rightarrow> \<exists>now. time_now R s3 = (now, s2) \<and> out = (if now < wake then Err (SuspendError wake) else Ok ())))"
proof -
  from sleep_records [OF assms(1-4)] obtain s0 raw x where s0: "later s s0" "later s0 s'"
    "step s0 (scope r (timerKey name)) = Some x" "same raw x" "unmarshal_time raw = Some wake" by blast
  have "step s0 (scope r' (timerKey name)) = Some x" using s0(3) assms(9) by simp
  moreover have "unmarshal_time x = Some wake" by (rule assms(5) [OF s0(4,5)])
  moreover have "later s0 s1" using s0(2) assms(6) later_trans by blast
  moreover have "valid s0" by (rule later_valid [OF s0(1) assms(3)])
  ultimately show ?thesis
    using sleep_replays [OF assms(7,8) _ _ _ _ assms(10,11), of s0 x wake] by (simp add: assms(9))
qed

text \<open>A delivered signal is recorded under its index, and replayed from there.\<close>

lemma wait_records:
  assumes "ctx_runner c = Some r" and "rn_job r = i" and "valid s"
    and signal_later: "\<And>k s u s'. get_signal_at R i name k s = (u, s') \<Longrightarrow> later s s'"
    and "WaitSignalAt R c name index s = (Ok v, s')"
  shows "later s s' \<and> (\<exists>x. step s' (scope r (signalKey name index)) = Some x \<and> same v x)"
proof -
  let ?n = "scope r (signalKey name index)"
  obtain q s1 where g: "get_step R i ?n s = (q, s1)" by fastforce
  obtain u s2 where m: "get_signal_at R i name index s1 = (u, s2)" by fastforce
  have l: "later s s1" "later s1 s2" using get_later [OF g] signal_later [OF m] by blast+
  have v: "valid s2" using later_valid l assms(3) by blast
  have ev: "evolves (\<lambda>_ s. (Ok pl, s))" for pl by (simp add: evolves_def later_refl)
  show ?thesis
  proof (cases "\<exists>x. q = Inr (Some x)")
    case True
    then show ?thesis
      using assms(5) g get_step [OF _ assms(3)] same_refl l(1)
      by (auto simp: WaitSignalAt_def assms(1,2) split: if_splits)
  next
    case False
    then obtain pl where rs: "RunStep R c (signalKey name index) (\<lambda>_ s. (Ok pl, s)) s2 = (Ok v, s')"
      using assms(5) g m
      by (auto simp: WaitSignalAt_def assms(1,2) suspend_poll_def split: if_splits sum.splits option.splits prod.splits)
    have "later s s'" using l run_step_later [OF assms(1,2) ev rs] later_trans by blast
    then show ?thesis using run_step_records [OF assms(1,2) ev v rs] by blast
  qed
qed

lemma wait_replays:
  assumes "ctx_runner c = Some r" and "rn_job r = i" and "valid s" and "0 \<le> index"
    and "step s (scope r (signalKey name index)) = Some x" and "later s s1"
    and "WaitSignalAt R c name index s1 = (out, s2)"
  shows "\<exists>q s3. get_step R i (scope r (signalKey name index)) s1 = (q, s3) \<and> (gone s3 \<or> (s2 = s3 \<and> (case q of
      Inl e \<Rightarrow> \<exists>err. out = Err err \<and> (\<forall>t. err \<noteq> SuspendError t)
    | Inr _ \<Rightarrow> out = Ok x)))"
proof -
  let ?n = "scope r (signalKey name index)"
  obtain q s3 where g: "get_step R i ?n s1 = (q, s3)" by fastforce
  have l: "later s1 s3" by (rule get_later [OF g])
  have "step s3 ?n = Some x \<or> gone s3"
    by (rule later_step [OF later_trans [OF assms(6) l] assms(3,5)])
  moreover have "q = Inr p \<Longrightarrow> p = step s3 ?n" for p
    using get_step [OF _ later_valid [OF assms(6,3)]] g by simp
  ultimately show ?thesis
    using assms(4,7) g l by (cases q) (auto simp: WaitSignalAt_def assms(1,2))
qed

text \<open>A parent whose child is recorded watches that child, and enqueues nothing.\<close>

lemma child_replays:
  assumes "ctx_runner c = Some r" and "rn_job r = i" and "valid s"
    and "step s (scope r (childKey name)) = Some raw" and "unmarshal_string raw = Some k"
    and "later s s1" and "ExecuteChild R c name ty input s1 = (out, s')"
  shows "\<exists>q s2. get_step R i (scope r (childKey name)) s1 = (q, s2) \<and> (gone s2 \<or> (case q of
      Inl e \<Rightarrow> s' = s2 \<and> (\<exists>err. out = Err err \<and> (\<forall>t. err \<noteq> SuspendError t))
    | Inr _ \<Rightarrow> (case get_job R k s2 of
        (Inl e, s3) \<Rightarrow> s' = s3 \<and> (\<exists>err. out = Err err \<and> (\<forall>t. err \<noteq> SuspendError t))
      | (Inr j, s3) \<Rightarrow> child_outcome R name j s3 = (out, s'))))"
proof (rule run_step_replays [OF assms(1-4,6)], goal_cases)
  case (1 s2)
  then show ?case
    using assms(7) by (cases "get_job R k s2"; cases "fst (get_job R k s2)")
      (auto simp: ExecuteChild_def assms(1,5) Let_def)
next
  case (2 err s2)
  then show ?case using assms(7) by (auto simp: ExecuteChild_def assms(1) Let_def)
qed blast

end

section \<open>The PostgreSQL store\<close>

text \<open>
  A world is the database, the number of calls made so far and whatever lies outside
  (\<open>outside\<close>, which activities may change). \<open>E n\<close> says what happens around the \<open>n\<close>-th
  call: the operations other processes perform before it, and its own environment.
\<close>

record call_env =
  others :: "(senv \<times> store_op) list"
  here :: senv

record 'x world =
  wdb :: db
  tick :: nat
  outside :: 'x

definition call :: "(nat \<Rightarrow> call_env) \<Rightarrow> (senv \<Rightarrow> db \<Rightarrow> 'r \<times> db) \<Rightarrow> 'x world \<Rightarrow> 'r \<times> 'x world" where
  "call E f w =
     (case f (here (E (tick w))) (run_ops (others (E (tick w))) (wdb w)) of
        (r, d) \<Rightarrow> (r, w\<lparr>wdb := d, tick := tick w + 1\<rparr>))"

definition timer_call :: "senv \<Rightarrow> db \<Rightarrow> goerr option \<times> db" where
  "timer_call e d = ((case link e 0 of Acked \<Rightarrow> None | Lost err \<Rightarrow> Some err | Unacked err \<Rightarrow> Some err), d)"

definition postgres :: "(nat \<Rightarrow> call_env) \<Rightarrow> 'x world runtime" where
  "postgres E = \<lparr>
     get_step = (\<lambda>i n. call E (\<lambda>e. GetStep e i n)),
     save_step = (\<lambda>i w n v. call E (\<lambda>e. SaveStep e i w n v)),
     get_signal_at = (\<lambda>i n k. call E (\<lambda>e. GetSignalAt e i n k)),
     enqueue = (\<lambda>req. call E (\<lambda>e. Enqueue e req)),
     get_job = (\<lambda>i. call E (\<lambda>e. GetJob e i)),
     time_now = call E (\<lambda>e d. (go_now e, d)),
     timer = (\<lambda>dur. call E timer_call)\<rparr>"

lemma postgres_simps [simp]:
  "get_step (postgres E) i n = call E (\<lambda>e. GetStep e i n)"
  "save_step (postgres E) i w n v = call E (\<lambda>e. SaveStep e i w n v)"
  "get_signal_at (postgres E) i n k = call E (\<lambda>e. GetSignalAt e i n k)"
  "enqueue (postgres E) req = call E (\<lambda>e. Enqueue e req)"
  "get_job (postgres E) i = call E (\<lambda>e. GetJob e i)"
  "time_now (postgres E) = call E (\<lambda>e d. (go_now e, d))"
  "timer (postgres E) dur = call E timer_call"
  by (simp_all add: postgres_def)

text \<open>The database the next call of a world meets, and that call's environment.\<close>

definition met :: "(nat \<Rightarrow> call_env) \<Rightarrow> 'x world \<Rightarrow> db" where
  "met E s = run_ops (others (E (tick s))) (wdb s)"

definition env_at :: "(nat \<Rightarrow> call_env) \<Rightarrow> 'x world \<Rightarrow> senv" where
  "env_at E s = here (E (tick s))"

lemma call_met: "call E f s = (fst (f (env_at E s) (met E s)), s\<lparr>wdb := snd (f (env_at E s) (met E s)), tick := tick s + 1\<rparr>)"
  by (simp add: call_def met_def env_at_def split: prod.split)

text \<open>The world after a call that only reads: what the others did before it, and one call more.\<close>

definition after_read :: "(nat \<Rightarrow> call_env) \<Rightarrow> 'x world \<Rightarrow> 'x world" where
  "after_read E w = w\<lparr>wdb := met E w, tick := tick w + 1\<rparr>"

lemma after_read_simps [simp]:
  "wdb (after_read E w) = met E w" "tick (after_read E w) = tick w + 1" "outside (after_read E w) = outside w"
  by (simp_all add: after_read_def)

lemma call_reads: "(\<And>e d. snd (f e d) = d) \<Longrightarrow> call E f w = (fst (f (env_at E w) (met E w)), after_read E w)"
  by (simp add: call_met after_read_def)

text \<open>The reads a replay makes: of a checkpoint, of a child, of the clock.\<close>

lemma read_GetStep:
  assumes "call E (\<lambda>e. GetStep e i n) w = (q, w')"
  shows "w' = after_read E w \<and> (isl q \<longleftrightarrow> link (env_at E w) 0 \<noteq> Acked)"
proof -
  have "q = fst (GetStep (env_at E w) i n (met E w))" "w' = after_read E w"
    using assms by (simp_all add: call_reads [where f = "\<lambda>e. GetStep e i n"] reads_pure)
  then show ?thesis by (cases "link (env_at E w) 0") (simp_all add: GetStep_def withTx_def)
qed

text \<open>A read job arrives when both of its statements are answered.\<close>

lemma read_GetJob:
  assumes "call E (\<lambda>e. GetJob e k) w = (q, w')"
  shows "w' = after_read E w \<and> (if link (env_at E w) 0 = Acked \<and> link (env_at E w) 1 = Acked
    then (case lookup_job (met E w) k of None \<Rightarrow> isl q | Some j \<Rightarrow> q = Inr j) else isl q)"
proof -
  have "q = fst (GetJob (env_at E w) k (met E w))" "w' = after_read E w"
    using assms by (simp_all add: call_reads [where f = "\<lambda>e. GetJob e k"] reads_pure)
  then show ?thesis
    by (cases "link (env_at E w) 0"; cases "link (env_at E w) 1"; cases "lookup_job (met E w) k")
      (simp_all add: GetJob_def Get_def withTx_def)
qed

lemma read_clock: "call E (\<lambda>e d. (go_now e, d)) w = (go_now (env_at E w), after_read E w)"
  by (simp add: call_reads)

text \<open>The database clock when the \<open>n\<close>-th call starts.\<close>

definition call_start :: "(nat \<Rightarrow> call_env) \<Rightarrow> nat \<Rightarrow> time" where
  "call_start E n = (if n = 0 then 0 else pg_now (here (E (n - 1))))"

text \<open>
  What is assumed of the surroundings: the database clock does not go back, nobody draws
  the uuid of job \<open>i\<close> again, and \<open>jsonb\<close> is one function \<open>js\<close>.
\<close>

definition calls_ok :: "string \<Rightarrow> (bytes \<Rightarrow> bytes option) \<Rightarrow> (nat \<Rightarrow> call_env) \<Rightarrow> bool" where
  "calls_ok i js E \<longleftrightarrow> (\<forall>n. clocked (call_start E n) (others (E n))
     \<and> run_clock (call_start E n) (others (E n)) \<le> pg_now (here (E n))
     \<and> fresh_run i (others (E n)) \<and> new_uuid (here (E n)) \<noteq> i \<and> jsonb (here (E n)) = js)"

definition world_valid ::
    "(nat \<Rightarrow> call_env) \<Rightarrow> string \<Rightarrow> (bytes \<Rightarrow> bytes option) \<Rightarrow> 'x world \<Rightarrow> bool" where
  "world_valid E i js w \<longleftrightarrow> calls_ok i js E \<and> db_ok (call_start E (tick w)) (wdb w)"

text \<open>A world evolves by operations that respect those assumptions.\<close>

definition world_later ::
    "(nat \<Rightarrow> call_env) \<Rightarrow> string \<Rightarrow> (bytes \<Rightarrow> bytes option) \<Rightarrow> 'x world \<Rightarrow> 'x world \<Rightarrow> bool" where
  "world_later E i js w w' \<longleftrightarrow> (world_valid E i js w \<longrightarrow> world_valid E i js w' \<and>
     (\<exists>ops. clocked (call_start E (tick w)) ops \<and> fresh_run i ops \<and> wdb w' = run_ops ops (wdb w)
        \<and> run_clock (call_start E (tick w)) ops \<le> call_start E (tick w')))"

lemma clocked_earlier: "clocked t ops \<Longrightarrow> t' \<le> t \<Longrightarrow> clocked t' ops"
  by (cases ops) auto

lemma run_clock_mono: "t \<le> t' \<Longrightarrow> run_clock t ops \<le> run_clock t' ops"
  by (cases ops) auto

lemma run_clock_append: "run_clock t (xs @ ys) = run_clock (run_clock t xs) ys"
  by (induction t xs rule: run_clock.induct) auto

lemma world_later_refl: "world_later E i js w w"
  by (auto simp: world_later_def fresh_run_def intro!: exI [where x = "[]"])

lemma world_later_trans:
  assumes "world_later E i js w w'" and "world_later E i js w' w''"
  shows "world_later E i js w w''"
  unfolding world_later_def
proof (intro impI)
  assume v: "world_valid E i js w"
  let ?t = "\<lambda>w. call_start E (tick w)"
  from assms(1) v obtain ops where v': "world_valid E i js w'" and o1: "clocked (?t w) ops" "fresh_run i ops"
      "wdb w' = run_ops ops (wdb w)" "run_clock (?t w) ops \<le> ?t w'"
    by (auto simp: world_later_def)
  from assms(2) v' obtain ops' where v'': "world_valid E i js w''" and o2: "clocked (?t w') ops'"
      "fresh_run i ops'" "wdb w'' = run_ops ops' (wdb w')" "run_clock (?t w') ops' \<le> ?t w''"
    by (auto simp: world_later_def)
  have "clocked (?t w) (ops @ ops')" using o1(1) clocked_earlier [OF o2(1) o1(4)] by (simp add: clocked_append)
  moreover have "run_clock (?t w) (ops @ ops') \<le> ?t w''"
    using run_clock_mono [OF o1(4), of ops'] o2(4) by (simp add: run_clock_append)
  ultimately show "world_valid E i js w'' \<and> (\<exists>ops. clocked (?t w) ops \<and> fresh_run i ops
      \<and> wdb w'' = run_ops ops (wdb w) \<and> run_clock (?t w) ops \<le> ?t w'')"
    using v'' o1(2,3) o2(2,3) by (intro conjI exI [where x = "ops @ ops'"]) (simp_all add: run_ops_append)
qed

text \<open>A call whose effect on the database is that of store operations evolves the world.\<close>

lemma call_later:
  assumes "call E f w = (r, w')"
    and "\<And>e d. snd (f e d) = d \<or> (\<exists>a. snd (f e d) = apply_op e a d)"
  shows "world_later E i js w w'"
  unfolding world_later_def
proof (intro impI)
  assume v: "world_valid E i js w"
  let ?n = "tick w" and ?ops = "others (E (tick w))" and ?e = "here (E (tick w))"
  let ?t = "call_start E ?n"
  from v have ok: "clocked ?t ?ops" "run_clock ?t ?ops \<le> pg_now ?e" "fresh_run i ?ops" "new_uuid ?e \<noteq> i"
    and db: "db_ok ?t (wdb w)"
    by (auto simp: world_valid_def calls_ok_def)
  have w': "wdb w' = snd (f ?e (run_ops ?ops (wdb w)))" "tick w' = tick w + 1"
    using assms(1) by (auto simp: call_def split: prod.splits)
  have t': "call_start E (tick w') = pg_now ?e" by (simp add: w'(2) call_start_def)
  obtain ops where ops: "clocked ?t ops" "fresh_run i ops" "wdb w' = run_ops ops (wdb w)"
    "run_clock ?t ops \<le> pg_now ?e"
  proof (cases "snd (f ?e (run_ops ?ops (wdb w))) = run_ops ?ops (wdb w)")
    case True
    then show ?thesis using that [of ?ops] ok w' by simp
  next
    case False
    then obtain a where a: "wdb w' = apply_op ?e a (run_ops ?ops (wdb w))" using assms(2) w'(1) by metis
    show ?thesis
    proof (rule that [of "?ops @ [(?e, a)]"])
      show "clocked ?t (?ops @ [(?e, a)])" using ok by (simp add: clocked_append)
      show "fresh_run i (?ops @ [(?e, a)])" using ok by (simp add: fresh_run_def)
    qed (simp_all add: a run_ops_append run_clock_append)
  qed
  have "db_ok (pg_now ?e) (wdb w')"
    using db_ok_mono [OF run_ops_db_ok [OF db ops(1)] ops(4)] ops(3) by simp
  then show "world_valid E i js w' \<and> (\<exists>ops. clocked ?t ops \<and> fresh_run i ops
      \<and> wdb w' = run_ops ops (wdb w) \<and> run_clock ?t ops \<le> call_start E (tick w'))"
    using v ops by (auto simp: world_valid_def t')
qed

lemma SaveStep_InrD:
  "SaveStep e i w n v d = (Inr u, d') \<Longrightarrow>
   \<exists>x. lookup_step d' i n = Some x \<and> (u = x \<or> jsonb e u = Some x)"
  unfolding SaveStep_def Let_def
  by (auto dest!: withTx_InrD simp: appendEvent_def lookup_step_insert step_key_def
      split: option.splits sum.splits if_splits)

lemma call_GetStep:
  assumes "call E (\<lambda>e. GetStep e i n) w = (Inr q, w')"
  shows "q = lookup_step (wdb w') i n"
  using assms by (auto simp: call_def GetStep_def split: prod.splits dest: withTx_InrD)

interpretation pg: checkpoint_store "world_later E i js" "postgres E" i "world_valid E i js"
    "\<lambda>w. lookup_step (wdb w) i" "\<lambda>w. lookup_job (wdb w) i = None"
    "\<lambda>u x. u = x \<or> js u = Some x"
  for E i js
proof (unfold_locales, goal_cases)
  case (4 s s' n v)
  then obtain ops where ops: "clocked (call_start E (tick s)) ops" "fresh_run i ops" "wdb s' = run_ops ops (wdb s)"
    by (auto simp: world_later_def)
  have d: "db_ok (call_start E (tick s)) (wdb s)" using 4(2) by (simp add: world_valid_def)
  show ?case
    unfolding ops(3)
    by (rule run_ops_step [OF d ops(1,2) 4(3)])
next
  case (6 n s r s')
  then show ?case by (auto intro: call_later simp: reads_pure)
next
  case (7 n s q s')
  then show ?case by (auto dest: call_GetStep)
next
  case (8 w n v s r s')
  then have c: "call E (\<lambda>e. SaveStep e i w n v) s = (r, s')" by simp
  show ?case by (rule call_later [OF c]) (metis apply_op.simps(6))
next
  case (9 w n v s u s')
  then have "jsonb (here (E (tick s))) = js" by (simp add: world_valid_def calls_ok_def)
  with 9(1) show ?case by (auto simp: call_def split: prod.splits dest: SaveStep_InrD)
next
  case (10 s t s')
  then show ?case by (auto intro: call_later)
next
  case (1 s)
  show ?case by (rule world_later_refl)
next
  case (2 s s' s'')
  then show ?case by (rule world_later_trans)
qed (simp_all add: world_later_def)

end
