(* ===== verification/Runfacts.thy ===== *)
theory Runfacts
  imports Checkpoints
begin

text \<open>
  What the runtime guarantees on the PostgreSQL store, over any interference: a recorded
  step is not run again, a timer keeps its deadline, a signal wait keeps its delivery, a
  parent keeps its child; and where the runtime departs from its documentation.
\<close>

section \<open>Sample surroundings\<close>

text \<open>Nobody else acts, and the clock ticks once per call.\<close>

definition quiet :: "nat \<Rightarrow> call_env" where
  "quiet n = \<lparr>others = [], here = plain_env (40 + int n) ''j8''\<rparr>"

definition sample_world :: "unit world" where
  "sample_world = \<lparr>wdb = sample_db, tick = 1, outside = ()\<rparr>"

definition sample_ctx :: ctx where
  "sample_ctx = WithRegistry (WithStepRunner background ''j1'' ''w1'' ''default'')"

definition sample_runner :: runner where
  "sample_runner = \<lparr>rn_job = ''j1'', rn_worker = ''w1'', rn_queue = ''default'', rn_frame = ''''\<rparr>"

lemma sample_ctx_runner: "ctx_runner sample_ctx = Some sample_runner"
  by (simp add: sample_ctx_def sample_runner_def WithRegistry_def WithStepRunner_def)

lemma sample_runner_job: "rn_job sample_runner = ''j1''"
  by (simp add: sample_runner_def)

lemma quiet_ok: "calls_ok ''j1'' Some quiet"
  by (simp add: calls_ok_def quiet_def call_start_def fresh_run_def)

lemma sample_world_valid: "world_valid quiet ''j1'' Some sample_world"
  using quiet_ok sample_db_ok by (simp add: world_valid_def sample_world_def call_start_def quiet_def)

section \<open>Steps\<close>

text \<open>
  C19: A completed step is not run again. Once a step of a job has returned a value in
  some run of its workflow, every later run of the same step, by whatever worker, after
  whatever happened in between and whatever function it is given now, makes one read and
  nothing else: it returns the stored form of that value without calling the function, or,
  when the read is not answered, fails without calling it. The job must still be there
  when the read is made.
\<close>

theorem run_step_once:
  assumes "world_valid E i js w" and "ctx_runner c = Some r" and "rn_job r = i"
    and "\<And>c w. world_later E i js w (snd (fn c w))"
    and "RunStep (postgres E) c name fn w = (Ok v, w1)"
    and "world_later E i js w1 w2" and "ctx_runner c' = Some r'" and "rn_job r' = i"
    and "scope r' name' = scope r name" and "lookup_job (met E w2) i \<noteq> None"
  shows "\<exists>x. (v = x \<or> js v = Some x) \<and>
     (if link (env_at E w2) 0 = Acked
      then \<forall>fn'. RunStep (postgres E) c' name' fn' w2 = (Ok x, after_read E w2)
      else \<exists>err. \<forall>fn'. RunStep (postgres E) c' name' fn' w2 = (Err err, after_read E w2))"
proof -
  have ev: "pg.evolves E i js fn" using assms(4) by (simp add: pg.evolves_def)
  obtain x where x: "lookup_step (wdb w1) i (scope r name) = Some x" "v = x \<or> js v = Some x"
    using pg.run_step_records [OF assms(2,3) ev assms(1,5)] by blast
  have v1: "world_valid E i js w1"
    using pg.later_valid [OF pg.run_step_later [OF assms(2,3) ev assms(5)] assms(1)] .
  have s: "lookup_step (wdb w1) i (scope r' name') = Some x" using x(1) assms(9) by simp
  from assms(7,8) v1 s assms(6) show ?thesis
  proof (cases rule: pg.run_step_replays)
    case (read w3)
    then show ?thesis using x(2) read_GetStep [of E i "scope r' name'" w2] by auto
  next
    case (failed err w3 e)
    then show ?thesis using x(2) read_GetStep [of E i "scope r' name'" w2] by auto
  next
    case (gone w3 q)
    then show ?thesis using assms(10) read_GetStep [of E i "scope r' name'" w2] by auto
  qed
qed

lemma run_step_once_witness:
  "let fn = (\<lambda>_ w. (Ok ''1'', w)); r = RunStep (postgres quiet) sample_ctx ''pay'' fn sample_world
   in fst r = Ok ''1'' \<and>
     (\<forall>fn'. RunStep (postgres quiet) sample_ctx ''pay'' fn' (snd r) = (Ok ''1'', after_read quiet (snd r)))"
proof -
  let ?fn = "\<lambda>(_ :: ctx) (w :: unit world). (Ok ''1'', w)"
  let ?r = "RunStep (postgres quiet) sample_ctx ''pay'' ?fn sample_world"
  have o: "fst ?r = Ok ''1''" by code_simp
  then have rs: "?r = (Ok ''1'', snd ?r)" by (simp add: prod_eq_iff)
  have ev: "world_later quiet ''j1'' Some w (snd (?fn c w))" for c w by (simp add: world_later_refl)
  have there: "lookup_job (met quiet (snd ?r)) ''j1'' \<noteq> None" by code_simp
  have "link (env_at quiet (snd ?r)) 0 = Acked" by (simp add: env_at_def quiet_def)
  with run_step_once [OF sample_world_valid sample_ctx_runner sample_runner_job ev rs world_later_refl
      sample_ctx_runner sample_runner_job refl there] o show ?thesis unfolding Let_def by auto
qed

section \<open>Timers\<close>

text \<open>
  C20: The deadline of a timer does not move. When a sleep has suspended its run until
  some instant, every later sleep of that name in the job, whatever duration it is given
  now, reads the checkpoint and then the clock, and either suspends until that same
  instant, exactly while the clock is before it, or returns, exactly once it has passed;
  when the checkpoint cannot be read it fails without suspending. Nothing is written. The
  job must still be there when the checkpoint is read, and \<open>jsonb\<close> must keep the instant a
  JSON time denotes.
\<close>

theorem sleep_deadline_fixed:
  assumes "world_valid E i js w" and "ctx_runner c = Some r" and "rn_job r = i"
    and "Sleep (postgres E) c name dur w = (Err (SuspendError wake), w1)"
    and "\<And>u x t. js u = Some x \<Longrightarrow> unmarshal_time u = Some t \<Longrightarrow> unmarshal_time x = Some t"
    and "world_later E i js w1 w2" and "ctx_runner c' = Some r'" and "rn_job r' = i"
    and "scope r' = scope r" and "0 < dur'" and "Sleep (postgres E) c' name dur' w2 = (out, w3)"
    and "lookup_job (met E w2) i \<noteq> None"
  shows "if link (env_at E w2) 0 = Acked
    then w3 = after_read E (after_read E w2)
      \<and> out = (if go_now (env_at E (after_read E w2)) < wake then Err (SuspendError wake) else Ok ())
    else w3 = after_read E w2 \<and> (\<exists>err. out = Err err \<and> (\<forall>t. err \<noteq> SuspendError t))"
proof -
  have keeps: "unmarshal_time x = Some t" if "u = x \<or> js u = Some x" "unmarshal_time u = Some t" for u x t
    using that assms(5) by blast
  have ex: "\<exists>q s3. get_step (postgres E) i (scope r (timerKey name)) w2 = (q, s3)
    \<and> (lookup_job (wdb s3) i = None \<or> (case q of
      Inl e \<Rightarrow> w3 = s3 \<and> (\<exists>err. out = Err err \<and> (\<forall>t. err \<noteq> SuspendError t))
    | Inr _ \<Rightarrow> \<exists>now. time_now (postgres E) s3 = (now, w3)
        \<and> out = (if now < wake then Err (SuspendError wake) else Ok ())))"
    by (rule pg.sleep_fixed [OF assms(2,3,1,4) _ assms(6-11)]) (rule keeps)
  obtain q s3 where g: "get_step (postgres E) i (scope r (timerKey name)) w2 = (q, s3)"
    and c: "lookup_job (wdb s3) i = None \<or> (case q of
      Inl e \<Rightarrow> w3 = s3 \<and> (\<exists>err. out = Err err \<and> (\<forall>t. err \<noteq> SuspendError t))
    | Inr _ \<Rightarrow> \<exists>now. time_now (postgres E) s3 = (now, w3)
        \<and> out = (if now < wake then Err (SuspendError wake) else Ok ()))"
    using ex by (elim exE conjE)
  have "s3 = after_read E w2" "isl q \<longleftrightarrow> link (env_at E w2) 0 \<noteq> Acked"
    using read_GetStep [of E i _ w2 q s3] g by simp_all
  then show ?thesis using c assms(12) by (cases q) (simp_all add: read_clock)
qed

lemma sleep_deadline_fixed_witness:
  "let r = Sleep (postgres quiet) sample_ctx ''nap'' 1000 sample_world;
       r' = Sleep (postgres quiet) sample_ctx ''nap'' 999999 (snd r)
   in fst r = Err (SuspendError 1042) \<and> fst r' = Err (SuspendError 1042)
     \<and> snd r' = after_read quiet (after_read quiet (snd r))"
proof -
  let ?r = "Sleep (postgres quiet) sample_ctx ''nap'' 1000 sample_world"
  let ?r' = "Sleep (postgres quiet) sample_ctx ''nap'' 999999 (snd ?r)"
  have o: "fst ?r = Err (SuspendError 1042)" "fst ?r' = Err (SuspendError 1042)" by code_simp+
  then have s: "?r = (Err (SuspendError 1042), snd ?r)" by (simp add: prod_eq_iff)
  have s2: "?r' = (fst ?r', snd ?r')" by simp
  have there: "lookup_job (met quiet (snd ?r)) ''j1'' \<noteq> None" by code_simp
  have "link (env_at quiet (snd ?r)) 0 = Acked" by (simp add: env_at_def quiet_def)
  moreover have "if link (env_at quiet (snd ?r)) 0 = Acked
    then snd ?r' = after_read quiet (after_read quiet (snd ?r))
      \<and> fst ?r' = (if go_now (env_at quiet (after_read quiet (snd ?r))) < 1042 then Err (SuspendError 1042) else Ok ())
    else snd ?r' = after_read quiet (snd ?r) \<and> (\<exists>err. fst ?r' = Err err \<and> (\<forall>t. err \<noteq> SuspendError t))"
    by (rule sleep_deadline_fixed [OF sample_world_valid sample_ctx_runner sample_runner_job s _
          world_later_refl sample_ctx_runner sample_runner_job refl _ s2 there]) simp_all
  ultimately show ?thesis using o unfolding Let_def by simp
qed

section \<open>Signals\<close>

lemma WaitSignalAt_index: "WaitSignalAt R c name index s = (Ok v, s') \<Longrightarrow> 0 \<le> index"
  by (auto simp: WaitSignalAt_def split: if_splits)

text \<open>
  A signal wait sees the same delivery in every run. Once a wait for the \<open>n\<close>-th signal
  of a name has returned a payload, every later wait for it in that job, while the job is
  there, returns its stored form, whatever further signals have arrived and without another
  look at the mailbox, or fails when the read of the checkpoint does; it never suspends again.
\<close>

lemma wait_signal_replay:
  assumes "world_valid E i js w" and "ctx_runner c = Some r" and "rn_job r = i"
    and "WaitSignalAt (postgres E) c name index w = (Ok v, w1)"
    and "world_later E i js w1 w2" and "ctx_runner c' = Some r'" and "rn_job r' = i"
    and "scope r' = scope r" and "WaitSignalAt (postgres E) c' name index w2 = (out, w3)"
    and "lookup_job (met E w2) i \<noteq> None"
  shows "\<exists>x. (v = x \<or> js v = Some x) \<and> w3 = after_read E w2 \<and>
    (if link (env_at E w2) 0 = Acked then out = Ok x else (\<exists>err. out = Err err \<and> (\<forall>t. err \<noteq> SuspendError t)))"
proof -
  have sig: "world_later E i js w w'" if "get_signal_at (postgres E) i name k w = (u, w')" for k w u w'
    using that by (auto intro: call_later simp: reads_pure)
  have "world_later E i js w w1 \<and> (\<exists>x. lookup_step (wdb w1) i (scope r (signalKey name index)) = Some x
      \<and> (v = x \<or> js v = Some x))"
    by (rule pg.wait_records [OF assms(2,3,1) _ assms(4)]) (rule sig)
  then obtain x where l: "world_later E i js w w1"
    and x: "lookup_step (wdb w1) i (scope r (signalKey name index)) = Some x" "v = x \<or> js v = Some x" by blast
  have s: "lookup_step (wdb w1) i (scope r' (signalKey name index)) = Some x" using x(1) assms(8) by simp
  note ex = pg.wait_replays [OF assms(6,7) pg.later_valid [OF l assms(1)] WaitSignalAt_index [OF assms(4)] s assms(5,9)]
  obtain q s3 where g: "get_step (postgres E) i (scope r' (signalKey name index)) w2 = (q, s3)"
    and c: "lookup_job (wdb s3) i = None \<or> (w3 = s3 \<and> (case q of
      Inl e \<Rightarrow> \<exists>err. out = Err err \<and> (\<forall>t. err \<noteq> SuspendError t) | Inr _ \<Rightarrow> out = Ok x))"
    using ex by (elim exE conjE)
  have "s3 = after_read E w2" "isl q \<longleftrightarrow> link (env_at E w2) 0 \<noteq> Acked"
    using read_GetStep [of E i _ w2 q s3] g by simp_all
  then show ?thesis using c assms(10) x(2) by (cases q) (auto intro: exI [where x = x])
qed

lemma wait_signal_replay_witness:
  "let r = WaitSignalAt (postgres quiet) sample_ctx ''go'' 0 sample_world
   in fst r = Ok ''1'' \<and> fst (WaitSignalAt (postgres quiet) sample_ctx ''go'' 0 (snd r)) = Ok ''1''"
proof -
  let ?r = "WaitSignalAt (postgres quiet) sample_ctx ''go'' 0 sample_world"
  let ?r' = "WaitSignalAt (postgres quiet) sample_ctx ''go'' 0 (snd ?r)"
  have o: "fst ?r = Ok ''1''" by code_simp
  then have s: "?r = (Ok ''1'', snd ?r)" by (simp add: prod_eq_iff)
  have s2: "?r' = (fst ?r', snd ?r')" by simp
  have there: "lookup_job (met quiet (snd ?r)) ''j1'' \<noteq> None" by code_simp
  have "link (env_at quiet (snd ?r)) 0 = Acked" by (simp add: env_at_def quiet_def)
  then show ?thesis
    unfolding Let_def
    using wait_signal_replay [OF sample_world_valid sample_ctx_runner sample_runner_job s world_later_refl
        sample_ctx_runner sample_runner_job refl s2 there] o by auto
qed

section \<open>Children\<close>

text \<open>
  C21: A parent watches one child. Once the child of a name is recorded in a job, every
  later call for that name, whatever type and input it is given, reads the checkpoint and
  that child: a succeeded child yields its result, a dead-lettered or canceled one a
  permanent error, and a live one a suspension of five seconds from now. An unanswered
  read, or a child that is gone, is an error that is no suspension. In every case the call
  writes nothing, so it enqueues no second child: the database is left as the others left
  it. The parent must still be there when the checkpoint is read.
\<close>

theorem child_replay:
  assumes "world_valid E i js w" and "ctx_runner c = Some r" and "rn_job r = i"
    and "lookup_step (wdb w) i (scope r (childKey name)) = Some raw" and "unmarshal_string raw = Some k"
    and "world_later E i js w w1" and "ExecuteChild (postgres E) c name ty input w1 = (out, w2)"
    and "lookup_job (met E w1) i \<noteq> None" and "w3 = after_read E w1" and "w4 = after_read E w3"
  shows "if link (env_at E w1) 0 \<noteq> Acked
    then w2 = w3 \<and> (\<exists>err. out = Err err \<and> (\<forall>t. err \<noteq> SuspendError t))
    else if link (env_at E w3) 0 \<noteq> Acked \<or> link (env_at E w3) 1 \<noteq> Acked \<or> lookup_job (met E w3) k = None
    then w2 = w4 \<and> (\<exists>err. out = Err err \<and> (\<forall>t. err \<noteq> SuspendError t))
    else (\<exists>child. lookup_job (met E w3) k = Some child \<and>
        (case status child of
           StatusSucceeded \<Rightarrow> w2 = w4
             \<and> out = Ok (case job_result child of None \<Rightarrow> ''{}'' | Some s \<Rightarrow> if s = '''' then ''{}'' else s)
         | StatusDeadLetter \<Rightarrow> w2 = w4 \<and> (\<exists>err. out = Err err \<and> IsPermanent err)
         | StatusCanceled \<Rightarrow> w2 = w4 \<and> (\<exists>err. out = Err err \<and> IsPermanent err)
         | _ \<Rightarrow> w2 = after_read E w4
             \<and> out = Err (SuspendError (go_now (env_at E w4) + 5 * second))))"
proof -
  obtain q s where g: "get_step (postgres E) i (scope r (childKey name)) w1 = (q, s)"
    and c: "lookup_job (wdb s) i = None \<or> (case q of
      Inl e \<Rightarrow> w2 = s \<and> (\<exists>err. out = Err err \<and> (\<forall>t. err \<noteq> SuspendError t))
    | Inr _ \<Rightarrow> (case get_job (postgres E) k s of
        (Inl e, s3) \<Rightarrow> w2 = s3 \<and> (\<exists>err. out = Err err \<and> (\<forall>t. err \<noteq> SuspendError t))
      | (Inr j, s3) \<Rightarrow> child_outcome (postgres E) name j s3 = (out, w2)))"
    using pg.child_replays [OF assms(2,3,1,4-7)] by blast
  have s: "s = w3" "isl q \<longleftrightarrow> link (env_at E w1) 0 \<noteq> Acked"
    using read_GetStep [of E i _ w1 q s] g by (simp_all add: assms(9))
  obtain p s3 where p: "get_job (postgres E) k w3 = (p, s3)" by fastforce
  then have p3: "s3 = w4" "if link (env_at E w3) 0 = Acked \<and> link (env_at E w3) 1 = Acked
    then (case lookup_job (met E w3) k of None \<Rightarrow> isl p | Some j \<Rightarrow> p = Inr j) else isl p"
    using read_GetJob [of E k w3 p s3] by (simp_all add: assms(10))
  show ?thesis
  proof (cases q)
    case (Inl e)
    then show ?thesis using c s assms(8,9) by auto
  next
    case q: (Inr u)
    show ?thesis
    proof (cases p)
      case (Inl e)
      then show ?thesis using c s p p3 q assms(8,9) by (auto split: option.splits if_splits)
    next
      case (Inr j)
      then have j: "link (env_at E w3) 0 = Acked" "link (env_at E w3) 1 = Acked" "lookup_job (met E w3) k = Some j"
        using p3(2) by (auto split: option.splits if_splits)
      have "child_outcome (postgres E) name j w4 = (out, w2)" using c s p p3(1) q Inr assms(8,9) by auto
      then show ?thesis using j s q
        by (auto simp: child_outcome_def suspend_poll_def read_clock signalPollInterval_def IsPermanent_def
            split: status.splits option.splits)
    qed
  qed
qed

text \<open>A parent that has recorded a live child.\<close>

definition child_ops :: "(senv \<times> store_op) list" where
  "child_ops =
     [(plain_env 41 ''j2'', OpEnqueue (child_request sample_runner ''c'' ''echo'' ''5'')),
      (plain_env 42 '''', OpSaveStep ''j1'' ''w1'' (childKey ''c'') (marshal_string ''j2''))]"

definition child_world :: "unit world" where
  "child_world = \<lparr>wdb = run_ops child_ops sample_db, tick = 3, outside = ()\<rparr>"

lemma child_world_valid: "world_valid quiet ''j1'' Some child_world"
  using quiet_ok run_ops_db_ok [OF sample_db_ok, of child_ops]
  by (simp add: world_valid_def child_world_def call_start_def quiet_def child_ops_def)

lemma child_replay_witness:
  "let r = ExecuteChild (postgres quiet) sample_ctx ''c'' ''other'' ''6'' child_world
   in fst r = Err (SuspendError (45 + 5 * second)) \<and> wdb (snd r) = wdb child_world"
proof -
  let ?r = "ExecuteChild (postgres quiet) sample_ctx ''c'' ''other'' ''6'' child_world"
  have s: "lookup_step (wdb child_world) ''j1'' (scope sample_runner (childKey ''c'')) = Some (marshal_string ''j2'')"
    by code_simp
  have u: "unmarshal_string (marshal_string ''j2'') = Some ''j2''" by code_simp
  have r: "?r = (fst ?r, snd ?r)" by simp
  have m: "met quiet w = wdb w" for w :: "unit world" by (simp add: met_def quiet_def)
  have l: "link (env_at quiet w) n = Acked" for w :: "unit world" and n by (simp add: env_at_def quiet_def)
  have there: "lookup_job (met quiet child_world) ''j1'' \<noteq> None" unfolding m by code_simp
  have "map_option status (lookup_job (wdb child_world) ''j2'') = Some StatusQueued" by code_simp
  then obtain k where k: "lookup_job (wdb child_world) ''j2'' = Some k" "status k = StatusQueued" by auto
  from child_replay [OF child_world_valid sample_ctx_runner sample_runner_job s u world_later_refl r there refl refl]
  show ?thesis
    unfolding Let_def by (simp add: m l k) (simp add: env_at_def quiet_def child_world_def)
qed

text \<open>
  Two activities of one job that name their children alike share one child. The
  idempotency key of a child is made of the job and the name, without the activity path
  that scopes checkpoints, so the second activity's request, whatever workflow and input
  it asks for, answers the first one's job and enqueues nothing.
\<close>

lemma child_key_ignores_frame:
  assumes "db_ok now d" and "now \<le> pg_now e"
    and "Enqueue e (child_request (r\<lparr>rn_frame := f\<rparr>) name ty input) d = (Inr (j, created), d1)"
    and "clocked (pg_now e) ops" and "fresh_run (job_id j) ops" and "d2 = run_ops ops d1"
    and "lookup_job d2 (job_id j) \<noteq> None"
    and "Enqueue e' (child_request (r\<lparr>rn_frame := f'\<rparr>) name ty' input') d2 = (Inr (k, created'), d3)"
  shows "job_id k = job_id j \<and> workflow_type k = workflow_type j \<and> \<not> created' \<and> jobs d3 = jobs d2"
proof -
  let ?key = "''child:'' @ rn_job r @ '':'' @ name"
  have "job_id k = job_id j \<and> \<not> created' \<and> jobs d3 = jobs d2 \<and> lookup_job d2 (job_id j) = Some k"
    by (rule enqueue_again [OF assms(1-3) _ _ _ assms(4-8), where key = ?key])
      (simp_all add: child_request_def zero_request_def)
  moreover have "workflow_type k = workflow_type j" if k: "lookup_job d2 (job_id j) = Some k"
  proof (rule run_ops_job [where Q = "\<lambda>l. workflow_type l = workflow_type j", OF _ assms(4,5)])
    show ok: "db_ok (pg_now e) d1"
      using apply_op_db_ok [OF assms(1,2), of "OpEnqueue (child_request (r\<lparr>rn_frame := f\<rparr>) name ty input)"] assms(3) by simp
    have "j \<in> set (jobs d1)"
      using Enqueue_holds_key [OF db_okD(1) [OF assms(1)] assms(3)] by (simp add: child_request_def zero_request_def)
    then show "lookup_job d1 (job_id j) = Some j" using lookup_job_iff [OF db_okD(1) [OF ok]] by simp
    show "lookup_job (run_ops ops d1) (job_id j) = Some k" using k assms(6) by simp
  qed (auto elim!: row_change.cases dest: row_step_edge simp: same_identity_def orphan_def split: option.splits)
  ultimately show ?thesis by blast
qed

lemma child_key_ignores_frame_witness:
  "let req = child_request (sample_runner\<lparr>rn_frame := ''a''\<rparr>) ''c'' ''echo'' ''5'';
       req' = child_request (sample_runner\<lparr>rn_frame := ''b''\<rparr>) ''c'' ''sequence'' ''6''
   in \<exists>j d1 k c d3. Enqueue (plain_env 41 ''j2'') req sample_db = (Inr (j, True), d1)
     \<and> Enqueue (plain_env 42 ''j3'') req' d1 = (Inr (k, c), d3)
     \<and> job_id k = job_id j \<and> workflow_type k = workflow_type j \<and> \<not> c"
proof -
  let ?e = "plain_env 41 ''j2''" and ?e' = "plain_env 42 ''j3''"
  let ?req = "child_request (sample_runner\<lparr>rn_frame := ''a''\<rparr>) ''c'' ''echo'' ''5''"
  let ?req' = "child_request (sample_runner\<lparr>rn_frame := ''b''\<rparr>) ''c'' ''sequence'' ''6''"
  let ?j = "new_job ?e (NormalizeEnqueue 41 ?req) ''5''"
  have f: "fst (Enqueue ?e ?req sample_db) = Inr (?j, True)" by code_simp
  define d1 where "d1 = snd (Enqueue ?e ?req sample_db)"
  have e1: "Enqueue ?e ?req sample_db = (Inr (?j, True), d1)" using f by (simp add: prod_eq_iff d1_def)
  have g: "\<not> isl (fst (Enqueue ?e' ?req' (snd (Enqueue ?e ?req sample_db))))" by code_simp
  obtain a d3 where a: "Enqueue ?e' ?req' d1 = (a, d3)" by fastforce
  with g obtain k c where e2: "Enqueue ?e' ?req' d1 = (Inr (k, c), d3)" by (cases a) (auto simp: d1_def)
  have l: "lookup_job d1 (job_id ?j) \<noteq> None" unfolding d1_def by code_simp
  have "job_id k = job_id ?j \<and> workflow_type k = workflow_type ?j \<and> \<not> c \<and> jobs d3 = jobs d1"
    by (rule child_key_ignores_frame [OF sample_db_ok _ e1 _ _ _ l e2, where ops = "[]"]) (simp_all add: fresh_run_def)
  with e1 e2 show ?thesis unfolding Let_def by blast
qed

text \<open>
  A child started inside an activity leaves its parent's queue: the context an
  activity runs in has lost the queue, so whatever queue the job runs on, the child is
  enqueued on the queue named default.
\<close>

lemma activity_child_queue:
  assumes "ctx_runner c = Some r"
  shows "\<exists>r'. ctx_runner (pushFrame c act) = Some r' \<and> rn_job r' = rn_job r \<and> rn_worker r' = rn_worker r
    \<and> rq_queue (NormalizeEnqueue now (child_request r' name ty input)) = ''default''
    \<and> (rn_queue r \<noteq> '''' \<longrightarrow> rq_queue (NormalizeEnqueue now (child_request r name ty input)) = rn_queue r)"
  using assms by (simp add: pushFrame_def Let_def child_request_def zero_request_def)

lemma activity_child_queue_witness:
  "let c = WithStepRunner background ''j1'' ''w1'' ''gpu'' in
   \<exists>r'. ctx_runner (pushFrame c ''resize'') = Some r'
     \<and> rq_queue (NormalizeEnqueue 0 (child_request r' ''c'' ''echo'' '''')) = ''default''"
proof -
  have "ctx_runner (WithStepRunner background ''j1'' ''w1'' ''gpu'')
      = Some \<lparr>rn_job = ''j1'', rn_worker = ''w1'', rn_queue = ''gpu'', rn_frame = ''''\<rparr>"
    by (simp add: WithStepRunner_def)
  from activity_child_queue [OF this] show ?thesis unfolding Let_def by blast
qed

end
