(* ===== verification/Workflows.thy ===== *)
theory Workflows
  imports Runfacts
begin

text \<open>
  The registry of \<open>workflows.go\<close> with its built-in activities and the \<open>sequence\<close> workflow.
  A registry is three tables of functions; a workflow finds activities through the
  registry of its context, which here is the table it is given. YAML is decoded by a
  third-party package and JSON into structs by reflection: the decoded specification is
  an argument (\<open>decode\<close>), None when decoding fails.
\<close>

section \<open>The registry\<close>

record 's registry =
  workflows :: "string \<Rightarrow> 's workflow option"
  activities :: "string \<Rightarrow> 's workflow option"
  compensations :: "string \<Rightarrow> 's workflow option"

definition Register :: "string \<Rightarrow> 's workflow \<Rightarrow> 's registry \<Rightarrow> 's registry" where
  "Register name fn reg = reg\<lparr>workflows := (workflows reg)(name \<mapsto> fn)\<rparr>"

definition RegisterActivity :: "string \<Rightarrow> 's workflow \<Rightarrow> 's registry \<Rightarrow> 's registry" where
  "RegisterActivity name fn reg = reg\<lparr>activities := (activities reg)(name \<mapsto> fn)\<rparr>"

definition RegisterCompensation :: "string \<Rightarrow> 's workflow \<Rightarrow> 's registry \<Rightarrow> 's registry" where
  "RegisterCompensation ty fn reg = reg\<lparr>compensations := (compensations reg)(ty \<mapsto> fn)\<rparr>"

definition Execute :: "'s registry \<Rightarrow> ctx \<Rightarrow> string \<Rightarrow> bytes \<Rightarrow> 's \<Rightarrow> bytes ret \<times> 's" where
  "Execute reg c ty pl s =
     (case workflows reg ty of
        Some fn \<Rightarrow> fn c pl s
      | None \<Rightarrow>
          (case activities reg ty of
             Some fn \<Rightarrow> fn c pl s
           | None \<Rightarrow> (Err (New (''unknown workflow type '' @ quoted ty)), s)))"

section \<open>Built-in activities\<close>

definition echoWorkflow :: "'s workflow" where
  "echoWorkflow c pl s = (Ok (if pl = '''' then ''{}'' else pl), s)"

text \<open>\<open>decode\<close> gives the field \<open>seconds\<close>, or an error; the wait is the runtime's timer.\<close>

definition sleepWorkflow :: "'s runtime \<Rightarrow> (bytes \<Rightarrow> goerr + int) \<Rightarrow> 's workflow" where
  "sleepWorkflow R decode c pl s =
     (case (if pl = '''' then Inr 0 else decode pl) of
        Inl err \<Rightarrow> (Err err, s)
      | Inr n \<Rightarrow>
          (let n = (if n < 1 then 1 else n)
           in case timer R (n * second) s of
                (None, s1) \<Rightarrow> (Ok ([CHR ''{''] @ marshal_string ''slept_seconds'' @ '':'' @ int_str n @ [CHR ''}'']), s1)
              | (Some err, s1) \<Rightarrow> (Err err, s1)))"

section \<open>Sequences\<close>

record seq_step =
  sq_name :: string
  sq_activity :: string
  sq_input :: bytes

text \<open>A step without a name is called after its position, from 1.\<close>

definition seq_step_name :: "nat \<Rightarrow> seq_step \<Rightarrow> string" where
  "seq_step_name k st = (if sq_name st = '''' then ''step_'' @ int_str (int k + 1) else sq_name st)"

text \<open>
  The loop of \<open>sequenceWorkflow\<close>: \<open>done0\<close> is the map of results so far, in the order of the
  steps.
\<close>

fun run_sequence ::
    "'s runtime \<Rightarrow> (string \<Rightarrow> 's workflow option) \<Rightarrow> ctx \<Rightarrow> nat \<Rightarrow> seq_step list \<Rightarrow>
     (string \<times> bytes) list \<Rightarrow> 's \<Rightarrow> (string \<times> bytes) list ret \<times> 's" where
  "run_sequence R acts c k [] done0 s = (Ok done0, s)"
| "run_sequence R acts c k (st # steps) done0 s =
     (let name = seq_step_name k st
      in if map_of done0 name \<noteq> None then (Err (New (''duplicate step name '' @ quoted name)), s)
         else case RunStep R c name (\<lambda>c s. ExecuteActivity acts (pushFrame c name) (sq_activity st) (sq_input st) s) s of
             (Panic msg, s1) \<Rightarrow> (Panic msg, s1)
           | (Err err, s1) \<Rightarrow> (Err err, s1)
           | (Ok out, s1) \<Rightarrow> run_sequence R acts c (k + 1) steps (done0 @ [(name, out)]) s1)"

text \<open>
  \<open>json.Marshal\<close> of the map of raw results: members in the order of their keys, each raw
  result through \<open>compact\<close>, the validation and compaction of \<open>encoding/json\<close>.
\<close>

fun join_with :: "string \<Rightarrow> string list \<Rightarrow> string" where
  "join_with sep [] = ''''"
| "join_with sep [s] = s"
| "join_with sep (s # ss) = s @ sep @ join_with sep ss"

fun marshal_members :: "(bytes \<Rightarrow> goerr + bytes) \<Rightarrow> (string \<times> bytes) list \<Rightarrow> goerr + string list" where
  "marshal_members compact [] = Inr []"
| "marshal_members compact ((k, v) # ms) =
     (case compact v of
        Inl err \<Rightarrow> Inl err
      | Inr v' \<Rightarrow>
          (case marshal_members compact ms of
             Inl err \<Rightarrow> Inl err
           | Inr ms' \<Rightarrow> Inr ((marshal_string k @ '':'' @ v') # ms')))"

definition marshal_results :: "(bytes \<Rightarrow> goerr + bytes) \<Rightarrow> (string \<times> bytes) list \<Rightarrow> goerr + bytes" where
  "marshal_results compact results =
     (case marshal_members compact (sort_key fst results) of
        Inl err \<Rightarrow> Inl err
      | Inr ms \<Rightarrow> Inr ([CHR ''{''] @ join_with '','' ms @ [CHR ''}'']))"

definition sequenceWorkflow ::
    "'s runtime \<Rightarrow> (string \<Rightarrow> 's workflow option) \<Rightarrow> (bytes \<Rightarrow> goerr + seq_step list) \<Rightarrow>
     (bytes \<Rightarrow> goerr + bytes) \<Rightarrow> 's workflow" where
  "sequenceWorkflow R acts decode compact c pl s =
     (case (if pl = '''' then Inr [] else decode pl) of
        Inl err \<Rightarrow> (Err err, s)
      | Inr steps \<Rightarrow>
          (case run_sequence R acts c 0 steps [] s of
             (Panic msg, s1) \<Rightarrow> (Panic msg, s1)
           | (Err err, s1) \<Rightarrow> (Err err, s1)
           | (Ok results, s1) \<Rightarrow>
               (case marshal_results compact results of
                  Inl err \<Rightarrow> (Err err, s1)
                | Inr out \<Rightarrow> (Ok out, s1))))"

definition NewRegistry ::
    "'s runtime \<Rightarrow> (string \<Rightarrow> 's workflow option) \<Rightarrow> (bytes \<Rightarrow> goerr + int) \<Rightarrow>
     (bytes \<Rightarrow> goerr + seq_step list) \<Rightarrow> (bytes \<Rightarrow> goerr + bytes) \<Rightarrow> 's registry" where
  "NewRegistry R acts decode_sleep decode_seq compact =
     Register ''sequence'' (sequenceWorkflow R acts decode_seq compact)
       (RegisterActivity ''sleep'' (sleepWorkflow R decode_sleep)
         (RegisterActivity ''echo'' echoWorkflow
           \<lparr>workflows = (\<lambda>_. None), activities = (\<lambda>_. None), compensations = (\<lambda>_. None)\<rparr>))"

section \<open>Facts\<close>

text \<open>A workflow shadows an activity of the same name.\<close>

lemma Execute_workflow: "workflows reg ty = Some fn \<Longrightarrow> Execute reg c ty pl s = fn c pl s"
  by (simp add: Execute_def)

lemma Execute_activity:
  "workflows reg ty = None \<Longrightarrow> activities reg ty = Some fn \<Longrightarrow> Execute reg c ty pl s = fn c pl s"
  by (simp add: Execute_def)

fun seq_names :: "nat \<Rightarrow> seq_step list \<Rightarrow> string list" where
  "seq_names k [] = []"
| "seq_names k (st # steps) = seq_step_name k st # seq_names (k + 1) steps"

lemma run_sequence_names:
  "run_sequence R acts c k steps done0 s = (Ok res, s') \<Longrightarrow> distinct (map fst done0) \<Longrightarrow>
   map fst res = map fst done0 @ seq_names k steps \<and> distinct (map fst res)"
proof (induction R acts c k steps done0 s rule: run_sequence.induct)
  case (2 R acts c k st steps done0 s)
  let ?n = "seq_step_name k st"
  from 2(2) have new: "map_of done0 ?n = None" by (auto simp: Let_def split: if_splits)
  from 2(2) obtain out s1 where rs: "RunStep R c ?n
      (\<lambda>c s. ExecuteActivity acts (pushFrame c ?n) (sq_activity st) (sq_input st) s) s = (Ok out, s1)"
    and rest: "run_sequence R acts c (k + 1) steps (done0 @ [(?n, out)]) s1 = (Ok res, s')"
    by (auto simp: Let_def split: if_splits prod.splits ret.splits)
  have d: "distinct (map fst (done0 @ [(?n, out)]))"
    using 2(3) new by (auto simp: map_of_eq_None_iff)
  have both: "map fst res = map fst (done0 @ [(?n, out)]) @ seq_names (k + 1) steps \<and> distinct (map fst res)"
    by (rule 2(1) [OF refl _ rs [symmetric] refl rest d]) (simp add: new)
  then have "map fst res = map fst done0 @ seq_names k (st # steps)" by (elim conjE) simp
  with both show ?case by blast
qed simp

end
