(* ===== verification/Worker.thy ===== *)
theory Worker
  imports Workflows
begin

text \<open>
  The worker of \<open>worker.go\<close> and \<open>compensate.go\<close> on the PostgreSQL store: defaults, the
  execution of one job and the report of its outcome, the dead-letter hook, the heartbeat
  loop, and the polling loop with its drain as a step relation. A panic that no
  \<open>recover\<close> catches ends the process; here it is the result \<open>Panic\<close>.
\<close>

section \<open>Configuration\<close>

record worker =
  wk_id :: string
  wk_queue :: string
  wk_poll :: duration
  wk_lease :: duration
  wk_shutdown :: duration
  wk_retention :: duration
  wk_concurrency :: int

definition applyDefaults :: "worker \<Rightarrow> worker" where
  "applyDefaults w =
     (let w = (if wk_poll w = 0 then w\<lparr>wk_poll := second\<rparr> else w);
          w = (if wk_lease w = 0 then w\<lparr>wk_lease := 30 * second\<rparr> else w);
          w = (if wk_shutdown w = 0 then w\<lparr>wk_shutdown := 30 * second\<rparr> else w);
          w = (if wk_concurrency w \<le> 0 then w\<lparr>wk_concurrency := 4\<rparr> else w)
      in if wk_queue w = '''' then w\<lparr>wk_queue := ''default''\<rparr> else w)"

text \<open>Go's \<open>/\<close> truncates; the argument is positive where it is used.\<close>

definition heartbeatInterval :: "duration \<Rightarrow> duration" where
  "heartbeatInterval lease =
     (if lease \<le> 0 then 10 * second
      else let iv = lease div 3 in if iv \<le> 0 then 1000000 else iv)"

section \<open>One job\<close>

text \<open>The context of a run: the runner of the job and the registry, on a fresh context.\<close>

definition job_ctx :: "worker \<Rightarrow> job \<Rightarrow> ctx" where
  "job_ctx w j = WithRegistry (WithStepRunner background (job_id j) (wk_id w) (queue j))"

text \<open>\<open>stack\<close> is the text of \<open>debug.Stack()\<close>.\<close>

definition executeSafely :: "'s registry \<Rightarrow> string \<Rightarrow> ctx \<Rightarrow> job \<Rightarrow> 's \<Rightarrow> (goerr + bytes) \<times> 's" where
  "executeSafely reg stack c j s =
     (case Execute reg c (workflow_type j) (payload j) s of
        (Ok out, s1) \<Rightarrow> (Inr out, s1)
      | (Err err, s1) \<Rightarrow> (Inl err, s1)
      | (Panic msg, s1) \<Rightarrow> (Inl (New (''workflow panic: '' @ msg @ [CHR 0x0A] @ stack)), s1))"

text \<open>\<open>record\<close> of \<open>compensate\<close>: the event with its JSON details; a failure is only logged.\<close>

definition error_details :: "string \<Rightarrow> bytes" where
  "error_details msg = [CHR ''{''] @ marshal_string ''error'' @ '':'' @ marshal_string msg @ [CHR ''}'']"

definition record_outcome ::
    "(nat \<Rightarrow> call_env) \<Rightarrow> string \<Rightarrow> string \<Rightarrow> string \<Rightarrow> 'x world \<Rightarrow> unit ret \<times> 'x world" where
  "record_outcome E i ty msg s = (Ok (), snd (call E (\<lambda>e. RecordEvent e i ty (error_details msg)) s))"

definition compensate ::
    "(nat \<Rightarrow> call_env) \<Rightarrow> worker \<Rightarrow> 'x world registry \<Rightarrow> string \<Rightarrow> 'x world \<Rightarrow> unit ret \<times> 'x world" where
  "compensate E w reg i s =
     (case call E (\<lambda>e. Get e i) s of
        (Inl _, s1) \<Rightarrow> (Ok (), s1)
      | (Inr (j, _), s1) \<Rightarrow>
          if status j \<noteq> StatusDeadLetter then (Ok (), s1)
          else (case compensations reg (workflow_type j) of
              None \<Rightarrow> (Ok (), s1)
            | Some fn \<Rightarrow>
                (case fn (job_ctx w j) (payload j) s1 of
                   (Panic msg, s2) \<Rightarrow> (Panic msg, s2)
                 | (Err err, s2) \<Rightarrow> record_outcome E i ''job.compensation_failed'' (err_string err) s2
                 | (Ok _, s2) \<Rightarrow> record_outcome E i ''job.compensated'' '''' s2)))"

text \<open>The part of \<open>runJob\<close> after the execution: one terminal write.\<close>

definition report ::
    "(nat \<Rightarrow> call_env) \<Rightarrow> worker \<Rightarrow> 'x world registry \<Rightarrow> job \<Rightarrow> goerr + bytes \<Rightarrow> 'x world \<Rightarrow> unit ret \<times> 'x world" where
  "report E w reg j res s =
     (case res of
        Inl err \<Rightarrow>
          (case errors_As_suspend err of
             Some t \<Rightarrow> (Ok (), snd (call E (\<lambda>e. Suspend e (job_id j) (wk_id w) t (wake_version j)) s))
           | None \<Rightarrow>
               (case call E (\<lambda>e. Fail e (job_id j) (wk_id w) err) s of
                  (Inl _, s1) \<Rightarrow> (Ok (), s1)
                | (Inr _, s1) \<Rightarrow> compensate E w reg (job_id j) s1))
      | Inr out \<Rightarrow> (Ok (), snd (call E (\<lambda>e. Complete e (job_id j) (wk_id w) out) s)))"

text \<open>
  The heartbeats of \<open>runJob\<close> are made concurrently; as calls they are among the \<open>others\<close>
  of the environment, and their decision to cancel is \<open>heartbeat_loop\<close> below.
\<close>

definition runJob ::
    "(nat \<Rightarrow> call_env) \<Rightarrow> worker \<Rightarrow> 'x world registry \<Rightarrow> string \<Rightarrow> job \<Rightarrow> 'x world \<Rightarrow> unit ret \<times> 'x world" where
  "runJob E w reg stack j s =
     (case executeSafely reg stack (job_ctx w j) j s of (res, s1) \<Rightarrow> report E w reg j res s1)"

section \<open>Heartbeats\<close>

text \<open>
  One beat is the answer of \<open>Heartbeat\<close> with the time it arrives; the result is the time at
  which the loop cancels the job, None while it goes on.
\<close>

fun heartbeat_loop :: "duration \<Rightarrow> time \<Rightarrow> ((goerr + unit) \<times> time) list \<Rightarrow> time option" where
  "heartbeat_loop lease renewed [] = None"
| "heartbeat_loop lease renewed ((Inr _, now) # beats) = heartbeat_loop lease now beats"
| "heartbeat_loop lease renewed ((Inl err, now) # beats) =
     (if errors_Is err ErrInvalidTransition then Some now
      else if lease - heartbeatInterval lease \<le> now - renewed then Some now
      else heartbeat_loop lease renewed beats)"

section \<open>The polling loop\<close>

text \<open>
  The process between the points where its loop can be observed. \<open>nd_jobs\<close> are the jobs
  whose goroutines hold a slot of the semaphore, \<open>nd_stopping\<close> says that the context of
  \<open>Run\<close> is done, \<open>nd_canceled\<close> that the drain has timed out and canceled the execution
  context. What the goroutines do to the world is among the \<open>others\<close> of the loop's calls.
\<close>

datatype phase = Polling | Waiting | Draining | Grace | Returned | Crashed

record 'x node =
  nd_phase :: phase
  nd_jobs :: "job list"
  nd_stopping :: bool
  nd_canceled :: bool
  nd_world :: "'x world"

definition free_slots :: "worker \<Rightarrow> 'x node \<Rightarrow> int" where
  "free_slots w n = wk_concurrency w - int (length (nd_jobs n))"

definition poll_options :: "worker \<Rightarrow> int \<Rightarrow> claim_options" where
  "poll_options w free = \<lparr>co_worker = wk_id w, co_queue = wk_queue w, co_lease = wk_lease w, co_limit = free\<rparr>"

definition poll :: "(nat \<Rightarrow> call_env) \<Rightarrow> worker \<Rightarrow> 'x node \<Rightarrow> 'x node" where
  "poll E w n =
     (if 0 < free_slots w n then
        (case call E (\<lambda>e. Claim e (poll_options w (free_slots w n))) (nd_world n) of
           (Inl _, s) \<Rightarrow> n\<lparr>nd_phase := Waiting, nd_world := s\<rparr>
         | (Inr js, s) \<Rightarrow> n\<lparr>nd_phase := Waiting, nd_jobs := nd_jobs n @ js, nd_world := s\<rparr>)
      else n\<lparr>nd_phase := Waiting\<rparr>)"

fun compensate_all ::
    "(nat \<Rightarrow> call_env) \<Rightarrow> worker \<Rightarrow> 'x world registry \<Rightarrow> string list \<Rightarrow> 'x world \<Rightarrow> unit ret \<times> 'x world" where
  "compensate_all E w reg [] s = (Ok (), s)"
| "compensate_all E w reg (i # ids) s =
     (case compensate E w reg i s of
        (Panic msg, s1) \<Rightarrow> (Panic msg, s1)
      | (_, s1) \<Rightarrow> compensate_all E w reg ids s1)"

text \<open>The sweep of the loop: dead letters with their hooks, then retention.\<close>

definition sweep :: "(nat \<Rightarrow> call_env) \<Rightarrow> worker \<Rightarrow> 'x world registry \<Rightarrow> 'x world \<Rightarrow> unit ret \<times> 'x world" where
  "sweep E w reg s =
     (case (case call E DeadLetterExhausted s of
              (Inl _, s1) \<Rightarrow> (Ok (), s1)
            | (Inr ids, s1) \<Rightarrow> compensate_all E w reg ids s1) of
        (Panic msg, s1) \<Rightarrow> (Panic msg, s1)
      | (_, s1) \<Rightarrow>
          (Ok (), if 0 < wk_retention w
                  then snd (call E (\<lambda>e. PruneCompleted e (wk_queue w) (wk_retention w)) s1) else s1))"

inductive node_step ::
    "(nat \<Rightarrow> call_env) \<Rightarrow> worker \<Rightarrow> 'x world registry \<Rightarrow> 'x node \<Rightarrow> 'x node \<Rightarrow> bool" for E w reg where
  stop: "node_step E w reg n (n\<lparr>nd_stopping := True\<rparr>)"
| job_end: "j \<in> set (nd_jobs n) \<Longrightarrow> nd_phase n \<noteq> Crashed \<Longrightarrow> node_step E w reg n (n\<lparr>nd_jobs := remove1 j (nd_jobs n)\<rparr>)"
| claim: "nd_phase n = Polling \<Longrightarrow> \<not> nd_stopping n \<Longrightarrow> node_step E w reg n (poll E w n)"
| tick: "nd_phase n = Waiting \<Longrightarrow> node_step E w reg n (n\<lparr>nd_phase := Polling\<rparr>)"
| sweep: "nd_phase n = Waiting \<Longrightarrow> Worker.sweep E w reg (nd_world n) = (Ok (), s) \<Longrightarrow>
    node_step E w reg n (n\<lparr>nd_phase := Polling, nd_world := s\<rparr>)"
| crash: "nd_phase n = Waiting \<Longrightarrow> Worker.sweep E w reg (nd_world n) = (Panic msg, s) \<Longrightarrow>
    node_step E w reg n (n\<lparr>nd_phase := Crashed, nd_world := s\<rparr>)"
| job_crash: "nd_phase n \<noteq> Returned \<Longrightarrow> j \<in> set (nd_jobs n) \<Longrightarrow> runJob E w reg stack j s = (Panic msg, s') \<Longrightarrow>
    node_step E w reg n (n\<lparr>nd_phase := Crashed\<rparr>)"
| drain: "nd_phase n = Polling \<or> nd_phase n = Waiting \<Longrightarrow> nd_stopping n \<Longrightarrow>
    node_step E w reg n (n\<lparr>nd_phase := Draining\<rparr>)"
| drained: "nd_phase n = Draining \<or> nd_phase n = Grace \<Longrightarrow> nd_jobs n = [] \<Longrightarrow>
    node_step E w reg n (n\<lparr>nd_phase := Returned\<rparr>)"
| timeout: "nd_phase n = Draining \<Longrightarrow> node_step E w reg n (n\<lparr>nd_phase := Grace, nd_canceled := True\<rparr>)"
| give_up: "nd_phase n = Grace \<Longrightarrow> node_step E w reg n (n\<lparr>nd_phase := Returned\<rparr>)"

definition start_node :: "'x world \<Rightarrow> 'x node" where
  "start_node s = \<lparr>nd_phase = Polling, nd_jobs = [], nd_stopping = False, nd_canceled = False, nd_world = s\<rparr>"

inductive node_run ::
    "(nat \<Rightarrow> call_env) \<Rightarrow> worker \<Rightarrow> 'x world registry \<Rightarrow> 'x node \<Rightarrow> bool" for E w reg where
  start: "node_run E w reg (start_node s)"
| step: "node_run E w reg n \<Longrightarrow> node_step E w reg n n' \<Longrightarrow> node_run E w reg n'"

section \<open>Facts on one job\<close>

lemma job_ctx_runner: "ctx_runner (job_ctx w j) = Some \<lparr>rn_job = job_id j, rn_worker = wk_id w, rn_queue = queue j, rn_frame = ''''\<rparr>"
  by (simp add: job_ctx_def WithRegistry_def WithStepRunner_def)

text \<open>
  A run whose lease has gone elsewhere has no effect: whatever the workflow returned
  (result, failure, suspension or panic), the report of a worker that no longer holds the
  lease leaves the database as the others left it, and it triggers no compensation.
\<close>

lemma stale_run_discarded:
  assumes "\<forall>k\<in>set (jobs (met E s)). \<not> held_by (job_id j) (wk_id w) k"
  shows "report E w reg j res s = (Ok (), s\<lparr>wdb := met E s, tick := tick s + 1\<rparr>)"
proof (cases res)
  case (Inr out)
  obtain err where "Complete (env_at E s) (job_id j) (wk_id w) out (met E s) = (Inl err, met E s)"
    using complete.errors [OF assms] by blast
  then show ?thesis by (simp add: report_def Inr call_met)
next
  case (Inl err)
  show ?thesis
  proof (cases "errors_As_suspend err")
    case None
    obtain err' where "Fail (env_at E s) (job_id j) (wk_id w) err (met E s) = (Inl err', met E s)"
      using fail.errors [OF assms] by blast
    then show ?thesis by (simp add: report_def Inl None call_met)
  next
    case (Some t)
    show ?thesis by (simp add: report_def Inl Some call_met suspend.unchanged [OF assms])
  qed
qed

text \<open>The worker that claimed the sample job, and another one, with one panicking workflow.\<close>

definition sample_worker :: worker where
  "sample_worker = \<lparr>wk_id = ''w1'', wk_queue = ''default'', wk_poll = second, wk_lease = minute,
     wk_shutdown = second, wk_retention = 0, wk_concurrency = 2\<rparr>"

definition sample_registry :: "unit world registry" where
  "sample_registry = \<lparr>workflows = [''echo'' \<mapsto> (\<lambda>_ _ s. (Panic ''boom'', s))], activities = (\<lambda>_. None),
     compensations = (\<lambda>_. None)\<rparr>"

lemma met_quiet: "met quiet s = wdb s" "env_at quiet s = plain_env (40 + int (tick s)) ''j8''"
  by (simp_all add: met_def env_at_def quiet_def)

lemma stale_run_discarded_witness:
  "report quiet (sample_worker\<lparr>wk_id := ''w2''\<rparr>) sample_registry sample_job (Inr ''9'') sample_world =
     (Ok (), sample_world\<lparr>wdb := sample_db, tick := 2\<rparr>)"
proof -
  have "\<forall>k\<in>set (jobs (met quiet sample_world)). \<not> held_by (job_id sample_job) (wk_id (sample_worker\<lparr>wk_id := ''w2''\<rparr>)) k"
    by (simp add: met_quiet sample_world_def sample_db_facts held_by_def sample_job_def)
  from stale_run_discarded [OF this] show ?thesis by (simp add: met_quiet sample_world_def)
qed

text \<open>The database in which the sample job had one attempt, and it is running.\<close>

definition spent_job :: job where
  "spent_job = sample_job\<lparr>max_attempts := 1, wake_version := 0, updated_at := 20\<rparr>"

definition spent_world :: "unit world" where
  "spent_world = \<lparr>wdb = spent_db, tick = 1, outside = ()\<rparr>"

lemma spent_jobs: "jobs spent_db = [spent_job]"
  by code_simp

lemma spent_facts:
  "tables_ok spent_db" "lookup_job spent_db (job_id spent_job) = Some spent_job"
  "held_by (job_id spent_job) (wk_id sample_worker) spent_job"
  using db_okD(1) [OF spent_db_ok]
  by (simp_all add: lookup_job_def spent_jobs held_by_def spent_job_def sample_job_def sample_worker_def)

text \<open>A report by the holder whose write takes effect but whose answer is lost or not.\<close>

lemma report_failure:
  assumes "tables_ok (met E s)" and j: "lookup_job (met E s) (job_id j0) = Some j"
    and held: "held_by (job_id j0) (wk_id w) j" and "errors_As_suspend err = None"
  obtains d' k where "lookup_job d' (job_id j0) = Some k"
    and "status k = (if IsPermanent err \<or> max_attempts j \<le> attempt j then StatusDeadLetter else StatusRetrying)"
    and "job_error k = Some (err_string err)" and "attempt k = attempt j" and "lease_owner k = None"
    and "link (env_at E s) 0 = Acked \<Longrightarrow> report E w reg j0 (Inl err) s =
      compensate E w reg (job_id j0) (s\<lparr>wdb := d', tick := tick s + 1\<rparr>)"
    and "\<And>fault. link (env_at E s) 0 = Unacked fault \<Longrightarrow> report E w reg j0 (Inl err) s =
      (Ok (), s\<lparr>wdb := d', tick := tick s + 1\<rparr>)"
proof -
  define nxt ra where "nxt = NextStatusAfterFailure (attempt j) (max_attempts j) err"
    and "ra = (if nxt = StatusDeadLetter then go_now (env_at E s) else go_now (env_at E s) + Backoff (attempt j))"
  from Fail_effect [OF assms(1) j held nxt_def ra_def] obtain d' where
    f: "Fail (env_at E s) (job_id j0) (wk_id w) err (met E s) =
      (case link (env_at E s) 0 of Acked \<Rightarrow> (Inr (), d') | Lost e \<Rightarrow> (Inl e, met E s) | Unacked e \<Rightarrow> (Inl e, d'))"
    and l: "lookup_job d' (job_id j0) = Some (fail_row (env_at E s) nxt (err_string err) ra j)"
    by metis
  show ?thesis
    by (rule that [OF l]) (simp_all add: fail_row_def nxt_def NextStatusAfterFailure_def report_def assms(4) call_met f)
qed

text \<open>
  A panicking workflow is an ordinary failed attempt: the worker survives, and before
  any compensation the job is retried or, when its budget is spent, dead-lettered, with the
  panic and its stack as the recorded error and its lease released.
\<close>

lemma panic_is_failure:
  assumes "Execute reg (job_ctx w j0) (workflow_type j0) (payload j0) s = (Panic msg, s1)"
    and "tables_ok (met E s1)" and "lookup_job (met E s1) (job_id j0) = Some j"
    and "held_by (job_id j0) (wk_id w) j" and "link (env_at E s1) 0 = Acked"
  shows "\<exists>s2 k. runJob E w reg stack j0 s = compensate E w reg (job_id j0) s2 \<and> tick s2 = tick s1 + 1
    \<and> lookup_job (wdb s2) (job_id j0) = Some k
    \<and> status k = (if max_attempts j \<le> attempt j then StatusDeadLetter else StatusRetrying)
    \<and> job_error k = Some (''workflow panic: '' @ msg @ [CHR 0x0A] @ stack)
    \<and> attempt k = attempt j \<and> lease_owner k = None"
proof -
  let ?err = "New (''workflow panic: '' @ msg @ [CHR 0x0A] @ stack)"
  obtain d' k where "lookup_job d' (job_id j0) = Some k"
    and "status k = (if IsPermanent ?err \<or> max_attempts j \<le> attempt j then StatusDeadLetter else StatusRetrying)"
    and "job_error k = Some (err_string ?err)" "attempt k = attempt j" "lease_owner k = None"
    and "report E w reg j0 (Inl ?err) s1 = compensate E w reg (job_id j0) (s1\<lparr>wdb := d', tick := tick s1 + 1\<rparr>)"
    using report_failure [where err = ?err, OF assms(2-4)] assms(5) by (metis errors_As_suspend.simps(2))
  then show ?thesis
    by (intro exI [where x = "s1\<lparr>wdb := d', tick := tick s1 + 1\<rparr>"] exI [where x = k])
      (simp add: runJob_def executeSafely_def assms(1))
qed

lemma panic_is_failure_witness:
  "\<exists>s2 k. runJob quiet sample_worker sample_registry ''goroutine 1'' spent_job spent_world =
       compensate quiet sample_worker sample_registry ''j1'' s2 \<and> tick s2 = 2
    \<and> lookup_job (wdb s2) ''j1'' = Some k \<and> status k = StatusDeadLetter
    \<and> job_error k = Some (''workflow panic: '' @ ''boom'' @ [CHR 0x0A] @ ''goroutine 1'')"
proof -
  have e: "Execute sample_registry (job_ctx sample_worker spent_job) (workflow_type spent_job) (payload spent_job) spent_world =
      (Panic ''boom'', spent_world)"
    by (simp add: Execute_def sample_registry_def spent_job_def sample_job_def)
  have m: "met quiet spent_world = spent_db" by (simp add: met_quiet spent_world_def)
  have l: "link (env_at quiet spent_world) 0 = Acked" by (simp add: met_quiet)
  show ?thesis
    using panic_is_failure [where E = quiet, OF e, unfolded m, OF spent_facts l, of "''goroutine 1''"]
    by (auto simp: spent_job_def sample_job_def spent_world_def)
qed

text \<open>
  C23: A dead letter whose commit is not acknowledged is never compensated: when the failure of
  the last attempt (or a permanent one) takes effect but its answer is lost, the job is
  dead, and the worker's report ends there, without the call that looks for the hook.
\<close>

theorem lost_ack_skips_compensation:
  assumes "tables_ok (met E s)" and "lookup_job (met E s) (job_id j0) = Some j"
    and "held_by (job_id j0) (wk_id w) j" and "errors_As_suspend err = None"
    and "IsPermanent err \<or> max_attempts j \<le> attempt j" and "link (env_at E s) 0 = Unacked fault"
  shows "\<exists>s'. report E w reg j0 (Inl err) s = (Ok (), s') \<and> tick s' = tick s + 1
    \<and> map_option status (lookup_job (wdb s') (job_id j0)) = Some StatusDeadLetter"
  by (rule report_failure [where reg = reg, OF assms(1-4)]) (use assms(5,6) in simp)

text \<open>Every answer of the server is lost, after its effect.\<close>

definition cut_off :: "nat \<Rightarrow> call_env" where
  "cut_off n = \<lparr>others = [], here = (plain_env (40 + int n) ''j8'')\<lparr>link := (\<lambda>_. Unacked (New ''eof''))\<rparr>\<rparr>"

lemma lost_ack_skips_compensation_witness:
  "\<exists>s'. report cut_off sample_worker sample_registry spent_job (Inl (New ''declined'')) spent_world = (Ok (), s') \<and> tick s' = 2
    \<and> map_option status (lookup_job (wdb s') ''j1'') = Some StatusDeadLetter"
proof -
  have m: "met cut_off spent_world = spent_db" by (simp add: met_def cut_off_def spent_world_def)
  have l: "link (env_at cut_off spent_world) 0 = Unacked (New ''eof'')" by (simp add: env_at_def cut_off_def)
  have "errors_As_suspend (New ''declined'') = None" "IsPermanent (New ''declined'') \<or> max_attempts spent_job \<le> attempt spent_job"
    by (simp_all add: spent_job_def sample_job_def)
  from lost_ack_skips_compensation [where reg = sample_registry and E = cut_off and s = spent_world, unfolded m, OF spent_facts this l]
  show ?thesis by (simp add: spent_world_def spent_job_def sample_job_def numeral_2_eq_2)
qed

text \<open>
  C22: A signal that arrives while the workflow decides to wait costs the attempt: the
  suspension is skipped and leaves the job running under the worker's lease, which nobody
  renews; and when the attempt was the last one, the first sweep after the lease dead-letters the job,
  although neither the workflow nor the worker failed.
\<close>

theorem signal_race_spends_attempt:
  assumes "tables_ok (met E s)" and "lookup_job (met E s) (job_id j0) = Some j"
    and "held_by (job_id j0) (wk_id w) j" and "errors_As_suspend err = Some t"
    and "wake_version j \<noteq> wake_version j0" and "lease_expires_at j = Some x" and "x < pg_now e"
    and "max_attempts j \<le> attempt j" and "\<not> row_locked e (job_id j0)"
    and "advisory e ''workrail:dead_letter_sweep''"
    and "DeadLetterExhausted e (wdb (snd (report E w reg j0 (Inl err) s))) = (Inr ids, d')"
  shows "lookup_job (wdb (snd (report E w reg j0 (Inl err) s))) (job_id j0) = Some j
    \<and> job_id j0 \<in> set ids \<and> lookup_job d' (job_id j0) = Some (dead_row e j)"
proof -
  have i: "job_id j = job_id j0" and jin: "j \<in> set (jobs (met E s))"
    using lookup_job_id [OF assms(2)] lookup_job_in [OF assms(2)] by simp_all
  have "rows_affected (\<lambda>k. held_by (job_id j0) (wk_id w) k \<and> wake_version k = wake_version j0) (met E s) = 0"
    using only_row [OF assms(1,2)] assms(5) by (auto simp: rows_affected_0 held_by_def)
  then have "snd (Suspend (env_at E s) (job_id j0) (wk_id w) t (wake_version j0) (met E s)) = met E s"
    by (auto simp: Suspend_def withTx_def split: outcome.split)
  then have r: "wdb (snd (report E w reg j0 (Inl err) s)) = met E s"
    by (simp add: report_def assms(4) call_met)
  have "exhausted e j" using assms(3,6-8) by (simp add: exhausted_def held_by_def)
  with sweep_row [OF assms(1) assms(11) [unfolded r] assms(10) jin] assms(2,9)
  show ?thesis unfolding r i by simp
qed

text \<open>A signal arrives before the report of the suspension.\<close>

definition signaled :: "nat \<Rightarrow> call_env" where
  "signaled n = \<lparr>others = [(plain_env (39 + int n) '''', OpSignal ''j1'' ''go'' ''1'' '''')], here = plain_env (40 + int n) ''j8''\<rparr>"

definition woken_job :: job where
  "woken_job = spent_job\<lparr>wake_version := 1, updated_at := 40\<rparr>"

lemma signaled_jobs: "jobs (met signaled spent_world) = [woken_job]"
  by code_simp

lemma signal_race_spends_attempt_witness:
  "\<exists>d'. DeadLetterExhausted late_env (wdb (snd (report signaled sample_worker sample_registry spent_job
       (Inl (SuspendError 99)) spent_world))) = (Inr [''j1''], d')
    \<and> lookup_job d' ''j1'' = Some (dead_row late_env woken_job)"
proof -
  let ?d = "wdb (snd (report signaled sample_worker sample_registry spent_job (Inl (SuspendError 99)) spent_world))"
  have "fst (DeadLetterExhausted late_env ?d) = Inr [''j1'']" by code_simp
  then obtain d' where d': "DeadLetterExhausted late_env ?d = (Inr [''j1''], d')" by (metis prod.collapse)
  have "clocked 20 (others (signaled 1))" by (simp add: signaled_def)
  from db_okD(1) [OF run_ops_db_ok [OF spent_db_ok this]]
  have t: "tables_ok (met signaled spent_world)" by (simp add: met_def spent_world_def)
  have l: "lookup_job (met signaled spent_world) (job_id spent_job) = Some woken_job"
    by (simp add: lookup_job_def signaled_jobs woken_job_def)
  have h: "held_by (job_id spent_job) (wk_id sample_worker) woken_job"
    using spent_facts(3) by (simp add: held_by_def woken_job_def)
  have "lookup_job d' (job_id spent_job) = Some (dead_row late_env woken_job)"
    by (rule signal_race_spends_attempt [where x = 60000000020, OF t l h _ _ _ _ _ _ _ d', THEN conjunct2, THEN conjunct2])
      (simp_all add: woken_job_def spent_job_def sample_job_def late_env_def)
  with d' show ?thesis by (simp add: spent_job_def sample_job_def)
qed

text \<open>A panic of the hook is not recovered: it ends the process that reports the failure.\<close>

lemma compensation_panic_escapes:
  assumes "tables_ok (met E s)" and "lookup_job (met E s) (job_id j0) = Some j"
    and "held_by (job_id j0) (wk_id w) j" and "errors_As_suspend err = None"
    and "link (env_at E s) 0 = Acked"
    and "\<And>s1. \<exists>s2. compensate E w reg (job_id j0) s1 = (Panic msg, s2)"
  shows "\<exists>s'. report E w reg j0 (Inl err) s = (Panic msg, s')"
  by (rule report_failure [where reg = reg, OF assms(1-4)]) (use assms(5,6) in simp)

section \<open>The polling loop\<close>

lemma Claim_length: "Claim e opts d = (Inr js, d') \<Longrightarrow> 0 < co_limit opts \<Longrightarrow> int (length js) \<le> co_limit opts"
  by (auto simp: Claim_def Let_def claim_candidates_def claim_defaults_def dest!: withTx_InrD
      split: if_splits sum.splits)

lemma poll_claims:
  "0 < free_slots w n \<Longrightarrow>
   fst (Claim (env_at E (nd_world n)) (poll_options w (free_slots w n)) (met E (nd_world n))) = Inr js \<Longrightarrow>
   nd_jobs (poll E w n) = nd_jobs n @ js"
  by (simp add: poll_def call_met)

lemma poll_jobs:
  assumes "int (length (nd_jobs n)) \<le> wk_concurrency w"
  shows "int (length (nd_jobs (poll E w n))) \<le> wk_concurrency w"
proof (cases "0 < free_slots w n")
  case True
  obtain r s where c: "call E (\<lambda>e. Claim e (poll_options w (free_slots w n))) (nd_world n) = (r, s)" by fastforce
  show ?thesis
  proof (cases r)
    case (Inr js)
    obtain d' where "Claim (env_at E (nd_world n)) (poll_options w (free_slots w n)) (met E (nd_world n)) = (Inr js, d')"
      using c Inr by (auto simp: call_met prod_eq_iff)
    from Claim_length [OF this] True have "int (length js) \<le> free_slots w n" by (simp add: poll_options_def)
    then show ?thesis using c Inr True by (simp add: poll_def free_slots_def)
  qed (use c True assms in \<open>simp add: poll_def\<close>)
qed (use assms in \<open>simp add: poll_def\<close>)

lemma poll_simps [simp]: "nd_phase (poll E w n) = Waiting" "nd_canceled (poll E w n) = nd_canceled n"
  by (simp_all add: poll_def split: prod.split sum.split)

definition node_ok :: "worker \<Rightarrow> 'x node \<Rightarrow> bool" where
  "node_ok w n \<longleftrightarrow> int (length (nd_jobs n)) \<le> wk_concurrency w
     \<and> (nd_phase n = Grace \<longrightarrow> nd_canceled n) \<and> (nd_phase n = Returned \<and> \<not> nd_canceled n \<longrightarrow> nd_jobs n = [])"

lemma node_step_ok: "node_step E w reg n n' \<Longrightarrow> node_ok w n \<Longrightarrow> node_ok w n'"
proof (induction rule: node_step.induct)
  case (job_end j n)
  then show ?case by (auto simp: node_ok_def length_remove1)
next
  case (claim n)
  then show ?case by (simp add: node_ok_def poll_jobs)
qed (auto simp: node_ok_def)

text \<open>
  C24: The worker never runs more jobs than its concurrency, through claims, finished jobs,
  sweeps, stops and drains in any order; and when \<open>Run\<close> returns without the drain having
  canceled anything, no job is still running.
\<close>

theorem worker_capacity:
  assumes "node_run E (applyDefaults w0) reg n"
  shows "int (length (nd_jobs n)) \<le> wk_concurrency (applyDefaults w0) \<and> 0 < wk_concurrency (applyDefaults w0)
    \<and> (nd_phase n = Returned \<and> \<not> nd_canceled n \<longrightarrow> nd_jobs n = [])"
proof -
  have c: "0 < wk_concurrency (applyDefaults w0)" by (simp add: applyDefaults_def Let_def)
  from assms have "node_ok (applyDefaults w0) n"
  proof induction
    case (start s)
    then show ?case using c by (simp add: node_ok_def start_node_def)
  qed (rule node_step_ok)
  with c show ?thesis by (simp add: node_ok_def)
qed

text \<open>A worker without configuration claims the one job that is due.\<close>

definition bare_worker :: worker where
  "bare_worker = \<lparr>wk_id = ''w2'', wk_queue = '''', wk_poll = 0, wk_lease = 0, wk_shutdown = 0, wk_retention = 0,
     wk_concurrency = 0\<rparr>"

definition due_world :: "unit world" where
  "due_world = \<lparr>wdb = run_ops (take 1 sample_start) empty_db, tick = 1, outside = ()\<rparr>"

lemma worker_capacity_witness:
  "\<exists>n. node_run quiet (applyDefaults bare_worker) sample_registry n \<and> map job_id (nd_jobs n) = [''j1'']
    \<and> int (length (nd_jobs n)) \<le> wk_concurrency (applyDefaults bare_worker)"
proof -
  let ?n = "poll quiet (applyDefaults bare_worker) (start_node due_world)"
  have r: "node_run quiet (applyDefaults bare_worker) sample_registry ?n"
    by (rule node_run.step [OF node_run.start node_step.claim]) (simp_all add: start_node_def)
  define c where "c = fst (Claim (plain_env 41 ''j8'') (poll_options (applyDefaults bare_worker) 4) (wdb due_world))"
  have "(case c of Inl _ \<Rightarrow> None | Inr js \<Rightarrow> Some (map job_id js)) = Some [''j1'']" unfolding c_def by code_simp
  then obtain js where js: "c = Inr js" "map job_id js = [''j1'']" by (cases c) simp_all
  have f: "free_slots (applyDefaults bare_worker) (start_node due_world) = 4"
    by (simp add: free_slots_def start_node_def applyDefaults_def bare_worker_def)
  have w: "nd_world (start_node due_world) = due_world" "nd_jobs (start_node due_world) = []"
    "40 + int (tick due_world) = 41"
    by (simp_all add: start_node_def due_world_def)
  have "nd_jobs ?n = nd_jobs (start_node due_world) @ js"
  proof (rule poll_claims)
    show "0 < free_slots (applyDefaults bare_worker) (start_node due_world)" by (simp add: f)
    from js(1) show "fst (Claim (env_at quiet (nd_world (start_node due_world)))
       (poll_options (applyDefaults bare_worker) (free_slots (applyDefaults bare_worker) (start_node due_world)))
       (met quiet (nd_world (start_node due_world)))) = Inr js"
      unfolding f w met_quiet c_def .
  qed
  then have n: "nd_jobs ?n = js" unfolding w append_Nil .
  have "map job_id (nd_jobs ?n) = [''j1'']" unfolding n by (rule js(2))
  with worker_capacity [OF r] r show ?thesis by (intro exI conjI) (assumption | erule conjunct1)+
qed

text \<open>Once draining, a worker claims nothing more.\<close>

inductive_cases node_stepE: "node_step E w reg n n'"

lemma drain_claims_nothing:
  "node_step E w reg n n' \<Longrightarrow> nd_phase n \<in> {Draining, Grace, Returned, Crashed} \<Longrightarrow>
   set (nd_jobs n') \<subseteq> set (nd_jobs n) \<and> nd_phase n' \<in> {Draining, Grace, Returned, Crashed}"
  by (erule node_stepE) (auto dest: set_remove1_subset [THEN subsetD])

section \<open>The heartbeat loop\<close>

lemma heartbeatInterval_bounds:
  "3 \<le> lease \<Longrightarrow> heartbeatInterval lease = lease div 3 \<and> 3 * heartbeatInterval lease \<le> lease
     \<and> lease \<le> 3 * heartbeatInterval lease + 2 \<and> 0 < heartbeatInterval lease"
  by (simp add: heartbeatInterval_def Let_def) linarith

text \<open>
  C25: When heartbeats stop succeeding, the job is canceled by the third failed one: if a
  renewal was sent at \<open>t0\<close> and answered within the interval (less 2 ns), later heartbeats are sent
  every interval and fail with answers after at most \<open>late\<close>, the loop cancels no
  later than the end of the lease, counted from the renewal's sending, plus \<open>late\<close>.
\<close>

theorem heartbeat_bound:
  assumes "3 \<le> lease" and "0 \<le> d0" and "d0 \<le> heartbeatInterval lease - 2"
    and "0 \<le> d1" "d1 \<le> late" "0 \<le> d2" "d2 \<le> late" "0 \<le> d3" "d3 \<le> late"
  shows "\<exists>t. heartbeat_loop lease (t0 + d0)
      ((Inl e1, t0 + heartbeatInterval lease + d1) # (Inl e2, t0 + 2 * heartbeatInterval lease + d2)
        # (Inl e3, t0 + 3 * heartbeatInterval lease + d3) # beats) = Some t \<and> t \<le> t0 + lease + late"
  using heartbeatInterval_bounds [OF assms(1)] assms(2-) by auto

lemma heartbeat_bound_witness:
  "\<exists>t. heartbeat_loop (30 * second) (0 + 1000000)
      [(Inl (New ''refused''), 0 + heartbeatInterval (30 * second) + 0),
       (Inl (New ''refused''), 0 + 2 * heartbeatInterval (30 * second) + 500000),
       (Inl (New ''timeout''), 0 + 3 * heartbeatInterval (30 * second) + 5 * second)] = Some t
     \<and> t \<le> 0 + 30 * second + 5 * second"
  by (rule heartbeat_bound) (simp_all add: heartbeatInterval_def)

text \<open>
  The bound is not within the lease: with the default lease of 30 seconds, a renewal
  sent at time 0 and answered after a millisecond, a heartbeat that fails at 10 s, one that
  fails at 20 s after half a millisecond and one that fails at 30 s after its timeout of
  5 s, the job is canceled at 35 s, 5 s after its lease may have been taken over.
\<close>

lemma heartbeat_outlives_lease:
  "heartbeat_loop (30 * second) 1000000
     [(Inl (New ''refused''), 10 * second), (Inl (New ''refused''), 20 * second + 500000),
      (Inl (New ''timeout''), 35 * second)] = Some (35 * second) \<and> 0 + 30 * second < 35 * second"
  by (simp add: heartbeatInterval_def)

end
