(* ===== verification/Gostrings.thy ===== *)
theory Gostrings
  imports Gotime
begin

text \<open>
  What the program uses of \<open>strings\<close>, \<open>strconv\<close> and Go's 64-bit integers. Texts are byte
  strings; spaces and letters outside ASCII, which \<open>TrimSpace\<close> and \<open>ToLower\<close> also know,
  are not treated.
\<close>

section \<open>Strings\<close>

definition space_char :: "char \<Rightarrow> bool" where
  "space_char c \<longleftrightarrow> c \<in> {CHR 0x09, CHR 0x0A, CHR 0x0B, CHR 0x0C, CHR 0x0D, CHR 0x20}"

definition TrimSpace :: "string \<Rightarrow> string" where
  "TrimSpace s = rev (dropWhile space_char (rev (dropWhile space_char s)))"

definition has_prefix :: "string \<Rightarrow> string \<Rightarrow> bool" where
  "has_prefix p s \<longleftrightarrow> take (length p) s = p"

definition TrimPrefix :: "string \<Rightarrow> string \<Rightarrow> string" where
  "TrimPrefix p s = (if has_prefix p s then drop (length p) s else s)"

text \<open>\<open>strings.Cut\<close> at a one-byte separator: the parts before and after, and whether it was found.\<close>

definition Cut :: "char \<Rightarrow> string \<Rightarrow> string \<times> string \<times> bool" where
  "Cut c s =
     (if c \<in> set s then (takeWhile (\<lambda>x. x \<noteq> c) s, tl (dropWhile (\<lambda>x. x \<noteq> c) s), True) else (s, '''', False))"

text \<open>\<open>strings.Split\<close> at a one-byte separator.\<close>

fun Split_at :: "char \<Rightarrow> string \<Rightarrow> string list" where
  "Split_at c [] = ['''']"
| "Split_at c (x # s) =
     (if x = c then '''' # Split_at c s
      else (case Split_at c s of [] \<Rightarrow> [[x]] | w # ws \<Rightarrow> (x # w) # ws))"

definition lower_char :: "char \<Rightarrow> char" where
  "lower_char c = (if (65 :: int) \<le> of_char c \<and> of_char c \<le> (90 :: int) then char_of (of_char c + 32 :: int) else c)"

definition ToLower :: "string \<Rightarrow> string" where
  "ToLower s = map lower_char s"

definition EqualFold :: "string \<Rightarrow> string \<Rightarrow> bool" where
  "EqualFold s t \<longleftrightarrow> ToLower s = ToLower t"

section \<open>Integers\<close>

text \<open>The value of an \<open>int64\<close> expression: the exact one modulo \<open>2\<^sup>64\<close>, in two's complement.\<close>

definition wrap64 :: "int \<Rightarrow> int" where
  "wrap64 n = (n + 2 ^ 63) mod 2 ^ 64 - 2 ^ 63"

text \<open>Go's \<open>/\<close> and \<open>%\<close> truncate towards zero.\<close>

definition quot :: "int \<Rightarrow> int \<Rightarrow> int" where
  "quot a b = sgn a * sgn b * (\<bar>a\<bar> div \<bar>b\<bar>)"

definition rem :: "int \<Rightarrow> int \<Rightarrow> int" where
  "rem a b = a - b * quot a b"

text \<open>\<open>strconv.ParseInt(s, 10, 64)\<close>, and \<open>strconv.Atoi\<close>: None is an error.\<close>

definition ParseInt :: "string \<Rightarrow> int option" where
  "ParseInt s =
     (let neg = (s \<noteq> '''' \<and> hd s = CHR ''-'');
          ds = (if s \<noteq> '''' \<and> (hd s = CHR ''-'' \<or> hd s = CHR ''+'') then tl s else s)
      in if ds = '''' \<or> \<not> list_all is_digit ds then None
         else let n = (if neg then - decimal 0 ds else decimal 0 ds)
           in if - (2 ^ 63) \<le> n \<and> n < 2 ^ 63 then Some n else None)"

section \<open>Facts\<close>

lemma wrap64_id: "- (2 ^ 63) \<le> n \<Longrightarrow> n < 2 ^ 63 \<Longrightarrow> wrap64 n = n"
  by (simp add: wrap64_def)

lemma wrap64_range: "- (2 ^ 63) \<le> wrap64 n \<and> wrap64 n < 2 ^ 63"
  unfolding wrap64_def using pos_mod_bound [of "2 ^ 64" "n + 2 ^ 63"] pos_mod_sign [of "2 ^ 64" "n + 2 ^ 63"]
  by simp

lemma digits_digits: "0 \<le> n \<Longrightarrow> list_all is_digit (digits n) \<and> decimal 0 (digits n) = n \<and> digits n \<noteq> ''''"
proof (induction n rule: digits.induct)
  case (1 n)
  show ?case
  proof (cases "n < 10")
    case True
    then have "digits n = [char_of (48 + n mod 10)]" using 1(2) by (simp add: digits.simps [of n])
    then show ?thesis using digit_char [of n] True 1(2) by simp
  next
    case False
    then have "digits n = digits (n div 10) @ [char_of (48 + n mod 10)]" by (subst digits.simps) simp
    then show ?thesis using 1(1) [OF False] 1(2) digit_char [of n] by simp
  qed
qed

lemma digit_not_sign: "is_digit c \<Longrightarrow> c \<noteq> CHR ''-'' \<and> c \<noteq> CHR ''+'' \<and> c \<noteq> CHR ''.'' \<and> c \<noteq> CHR '','' \<and> c \<noteq> CHR ''$''
    \<and> \<not> space_char c"
  by (auto simp: is_digit_def space_char_def)

lemma ParseInt_digits:
  "list_all is_digit ds \<Longrightarrow> ds \<noteq> '''' \<Longrightarrow> decimal 0 ds < 2 ^ 63 \<Longrightarrow> 0 \<le> decimal 0 ds \<Longrightarrow> ParseInt ds = Some (decimal 0 ds)"
  using digit_not_sign by (cases ds) (auto simp: ParseInt_def Let_def)

lemma ParseInt_int_str: "- (2 ^ 63) \<le> n \<Longrightarrow> n < 2 ^ 63 \<Longrightarrow> ParseInt (int_str n) = Some n"
proof (cases "n < 0")
  case True
  assume "- (2 ^ 63) \<le> n"
  then show ?thesis using True digits_digits [of "- n"] by (simp add: ParseInt_def int_str_def Let_def)
next
  case False
  assume "n < 2 ^ 63"
  then show ?thesis using False digits_digits [of n] ParseInt_digits [of "digits n"] by (simp add: int_str_def)
qed

lemma Cut_first: "c \<notin> set s \<Longrightarrow> Cut c (s @ c # t) = (s, t, True)"
  by (induction s) (auto simp: Cut_def)

lemma trim_ends: "\<not> space_char a \<Longrightarrow> \<not> space_char b \<Longrightarrow> TrimSpace (a # s @ [b]) = a # s @ [b]"
  by (simp add: TrimSpace_def)

lemma Split_at_nonempty [simp]: "Split_at c s \<noteq> []"
  by (induction s) (auto split: list.split)

lemma Split_at_parts: "w \<in> set (Split_at c s) \<Longrightarrow> c \<notin> set w"
proof (induction s arbitrary: w)
  case (Cons x s)
  then show ?case by (cases "Split_at c s") (auto split: if_splits)
qed simp

lemma TrimSpace_subset: "set (TrimSpace s) \<subseteq> set s"
proof -
  have "set (rev (dropWhile space_char (rev (dropWhile space_char s)))) \<subseteq> set (dropWhile space_char s)"
    by (auto dest: set_dropWhileD)
  then show ?thesis unfolding TrimSpace_def by (auto dest: set_dropWhileD)
qed

end
