(* ===== verification/Ledger.thy ===== *)
theory Ledger
  imports Client
begin

text \<open>
  The ledger and the fake bank of \<open>examples/payments\<close> (\<open>ledger.go\<close>, \<open>bank.go\<close>,
  \<open>schema.sql\<close>): their tables, operations and invariants. As in the store, each
  transaction or statement is an atomic unit of work over the environment \<open>senv\<close>.
\<close>

section \<open>Tables\<close>

record entry =
  le_account :: string
  le_payout :: string
  le_kind :: string
  le_amount :: int

record transfer =
  tr_key :: string
  tr_ref :: string
  tr_status :: string
  tr_amount :: int
  tr_attempts :: int
  tr_after :: time

record payout =
  po_id :: string
  po_account :: string
  po_amount :: int
  po_destination :: bytes
  po_status :: string
  po_ref :: "string option"
  po_reason :: "string option"
  po_job :: "string option"
  po_created :: time
  po_updated :: time

record notification =
  nt_payout :: string
  nt_channel :: string
  nt_body :: string
  nt_at :: time

text \<open>The columns of \<open>accounts\<close> are apart: balances by id here, and the names, which never change.\<close>

record paydb =
  accounts :: "(string \<times> int) list"
  entries :: "entry list"
  transfers :: "transfer list"
  tries :: "(string \<times> int) list"
  payouts :: "payout list"
  notifications :: "notification list"
  names :: "(string \<times> string) list"

definition int8 :: "int \<Rightarrow> bool" where
  "int8 n \<longleftrightarrow> - (2 ^ 63) \<le> n \<and> n < 2 ^ 63"

definition check_error :: goerr where
  "check_error = New ''violates check constraint''"

section \<open>Ledger\<close>

definition ErrInsufficientFunds :: goerr where
  "ErrInsufficientFunds = Sentinel (App_error ''insufficient funds'')"

record hold =
  hd_payout :: string
  hd_account :: string
  hd_amount :: int
  hd_reused :: bool

definition ledger_entry :: "paydb \<Rightarrow> string \<Rightarrow> string \<Rightarrow> entry option" where
  "ledger_entry d p kind = find (\<lambda>x. le_payout x = p \<and> le_kind x = kind) (entries d)"

text \<open>
  \<open>UPDATE accounts SET balance_cents = ...\<close>: the column is a \<open>bigint\<close> with a check that it
  is not negative; an unknown account updates no row.
\<close>

definition set_balance :: "string \<Rightarrow> int \<Rightarrow> paydb \<Rightarrow> goerr + paydb" where
  "set_balance a delta d =
     (case map_of (accounts d) a of
        None \<Rightarrow> Inr d
      | Some b \<Rightarrow>
          if \<not> int8 (b + delta) then Inl range_error
          else if b + delta < 0 then Inl check_error
          else Inr (d\<lparr>accounts := map (\<lambda>(k, v). if k = a then (k, b + delta) else (k, v)) (accounts d)\<rparr>))"

definition add_entry :: "string \<Rightarrow> string \<Rightarrow> string \<Rightarrow> int \<Rightarrow> paydb \<Rightarrow> paydb" where
  "add_entry a p kind n d = d\<lparr>entries := entries d @ [\<lparr>le_account = a, le_payout = p, le_kind = kind, le_amount = n\<rparr>]\<rparr>"

definition Reserve :: "senv \<Rightarrow> string \<Rightarrow> string \<Rightarrow> int \<Rightarrow> paydb \<Rightarrow> (goerr + hold) \<times> paydb" where
  "Reserve e p a n =
     withTx e 0 (\<lambda>d.
       let h = \<lparr>hd_payout = p, hd_account = a, hd_amount = n, hd_reused = False\<rparr>
       in if ledger_entry d p ''hold'' \<noteq> None then Inr (h\<lparr>hd_reused := True\<rparr>, d)
          else (case map_of (accounts d) a of
              None \<Rightarrow> Inl (New (''unknown account '' @ quoted a))
            | Some b \<Rightarrow>
                if b < n then Inl (Wrapf '''' ErrInsufficientFunds
                    ('': balance '' @ int_str b @ '', requested '' @ int_str n))
                else if p \<notin> po_id ` set (payouts d) then Inl foreign_key_error
                else (case set_balance a (- n) (add_entry a p ''hold'' n d) of
                    Inl err \<Rightarrow> Inl err
                  | Inr d' \<Rightarrow> Inr (h, d'))))"

definition Post :: "senv \<Rightarrow> string \<Rightarrow> paydb \<Rightarrow> (goerr + unit) \<times> paydb" where
  "Post e p =
     withTx e 0 (\<lambda>d. case ledger_entry d p ''hold'' of
         None \<Rightarrow> Inr ((), d)
       | Some x \<Rightarrow> if ledger_entry d p ''post'' \<noteq> None then Inr ((), d)
           else Inr ((), add_entry (le_account x) p ''post'' (le_amount x) d))"

definition Release :: "senv \<Rightarrow> string \<Rightarrow> paydb \<Rightarrow> (goerr + unit) \<times> paydb" where
  "Release e p =
     withTx e 0 (\<lambda>d. case ledger_entry d p ''hold'' of
         None \<Rightarrow> Inr ((), d)
       | Some x \<Rightarrow> if ledger_entry d p ''release'' \<noteq> None then Inr ((), d)
           else (case set_balance (le_account x) (le_amount x)
                   (add_entry (le_account x) p ''release'' (le_amount x) d) of
               Inl err \<Rightarrow> Inl err
             | Inr d' \<Rightarrow> Inr ((), d')))"

section \<open>Bank\<close>

definition ErrRailUnavailable :: goerr where
  "ErrRailUnavailable = Sentinel (App_error ''ach rail unavailable'')"

definition ErrRejected :: goerr where
  "ErrRejected = Sentinel (App_error ''transfer rejected'')"

definition rejectRoutingNumber :: string where
  "rejectRoutingNumber = ''000000000''"

definition flakyCents :: int where "flakyCents = 13"
definition flakyFailures :: int where "flakyFailures = 2"
definition returnedCents :: int where "returnedCents = 99"
definition settleLag :: duration where "settleLag = 6 * second"

text \<open>\<open>Transfer\<close>, the part of the row the program reads.\<close>

record transfer_view =
  tv_ref :: string
  tv_status :: string
  tv_amount :: int
  tv_attempts :: int

definition view_transfer :: "transfer \<Rightarrow> transfer_view" where
  "view_transfer r = \<lparr>tv_ref = tr_ref r, tv_status = tr_status r, tv_amount = tr_amount r, tv_attempts = tr_attempts r\<rparr>"

definition bank_row :: "paydb \<Rightarrow> string \<Rightarrow> transfer option" where
  "bank_row d k = row_at tr_key k (transfers d)"

definition lookup_transfer :: "senv \<Rightarrow> nat \<Rightarrow> string \<Rightarrow> paydb \<Rightarrow> (goerr + transfer_view option) \<times> paydb" where
  "lookup_transfer e u k = withTx e u (\<lambda>d. Inr (map_option view_transfer (bank_row d k), d))"

definition recordAttempt :: "senv \<Rightarrow> nat \<Rightarrow> string \<Rightarrow> paydb \<Rightarrow> (goerr + int) \<times> paydb" where
  "recordAttempt e u k =
     withTx e u (\<lambda>d. case map_of (tries d) k of
         None \<Rightarrow> Inr (1, d\<lparr>tries := tries d @ [(k, 1)]\<rparr>)
       | Some n \<Rightarrow> if int4 (n + 1)
           then Inr (n + 1, d\<lparr>tries := map (\<lambda>(k', v). if k' = k then (k', n + 1) else (k', v)) (tries d)\<rparr>)
           else Inl range_error)"

text \<open>\<open>fmt.Sprintf("ach_%08x", UnixNano % 2^32)\<close>; the argument counts from Go's zero time.\<close>

definition unix_nano :: "time \<Rightarrow> int" where
  "unix_nano t = t - 62135596800 * second"

fun hex8 :: "nat \<Rightarrow> int \<Rightarrow> string" where
  "hex8 0 n = ''''"
| "hex8 (Suc k) n = hex8 k (n div 16) @ [hex_digit n]"

definition transfer_ref :: "time \<Rightarrow> string" where
  "transfer_ref now = ''ach_'' @ hex8 8 (unix_nano now mod 2 ^ 32)"

definition insert_transfer :: "senv \<Rightarrow> nat \<Rightarrow> string \<Rightarrow> int \<Rightarrow> int \<Rightarrow> paydb \<Rightarrow> (goerr + unit) \<times> paydb" where
  "insert_transfer e u k n att =
     withTx e u (\<lambda>d. if bank_row d k \<noteq> None then Inr ((), d)
       else Inr ((), d\<lparr>transfers := transfers d @ [\<lparr>tr_key = k, tr_ref = transfer_ref (go_now e), tr_status = ''pending'',
          tr_amount = n, tr_attempts = att, tr_after = pg_now e + settleLag\<rparr>]\<rparr>))"

record destination =
  ds_account_name :: string
  ds_account_number :: string
  ds_routing_number :: string

text \<open>Go's \<open>%\<close> keeps the sign of the dividend, and 13 is positive.\<close>

definition flaky :: "int \<Rightarrow> bool" where
  "flaky n \<longleftrightarrow> 0 \<le> n \<and> n mod 100 = flakyCents"

definition Submit :: "senv \<Rightarrow> string \<Rightarrow> int \<Rightarrow> destination \<Rightarrow> paydb \<Rightarrow> (goerr + transfer_view) \<times> paydb" where
  "Submit e k n dest d0 =
     and_then (lookup_transfer e 0 k d0) (\<lambda>found d. case found of
         Some t \<Rightarrow> (Inr t, d)
       | None \<Rightarrow> and_then (recordAttempt e 1 k d) (\<lambda>att d.
           if ds_routing_number dest = rejectRoutingNumber
             then (Inl (Wrapf '''' ErrRejected ('': invalid routing number '' @ ds_routing_number dest)), d)
           else if flaky n \<and> att \<le> flakyFailures
             then (Inl (Wrapf '''' ErrRailUnavailable ('' (attempt '' @ int_str att @ '' of ''
                 @ int_str (flakyFailures + 1) @ '' before it clears)'')), d)
           else and_then (insert_transfer e 2 k n att d) (\<lambda>_ d.
             and_then (lookup_transfer e 3 k d) (\<lambda>found d. case found of
                 None \<Rightarrow> (Inl (New (''transfer '' @ quoted k @ '' vanished after insert'')), d)
               | Some t \<Rightarrow> (Inr t, d)))))"

definition settled_status :: "int \<Rightarrow> string" where
  "settled_status n = (if 0 \<le> n \<and> n mod 100 = returnedCents then ''returned'' else ''settled'')"

definition Transfer_Status :: "senv \<Rightarrow> string \<Rightarrow> paydb \<Rightarrow> (goerr + transfer_view) \<times> paydb" where
  "Transfer_Status e k =
     withTx e 0 (\<lambda>d. case bank_row d k of
         None \<Rightarrow> Inl (New (''unknown transfer '' @ quoted k))
       | Some r \<Rightarrow>
           if tr_status r \<noteq> ''pending'' \<or> pg_now e < tr_after r then Inr (view_transfer r, d)
           else let st = settled_status (tr_amount r)
             in Inr ((view_transfer r)\<lparr>tv_status := st\<rparr>,
                 d\<lparr>transfers := update_where (\<lambda>x. tr_key x = k) (\<lambda>x. x\<lparr>tr_status := st\<rparr>) (transfers d)\<rparr>))"

section \<open>Runs\<close>

datatype pay_op =
    PReserve string string int
  | PPost string
  | PRelease string
  | PSubmit string int destination
  | PStatus string

fun apply_pay :: "senv \<Rightarrow> pay_op \<Rightarrow> paydb \<Rightarrow> paydb" where
  "apply_pay e (PReserve p a n) d = snd (Reserve e p a n d)"
| "apply_pay e (PPost p) d = snd (Post e p d)"
| "apply_pay e (PRelease p) d = snd (Release e p d)"
| "apply_pay e (PSubmit k n dest) d = snd (Submit e k n dest d)"
| "apply_pay e (PStatus k) d = snd (Transfer_Status e k d)"

fun run_pay :: "(senv \<times> pay_op) list \<Rightarrow> paydb \<Rightarrow> paydb" where
  "run_pay [] d = d"
| "run_pay ((e, a) # ops) d = run_pay ops (apply_pay e a d)"

section \<open>The ledger's invariant\<close>

definition entry_key :: "entry \<Rightarrow> string \<times> string" where
  "entry_key x = (le_payout x, le_kind x)"

definition ledger_ok :: "paydb \<Rightarrow> bool" where
  "ledger_ok d \<longleftrightarrow> distinct (map fst (accounts d)) \<and> (\<forall>(a, b)\<in>set (accounts d). 0 \<le> b \<and> int8 b)
     \<and> distinct (map entry_key (entries d)) \<and> (\<forall>x\<in>set (entries d). le_account x \<in> fst ` set (accounts d))"

text \<open>What an account has available and what is held of it.\<close>

definition balance :: "paydb \<Rightarrow> string \<Rightarrow> int" where
  "balance d a = (case map_of (accounts d) a of None \<Rightarrow> 0 | Some b \<Rightarrow> b)"

definition entry_sum :: "paydb \<Rightarrow> string \<Rightarrow> string \<Rightarrow> int" where
  "entry_sum d kind a = sum_list (map le_amount (filter (\<lambda>x. le_kind x = kind \<and> le_account x = a) (entries d)))"

definition held :: "paydb \<Rightarrow> string \<Rightarrow> int" where
  "held d a = entry_sum d ''hold'' a - entry_sum d ''release'' a"

definition ledger_step :: "paydb \<Rightarrow> paydb \<Rightarrow> bool" where
  "ledger_step d d' \<longleftrightarrow> (ledger_ok d \<longrightarrow> ledger_ok d'
     \<and> (\<forall>a. balance d' a + held d' a = balance d a + held d a)
     \<and> (\<forall>p kind x. ledger_entry d p kind = Some x \<longrightarrow> ledger_entry d' p kind = Some x))"

lemma ledger_step_refl [simp]: "ledger_step d d"
  by (simp add: ledger_step_def)

interpretation money: evolution ledger_step
  by unfold_locales (simp_all add: ledger_step_def)

lemma ledger_step_frame:
  "accounts d' = accounts d \<Longrightarrow> entries d' = entries d \<Longrightarrow> ledger_step d d'"
  by (simp add: ledger_step_def ledger_ok_def balance_def held_def entry_sum_def ledger_entry_def)

lemma ledger_entry_None: "ledger_entry d p kind = None \<longleftrightarrow> (p, kind) \<notin> entry_key ` set (entries d)"
  by (auto simp: ledger_entry_def find_None_iff entry_key_def)

lemma ledger_entry_SomeD:
  "ledger_entry d p kind = Some x \<Longrightarrow> x \<in> set (entries d) \<and> le_payout x = p \<and> le_kind x = kind"
  by (auto simp: ledger_entry_def find_Some_iff)

lemma add_entry_simps [simp]:
  "accounts (add_entry a p kind n d) = accounts d"
  "payouts (add_entry a p kind n d) = payouts d"
  "entries (add_entry a p kind n d) = entries d @ [\<lparr>le_account = a, le_payout = p, le_kind = kind, le_amount = n\<rparr>]"
  by (simp_all add: add_entry_def)

lemma find_append_Some: "find P xs = Some x \<Longrightarrow> find P (xs @ ys) = Some x"
  by (induction xs) auto

lemma find_append_None: "find P xs = None \<Longrightarrow> find P (xs @ ys) = find P ys"
  by (induction xs) (auto split: if_splits)

lemma ledger_entry_add: "ledger_entry d p kind = Some x \<Longrightarrow> ledger_entry (add_entry a p' kind' n d) p kind = Some x"
  by (simp add: ledger_entry_def find_append_Some)

lemma entry_sum_add:
  "entry_sum (add_entry a p kind n d) kind' a' = entry_sum d kind' a' + (if kind = kind' \<and> a = a' then n else 0)"
  by (simp add: entry_sum_def)

lemma map_of_set_value:
  "map_of (map (\<lambda>(k, v). if k = a then (k, x) else (k, v)) xs) k = (if k = a \<and> map_of xs a \<noteq> None then Some x else map_of xs k)"
  by (induction xs) auto

lemma set_balance_InrD:
  assumes "set_balance a delta d = Inr d'" and "a \<in> fst ` set (accounts d)"
  shows "entries d' = entries d" and "balance d' a' = balance d a' + (if a' = a then delta else 0)"
    and "map fst (accounts d') = map fst (accounts d)"
    and "(\<forall>(a, b)\<in>set (accounts d). 0 \<le> b \<and> int8 b) \<Longrightarrow> (\<forall>(a, b)\<in>set (accounts d'). 0 \<le> b \<and> int8 b)"
proof -
  obtain b where b: "map_of (accounts d) a = Some b" using assms(2) by (metis map_of_eq_None_iff not_None_eq)
  with assms(1) have d': "d' = d\<lparr>accounts := map (\<lambda>(k, v). if k = a then (k, b + delta) else (k, v)) (accounts d)\<rparr>"
    and r: "0 \<le> b + delta" "int8 (b + delta)"
    by (auto simp: set_balance_def split: if_splits)
  show "entries d' = entries d" by (simp add: d')
  show "balance d' a' = balance d a' + (if a' = a then delta else 0)"
    by (simp add: d' balance_def map_of_set_value b)
  show "map fst (accounts d') = map fst (accounts d)" by (simp add: d' case_prod_unfold)
  show "(\<forall>(a, b)\<in>set (accounts d). 0 \<le> b \<and> int8 b) \<Longrightarrow> (\<forall>(a, b)\<in>set (accounts d'). 0 \<le> b \<and> int8 b)"
    using r by (auto simp: d' split: if_splits)
qed

text \<open>A new entry together with the balance it moves.\<close>

lemma ledger_step_move:
  assumes "set_balance a delta (add_entry a p kind n d) = Inr d'" and "a \<in> fst ` set (accounts d)"
    and "ledger_entry d p kind = None" and "kind = ''hold'' \<and> delta = - n \<or> kind = ''release'' \<and> delta = n"
  shows "ledger_step d d'"
proof -
  let ?x = "\<lparr>le_account = a, le_payout = p, le_kind = kind, le_amount = n\<rparr>"
  note s = set_balance_InrD [OF assms(1), simplified, OF assms(2)]
  have b: "balance (add_entry a p kind n d) = balance d" by (simp add: balance_def [abs_def])
  have es: "entry_sum d' k a' = entry_sum d k a' + (if kind = k \<and> a = a' then n else 0)" for k a'
    using s(1) by (simp add: entry_sum_def)
  have acc: "fst ` set (accounts d') = fst ` set (accounts d)" using s(3) by (metis list.set_map)
  have "ledger_ok d \<Longrightarrow> ledger_ok d'"
    using s(1,3,4) assms(2,3) acc by (auto simp: ledger_ok_def ledger_entry_None entry_key_def)
  moreover have "balance d' a' + held d' a' = balance d a' + held d a'" for a'
    using assms(4) s(2) [of a'] by (auto simp: held_def es b)
  moreover have "ledger_entry d p' kind' = Some x \<Longrightarrow> ledger_entry d' p' kind' = Some x" for p' kind' x
    using s(1) ledger_entry_add [of d p' kind' x a p kind n] by (simp add: ledger_entry_def)
  ultimately show ?thesis by (auto simp: ledger_step_def)
qed

lemma ledger_step_post:
  assumes "ledger_entry d p ''post'' = None" and "a \<in> fst ` set (accounts d)"
  shows "ledger_step d (add_entry a p ''post'' n d)"
proof -
  have b: "balance (add_entry a p ''post'' n d) = balance d" by (simp add: balance_def [abs_def])
  have "ledger_ok d \<Longrightarrow> ledger_ok (add_entry a p ''post'' n d)"
    using assms by (auto simp: ledger_ok_def ledger_entry_None entry_key_def)
  then show ?thesis by (auto simp: ledger_step_def held_def entry_sum_add ledger_entry_add b)
qed

lemma ledger_account: "ledger_ok d \<Longrightarrow> ledger_entry d p kind = Some x \<Longrightarrow> le_account x \<in> fst ` set (accounts d)"
  by (auto simp: ledger_ok_def dest: ledger_entry_SomeD)

lemma Reserve_step: "ledger_step d (snd (Reserve e p a n d))"
  unfolding Reserve_def Let_def
proof (rule money.later_withTx, goal_cases)
  case (1 h d')
  show ?case
  proof (cases "ledger_entry d p ''hold'' = None")
    case True
    with 1 obtain b where b: "map_of (accounts d) a = Some b"
        "set_balance a (- n) (add_entry a p ''hold'' n d) = Inr d'"
      by (auto split: option.splits if_splits sum.splits)
    then have "a \<in> fst ` set (accounts d)" by (metis map_of_eq_None_iff option.distinct(1))
    from ledger_step_move [OF b(2) this True] show ?thesis by simp
  qed (use 1 in simp)
qed

lemma Post_step: "ledger_step d (snd (Post e p d))"
  unfolding Post_def
proof (rule money.later_withTx, goal_cases)
  case (1 u d')
  show ?case
  proof (cases "ledger_ok d \<and> ledger_entry d p ''hold'' \<noteq> None \<and> ledger_entry d p ''post'' = None")
    case True
    then obtain x where x: "ledger_entry d p ''hold'' = Some x" by blast
    with True 1 have "d' = add_entry (le_account x) p ''post'' (le_amount x) d" by simp
    with ledger_step_post ledger_account [OF _ x] True show ?thesis by simp
  qed (use 1 in \<open>auto simp: ledger_step_def split: option.splits\<close>)
qed

lemma Release_step: "ledger_step d (snd (Release e p d))"
  unfolding Release_def
proof (rule money.later_withTx, goal_cases)
  case (1 u d')
  show ?case
  proof (cases "ledger_ok d \<and> ledger_entry d p ''hold'' \<noteq> None \<and> ledger_entry d p ''release'' = None")
    case True
    then obtain x where x: "ledger_entry d p ''hold'' = Some x" by blast
    with True 1 have "set_balance (le_account x) (le_amount x) (add_entry (le_account x) p ''release'' (le_amount x) d) = Inr d'"
      by (auto split: sum.splits)
    from ledger_step_move [OF this] ledger_account [OF _ x] True show ?thesis by simp
  qed (use 1 in \<open>auto simp: ledger_step_def split: option.splits\<close>)
qed



text \<open>The bank does not touch the ledger's tables.\<close>

definition same_ledger :: "paydb \<Rightarrow> paydb \<Rightarrow> bool" where
  "same_ledger d d' \<longleftrightarrow> accounts d' = accounts d \<and> entries d' = entries d"

lemma bank_frame:
  "same_ledger d (snd (lookup_transfer e u k d))" "same_ledger d (snd (recordAttempt e u k d))"
  "same_ledger d (snd (insert_transfer e u k n att d))" "same_ledger d (snd (Transfer_Status e k d))"
  by (auto simp: lookup_transfer_def recordAttempt_def insert_transfer_def Transfer_Status_def Let_def
      same_ledger_def withTx_def split: outcome.splits option.splits if_splits)

lemma same_ledger_refl [simp]: "same_ledger d d"
  by (simp add: same_ledger_def)

interpretation same: evolution same_ledger
  by unfold_locales (simp_all add: same_ledger_def)

lemma Submit_frame: "same_ledger d (snd (Submit e k n dest d))"
  unfolding Submit_def
  by (auto intro!: same.later_and_then bank_frame split: option.split)

lemma apply_pay_step: "ledger_step d (apply_pay e a d)"
  by (cases a) (simp_all add: Reserve_step Post_step Release_step
      ledger_step_frame Submit_frame [unfolded same_ledger_def] bank_frame(4) [unfolded same_ledger_def])

lemma run_pay_fold: "run_pay ops d = fold (\<lambda>(e, a). apply_pay e a) ops d"
  by (induction ops d rule: run_pay.induct) simp_all

lemma run_pay_step: "ledger_step d (run_pay ops d)"
  unfolding run_pay_fold by (rule money.later_run) (rule apply_pay_step)

text \<open>
  C26: The ledger conserves money. Whatever reservations, settlements, releases and bank
  calls are made, in any order and with any arguments and faults, no balance becomes
  negative or overflows, no payout gets two entries of one kind, and for every account the
  available balance plus what is held of it (holds less releases) never changes.
\<close>

theorem ledger_conserves:
  assumes "ledger_ok d"
  shows "ledger_ok (run_pay ops d)
    \<and> (\<forall>a. balance (run_pay ops d) a + held (run_pay ops d) a = balance d a + held d a)"
  using run_pay_step [of d ops] assms by (auto simp: ledger_step_def)

text \<open>Two accounts and two payouts; one is reserved, sent, retried and released.\<close>

definition pay_start :: paydb where
  "pay_start = \<lparr>accounts = [(''a1'', 10000), (''a2'', 50)], entries = [], transfers = [], tries = [],
     payouts = map (\<lambda>p. \<lparr>po_id = p, po_account = ''a1'', po_amount = 2500, po_destination = ''{}'', po_status = ''pending'',
       po_ref = None, po_reason = None, po_job = None, po_created = 0, po_updated = 0\<rparr>) [''p1'', ''p2''],
     notifications = [], names = [(''a1'', ''Ada''), (''a2'', ''Grace'')]\<rparr>"

definition plain_destination :: destination where
  "plain_destination = \<lparr>ds_account_name = ''n'', ds_account_number = ''12345678'', ds_routing_number = ''021000021''\<rparr>"

definition pay_sample :: "(senv \<times> pay_op) list" where
  "pay_sample = [(plain_env 1 '''', PReserve ''p1'' ''a1'' 2500), (plain_env 2 '''', PSubmit ''payout:p1'' 2500 plain_destination),
     (plain_env 3 '''', PReserve ''p1'' ''a1'' 2500), (plain_env 4 '''', PReserve ''p2'' ''a2'' 2500), (plain_env 5 '''', PRelease ''p1'')]"

lemma pay_start_ok: "ledger_ok pay_start"
  by (simp add: ledger_ok_def pay_start_def int8_def)

lemma ledger_conserves_witness:
  "ledger_ok (run_pay pay_sample pay_start) \<and> length (entries (run_pay pay_sample pay_start)) = 2
   \<and> balance (run_pay pay_sample pay_start) ''a1'' + held (run_pay pay_sample pay_start) ''a1'' = 10000"
proof -
  have "length (entries (run_pay pay_sample pay_start)) = 2" "balance pay_start ''a1'' + held pay_start ''a1'' = 10000"
    by code_simp+
  then show ?thesis using ledger_conserves [OF pay_start_ok, of pay_sample] by auto
qed

section \<open>Retries\<close>

lemma ledger_entry_kept:
  "ledger_ok d \<Longrightarrow> ledger_entry d p kind = Some x \<Longrightarrow> ledger_entry (run_pay ops d) p kind = Some x"
  using run_pay_step [of d ops] by (simp add: ledger_step_def)

lemma Reserve_InrD:
  assumes "Reserve e p a n d = (Inr h, d')"
  shows "\<exists>x. ledger_entry d' p ''hold'' = Some x"
proof (cases "ledger_entry d p ''hold''")
  case None
  with assms obtain d1 where "set_balance a (- n) (add_entry a p ''hold'' n d) = Inr d'"
    by (auto simp: Reserve_def Let_def dest!: withTx_InrD split: option.splits if_splits sum.splits)
  then have "entries d' = entries (add_entry a p ''hold'' n d)"
    by (auto simp: set_balance_def split: option.splits if_splits)
  then have "ledger_entry d' p ''hold'' \<noteq> None" by (auto simp: ledger_entry_None entry_key_def)
  then show ?thesis by blast
qed (use assms in \<open>auto simp: Reserve_def Let_def dest!: withTx_InrD\<close>)

lemma Reserve_again:
  "ledger_entry d p ''hold'' = Some x \<Longrightarrow> link e 0 = Acked \<Longrightarrow>
   Reserve e p a n d = (Inr \<lparr>hd_payout = p, hd_account = a, hd_amount = n, hd_reused = True\<rparr>, d)"
  by (simp add: Reserve_def Let_def)

text \<open>
  C27: Reserving is idempotent. After a reservation of a payout has succeeded, any later
  reservation for that payout, after whatever else has happened and for whatever account
  and amount, succeeds as reused and moves nothing; the payout is debited once.
\<close>

theorem reserve_once:
  assumes "ledger_ok d" and "Reserve e p a n d = (Inr h, d1)" and "link e' 0 = Acked"
  shows "Reserve e' p a' n' (run_pay ops d1) =
    (Inr \<lparr>hd_payout = p, hd_account = a', hd_amount = n', hd_reused = True\<rparr>, run_pay ops d1)"
proof -
  obtain x where x: "ledger_entry d1 p ''hold'' = Some x" using Reserve_InrD [OF assms(2)] by blast
  have "ledger_ok d1" using Reserve_step [of d e p a n] assms(1,2) by (simp add: ledger_step_def)
  from Reserve_again [OF ledger_entry_kept [OF this x] assms(3)] show ?thesis .
qed

lemma reserve_once_witness:
  "\<exists>h d1. Reserve (plain_env 1 '''') ''p1'' ''a1'' 2500 pay_start = (Inr h, d1) \<and> \<not> hd_reused h \<and>
   Reserve (plain_env 9 '''') ''p1'' ''a2'' 7 (run_pay pay_sample d1) =
     (Inr \<lparr>hd_payout = ''p1'', hd_account = ''a2'', hd_amount = 7, hd_reused = True\<rparr>, run_pay pay_sample d1)"
proof -
  let ?r = "Reserve (plain_env 1 '''') ''p1'' ''a1'' 2500 pay_start"
  let ?h = "\<lparr>hd_payout = ''p1'', hd_account = ''a1'', hd_amount = 2500, hd_reused = False\<rparr>"
  have "fst ?r = Inr ?h" by code_simp
  then have r: "?r = (Inr ?h, snd ?r)" by (simp add: prod_eq_iff)
  have "link (plain_env 9 '''') 0 = Acked" by simp
  from reserve_once [OF pay_start_ok r this, of "''a2''" 7 pay_sample] r
  show ?thesis by (intro exI [where x = ?h] exI [where x = "snd ?r"] conjI) (assumption, simp, assumption)
qed

text \<open>What the ledger still holds for a payout.\<close>

definition cover :: "paydb \<Rightarrow> string \<Rightarrow> int" where
  "cover d p = (case ledger_entry d p ''hold'' of None \<Rightarrow> 0 | Some x \<Rightarrow> le_amount x)
     - (case ledger_entry d p ''release'' of None \<Rightarrow> 0 | Some x \<Rightarrow> le_amount x)"

text \<open>
  C28: A released hold still counts as a reservation. Once the money of a payout has been
  given back, any later reservation for it succeeds as reused, moves nothing and leaves
  nothing held, so a retried or replayed payout goes on to the bank without cover.
\<close>

theorem released_hold_reused:
  assumes "ledger_ok d" and "ledger_entry d p ''hold'' = Some x" and "ledger_entry d p ''release'' = None"
    and "Release e p d = (Inr (), d1)" and "link e' 0 = Acked"
  shows "Reserve e' p a n (run_pay ops d1) =
      (Inr \<lparr>hd_payout = p, hd_account = a, hd_amount = n, hd_reused = True\<rparr>, run_pay ops d1)
    \<and> cover (run_pay ops d1) p = 0"
proof -
  let ?y = "\<lparr>le_account = le_account x, le_payout = p, le_kind = ''release'', le_amount = le_amount x\<rparr>"
  have ok: "ledger_ok d1" and h: "ledger_entry d1 p ''hold'' = Some x"
    using Release_step [of d e p] assms(1,2,4) by (auto simp: ledger_step_def)
  have "set_balance (le_account x) (le_amount x) (add_entry (le_account x) p ''release'' (le_amount x) d) = Inr d1"
    using assms(2-4) by (auto simp: Release_def dest!: withTx_InrD split: sum.splits)
  then have "entries d1 = entries d @ [?y]" by (auto simp: set_balance_def split: option.splits if_splits)
  then have "ledger_entry d1 p ''release'' = Some ?y"
    using assms(3) by (auto simp: ledger_entry_def find_None_iff find_append_None)
  with ledger_entry_kept [OF ok] h Reserve_again [OF ledger_entry_kept [OF ok h] assms(5)]
  show ?thesis by (simp add: cover_def)
qed

lemma released_hold_reused_witness:
  "\<exists>d1. Release (plain_env 5 '''') ''p1'' (run_pay (take 1 pay_sample) pay_start) = (Inr (), d1) \<and>
   Reserve (plain_env 9 '''') ''p1'' ''a1'' 2500 (run_pay [] d1) =
     (Inr \<lparr>hd_payout = ''p1'', hd_account = ''a1'', hd_amount = 2500, hd_reused = True\<rparr>, run_pay [] d1)
   \<and> cover (run_pay [] d1) ''p1'' = 0"
proof -
  let ?d = "run_pay (take 1 pay_sample) pay_start"
  have ok: "ledger_ok ?d" using run_pay_step [of pay_start "take 1 pay_sample"] pay_start_ok by (simp add: ledger_step_def)
  have h: "ledger_entry ?d ''p1'' ''hold'' = Some \<lparr>le_account = ''a1'', le_payout = ''p1'', le_kind = ''hold'', le_amount = 2500\<rparr>"
    "ledger_entry ?d ''p1'' ''release'' = None"
    by code_simp+
  have "fst (Release (plain_env 5 '''') ''p1'' ?d) = Inr ()" by code_simp
  then have r: "Release (plain_env 5 '''') ''p1'' ?d = (Inr (), snd (Release (plain_env 5 '''') ''p1'' ?d))"
    by (simp add: prod_eq_iff)
  have l: "link (plain_env 9 '''') 0 = Acked" by simp
  show ?thesis using released_hold_reused [OF ok h r l, of "''a1''" 2500 "[]"] r by blast
qed

section \<open>Transfers\<close>

text \<open>A transfer row stays; only a pending one changes its status.\<close>

definition same_transfer :: "transfer \<Rightarrow> transfer \<Rightarrow> bool" where
  "same_transfer r r' \<longleftrightarrow> tr_ref r' = tr_ref r \<and> tr_amount r' = tr_amount r \<and> tr_attempts r' = tr_attempts r
     \<and> (tr_status r \<noteq> ''pending'' \<longrightarrow> tr_status r' = tr_status r)"

definition bank_step :: "paydb \<Rightarrow> paydb \<Rightarrow> bool" where
  "bank_step d d' \<longleftrightarrow> (\<forall>k r. bank_row d k = Some r \<longrightarrow> (\<exists>r'. bank_row d' k = Some r' \<and> same_transfer r r'))"

lemma same_transfer_refl [simp]: "same_transfer r r"
  by (simp add: same_transfer_def)

lemma same_transfer_trans: "same_transfer r s \<Longrightarrow> same_transfer s t \<Longrightarrow> same_transfer r t"
  by (auto simp: same_transfer_def)

lemma bank_step_refl [simp]: "bank_step d d"
  by (simp add: bank_step_def)

interpretation rail: evolution bank_step
  by unfold_locales (simp, unfold bank_step_def, meson same_transfer_trans)

lemma bank_step_frame: "transfers d' = transfers d \<Longrightarrow> bank_step d d'"
  by (simp add: bank_step_def bank_row_def) 

lemma set_balance_transfers: "set_balance a delta d = Inr d' \<Longrightarrow> transfers d' = transfers d"
  by (auto simp: set_balance_def split: option.splits if_splits)

lemma ledger_frame:
  "transfers (snd (Reserve e p a n d)) = transfers d" "transfers (snd (Post e p d)) = transfers d"
  "transfers (snd (Release e p d)) = transfers d"
  by (auto simp: Reserve_def Post_def Release_def Let_def withTx_def add_entry_def dest!: set_balance_transfers
      split: outcome.splits option.splits sum.splits)

lemma bank_step_op:
  "bank_step d (snd (lookup_transfer e u k d))" "bank_step d (snd (recordAttempt e u k d))"
  by (auto intro!: bank_step_frame simp: lookup_transfer_def recordAttempt_def withTx_def
      split: outcome.splits option.splits)

lemma bank_step_insert: "bank_step d (snd (insert_transfer e u k n att d))"
proof -
  have "bank_step d (d\<lparr>transfers := transfers d @ [r]\<rparr>)" for r
    by (simp add: bank_step_def bank_row_def row_at_def find_append_Some)
  then show ?thesis by (auto simp: insert_transfer_def withTx_def split: outcome.splits)
qed

lemma bank_row_update:
  "bank_row (d\<lparr>transfers := update_where (\<lambda>x. tr_key x = k) (\<lambda>x. x\<lparr>tr_status := st\<rparr>) (transfers d)\<rparr>) k' =
   map_option (\<lambda>r. if k' = k then r\<lparr>tr_status := st\<rparr> else r) (bank_row d k')"
  by (auto simp: bank_row_def row_at_update_where option.map_comp o_def dest: row_at_key intro!: map_option_cong)

lemma bank_step_status: "bank_step d (snd (Transfer_Status e k d))"
proof -
  have "bank_step d (d\<lparr>transfers := update_where (\<lambda>x. tr_key x = k) (\<lambda>x. x\<lparr>tr_status := st\<rparr>) (transfers d)\<rparr>)"
    if "bank_row d k = Some r" "tr_status r = ''pending''" for st r
    using that by (auto simp: bank_step_def bank_row_update same_transfer_def)
  then show ?thesis by (auto simp: Transfer_Status_def withTx_def Let_def split: outcome.splits option.splits)
qed

lemma bank_step_submit: "bank_step d (snd (Submit e k n dest d))"
  unfolding Submit_def
  by (auto intro!: rail.later_and_then bank_step_op bank_step_insert split: option.split)

lemma run_pay_bank: "bank_step d (run_pay ops d)"
  unfolding run_pay_fold
proof (rule rail.later_run)
  show "bank_step d (apply_pay e a d)" for e a d
    by (cases a) (simp_all add: bank_step_frame ledger_frame bank_step_submit bank_step_status)
qed

lemma Submit_found:
  "bank_row d k = Some r \<Longrightarrow> link e 0 = Acked \<Longrightarrow> Submit e k n dest d = (Inr (view_transfer r), d)"
  by (simp add: Submit_def lookup_transfer_def)

lemma lookup_transfer_InrD: "lookup_transfer e u k d = (Inr (Some t), d') \<Longrightarrow> \<exists>r. bank_row d' k = Some r \<and> t = view_transfer r"
  by (auto simp: lookup_transfer_def dest!: withTx_InrD)

lemma Submit_InrD: "Submit e k n dest d = (Inr t, d') \<Longrightarrow> \<exists>r. bank_row d' k = Some r \<and> t = view_transfer r"
  by (auto simp: Submit_def and_then_def dest: lookup_transfer_InrD split: prod.splits sum.splits option.splits if_splits)

text \<open>
  The money is sent once. After a submission under a key has succeeded, any later
  submission under that key, after whatever else has happened and for whatever amount and
  destination, is answered with the first transfer (reference, amount and attempts are
  those of the first, only its status may have been decided) and changes nothing.
\<close>

lemma submit_once:
  assumes "Submit e k n dest d = (Inr t, d1)" and "link e' 0 = Acked"
  shows "\<exists>t'. Submit e' k n' dest' (run_pay ops d1) = (Inr t', run_pay ops d1)
    \<and> tv_ref t' = tv_ref t \<and> tv_amount t' = tv_amount t \<and> tv_attempts t' = tv_attempts t
    \<and> (tv_status t \<noteq> ''pending'' \<longrightarrow> tv_status t' = tv_status t)"
proof -
  obtain r where r: "bank_row d1 k = Some r" "t = view_transfer r" using Submit_InrD [OF assms(1)] by blast
  with run_pay_bank [of d1 ops] obtain r' where r': "bank_row (run_pay ops d1) k = Some r'"
    and s: "same_transfer r r'"
    by (auto simp: bank_step_def)
  show ?thesis using Submit_found [OF r' assms(2)] s r(2)
    by (intro exI [where x = "view_transfer r'"]) (simp add: same_transfer_def view_transfer_def)
qed

lemma submit_once_witness:
  "\<exists>t d1. Submit (plain_env 2 '''') ''k'' 2500 plain_destination pay_start = (Inr t, d1) \<and> tv_status t = ''pending'' \<and>
   (\<exists>t'. Submit (plain_env 9 '''') ''k'' 9 plain_destination (run_pay pay_sample d1) = (Inr t', run_pay pay_sample d1)
     \<and> tv_ref t' = tv_ref t \<and> tv_amount t' = tv_amount t)"
proof -
  let ?r = "Submit (plain_env 2 '''') ''k'' 2500 plain_destination pay_start"
  have "(case fst ?r of Inl _ \<Rightarrow> '''' | Inr t \<Rightarrow> tv_status t) = ''pending''" by code_simp
  then obtain t where t: "fst ?r = Inr t" "tv_status t = ''pending''" by (cases "fst ?r") simp_all
  then have r: "?r = (Inr t, snd ?r)" by (simp add: prod_eq_iff)
  have "link (plain_env 9 '''') 0 = Acked" by simp
  from submit_once [OF r this, of 9 plain_destination pay_sample] r t(2) show ?thesis by blast
qed

end
