(* ===== verification/Payments.thy ===== *)
theory Payments
  imports Ledger Gostrings
begin

text \<open>
  The payment workflows of \<open>examples/payments\<close> (\<open>workflow.go\<close>) and the parts of its HTTP
  surface that compute (\<open>http.go\<close>): amounts, the enqueue of a payout, masking.
  A world carries the example's tables as its \<open>outside\<close>; \<open>P n\<close> says what happens to them
  around the \<open>n\<close>-th call.
\<close>

section \<open>Calls on the example's tables\<close>

record pay_env =
  between :: "paydb \<Rightarrow> paydb"
  pay_here :: senv

definition pcall :: "(nat \<Rightarrow> pay_env) \<Rightarrow> (senv \<Rightarrow> paydb \<Rightarrow> 'r \<times> paydb) \<Rightarrow> paydb world \<Rightarrow> 'r \<times> paydb world" where
  "pcall P f w =
     (case f (pay_here (P (tick w))) (between (P (tick w)) (outside w)) of
        (r, d) \<Rightarrow> (r, w\<lparr>outside := d, tick := tick w + 1\<rparr>))"

definition as_ret :: "(goerr + 'a) \<times> 's \<Rightarrow> 'a ret \<times> 's" where
  "as_ret r = (case r of (Inl err, s) \<Rightarrow> (Err err, s) | (Inr x, s) \<Rightarrow> (Ok x, s))"

text \<open>The statements of \<open>workflow.go\<close> and \<open>http.go\<close> on \<open>payouts\<close> and \<open>notifications\<close>.\<close>

definition setPayoutStatus :: "senv \<Rightarrow> string \<Rightarrow> string \<Rightarrow> string \<Rightarrow> paydb \<Rightarrow> (goerr + unit) \<times> paydb" where
  "setPayoutStatus e p st reason =
     withTx e 0 (\<lambda>d. Inr ((), d\<lparr>payouts := update_where (\<lambda>x. po_id x = p)
       (\<lambda>x. x\<lparr>po_status := st, po_reason := null_if_empty reason, po_updated := pg_now e\<rparr>) (payouts d)\<rparr>))"

definition notify :: "senv \<Rightarrow> string \<Rightarrow> string \<Rightarrow> string \<Rightarrow> paydb \<Rightarrow> (goerr + unit) \<times> paydb" where
  "notify e p channel body =
     withTx e 0 (\<lambda>d. if p \<notin> po_id ` set (payouts d) then Inl foreign_key_error
       else Inr ((), d\<lparr>notifications := notifications d @ [\<lparr>nt_payout = p, nt_channel = channel, nt_body = body,
         nt_at = pg_now e\<rparr>]\<rparr>))"

definition mark_submitted :: "senv \<Rightarrow> string \<Rightarrow> string \<Rightarrow> paydb \<Rightarrow> (goerr + unit) \<times> paydb" where
  "mark_submitted e p ref =
     withTx e 0 (\<lambda>d. Inr ((), d\<lparr>payouts := update_where (\<lambda>x. po_id x = p \<and> po_status x = ''pending'')
       (\<lambda>x. x\<lparr>po_status := ''submitted'', po_ref := Some ref, po_updated := pg_now e\<rparr>) (payouts d)\<rparr>))"

section \<open>Amounts\<close>

text \<open>The loop that puts commas, from index \<open>i\<close> down in steps of three.\<close>

fun commas :: "nat \<Rightarrow> string \<Rightarrow> string" where
  "commas i s = (if i = 0 then s else commas (i - 3) (take i s @ '','' @ drop i s))"

declare commas.simps [simp del]

definition formatCents :: "int \<Rightarrow> string" where
  "formatCents cents0 =
     (let neg = cents0 < 0;
          cents = (if neg then wrap64 (- cents0) else cents0);
          dollars = int_str (quot cents 100);
          c = rem cents 100
      in (if neg then ''-'' else '''') @ ''$'' @ commas (length dollars - 3) dollars @ ''.''
         @ (if 0 \<le> c \<and> c < 10 then ''0'' else '''') @ int_str c)"

definition parseAmount :: "string \<Rightarrow> goerr + int" where
  "parseAmount value0 =
     (let v = TrimSpace (TrimPrefix ''$'' (TrimSpace value0))
      in if v = '''' then Inl (New ''amount is required'')
         else case Cut (CHR ''.'') v of (whole, frac, _) \<Rightarrow>
           (case ParseInt whole of
              None \<Rightarrow> Inl (New (''invalid amount '' @ quoted v))
            | Some dollars \<Rightarrow>
                (case ParseInt (take 2 (frac @ ''00'')) of
                   None \<Rightarrow> Inl (New (''invalid amount '' @ quoted v))
                 | Some cents \<Rightarrow>
                     let total = wrap64 (dollars * 100 + cents)
                     in if total \<le> 0 then Inl (New ''amount must be positive'') else Inr total)))"

text \<open>The mask is four bullets, three bytes each in UTF-8.\<close>

definition last4 :: "string \<Rightarrow> string" where
  "last4 number =
     (if length number \<le> 4 then number
      else concat (replicate 4 [CHR 0xE2, CHR 0x80, CHR 0xA2]) @ drop (length number - 4) number)"

section \<open>Creating a payout\<close>

record payout_job =
  pj_payout :: string
  pj_account :: string
  pj_amount :: int
  pj_destination :: destination

definition payments_queue :: string where "payments_queue = ''payouts''"
definition workflowPayout :: string where "workflowPayout = ''payout''"
definition workflowSettlement :: string where "workflowSettlement = ''payout-settlement''"
definition settlementAttempts :: int where "settlementAttempts = 10"

text \<open>The insert, with the checks of \<open>schema.sql\<close>; \<open>dest\<close> is the marshaled destination.\<close>

definition insert_payout :: "senv \<Rightarrow> string \<Rightarrow> int \<Rightarrow> bytes \<Rightarrow> paydb \<Rightarrow> (goerr + string) \<times> paydb" where
  "insert_payout e a n dest =
     withTx e 0 (\<lambda>d. case jsonb e dest of
         None \<Rightarrow> Inl json_error
       | Some v \<Rightarrow>
           if a \<notin> fst ` set (accounts d) then Inl foreign_key_error
           else if n \<le> 0 then Inl check_error
           else if new_uuid e \<in> po_id ` set (payouts d) then Inl primary_key_error
           else Inr (new_uuid e, d\<lparr>payouts := payouts d @ [\<lparr>po_id = new_uuid e, po_account = a, po_amount = n,
              po_destination = v, po_status = ''pending'', po_ref = None, po_reason = None, po_job = None,
              po_created = pg_now e, po_updated = pg_now e\<rparr>]\<rparr>))"

definition set_payout_job :: "senv \<Rightarrow> string \<Rightarrow> string \<Rightarrow> paydb \<Rightarrow> (goerr + unit) \<times> paydb" where
  "set_payout_job e p i =
     withTx e 0 (\<lambda>d. Inr ((), d\<lparr>payouts := update_where (\<lambda>x. po_id x = p) (\<lambda>x. x\<lparr>po_job := Some i\<rparr>) (payouts d)\<rparr>))"

text \<open>
  \<open>createPayout\<close> after the request is decoded: Inl is the status code and error of \<open>fail\<close>,
  Inr the payout and job ids of the answer.
\<close>

definition createPayout ::
    "(nat \<Rightarrow> call_env) \<Rightarrow> (nat \<Rightarrow> pay_env) \<Rightarrow> (destination \<Rightarrow> goerr + bytes) \<Rightarrow> (payout_job \<Rightarrow> goerr + bytes) \<Rightarrow>
     string \<Rightarrow> int \<Rightarrow> destination \<Rightarrow> paydb world \<Rightarrow> (int \<times> goerr + string \<times> string) \<times> paydb world" where
  "createPayout E P enc_dest enc_job a n dest w =
     (case enc_dest dest of
        Inl err \<Rightarrow> (Inl (400, err), w)
      | Inr b \<Rightarrow>
          (case pcall P (\<lambda>e. insert_payout e a n b) w of
             (Inl err, w1) \<Rightarrow> (Inl (400, err), w1)
           | (Inr p, w1) \<Rightarrow>
               (case EnqueueJSON E enc_job workflowPayout
                   \<lparr>pj_payout = p, pj_account = a, pj_amount = n, pj_destination = dest\<rparr>
                   [WithQueue payments_queue, WithIdempotencyKey (''payout:'' @ p), WithMaxAttempts 5] w1 of
                  (Inl err, w2) \<Rightarrow> (Inl (500, err), w2)
                | (Inr (j, _), w2) \<Rightarrow>
                    (case pcall P (\<lambda>e. set_payout_job e p (job_id j)) w2 of
                       (Inl err, w3) \<Rightarrow> (Inl (500, err), w3)
                     | (Inr _, w3) \<Rightarrow> (Inr (p, job_id j), w3)))))"

section \<open>The workflows\<close>

definition transferKey :: "string \<Rightarrow> string" where
  "transferKey p = ''payout:'' @ p"

definition unsent_message :: "goerr \<Rightarrow> string" where
  "unsent_message cause = ''Your payout could not be sent: '' @ err_string cause"

text \<open>
  \<open>abandon\<close>: the error the workflow fails with. Only a permanent failure is compensated;
  a compensation that fails is joined to the cause.
\<close>

definition abandon :: "(nat \<Rightarrow> pay_env) \<Rightarrow> string \<Rightarrow> goerr \<Rightarrow> paydb world \<Rightarrow> goerr \<times> paydb world" where
  "abandon P p cause w =
     (if \<not> IsPermanent cause then (cause, w)
      else case pcall P (\<lambda>e. Release e p) w of
        (Inl err, w1) \<Rightarrow> (Join [cause, err], w1)
      | (Inr _, w1) \<Rightarrow>
          (case pcall P (\<lambda>e. setPayoutStatus e p ''failed'' (err_string cause)) w1 of
             (Inl err, w2) \<Rightarrow> (Join [cause, err], w2)
           | (Inr _, w2) \<Rightarrow>
               (case pcall P (\<lambda>e. notify e p ''email'' (unsent_message cause)) w2 of
                  (Inl err, w3) \<Rightarrow> (Join [cause, err], w3)
                | (Inr _, w3) \<Rightarrow> (cause, w3))))"

text \<open>\<open>workrail.Permanent\<close> around one kind of rejection.\<close>

definition permanent_if :: "sentinel \<Rightarrow> (goerr + 'a) \<times> 's \<Rightarrow> (goerr + 'a) \<times> 's" where
  "permanent_if s r = (case r of (Inl err, w) \<Rightarrow> (Inl (if errors_Is err s then PermanentError err else err), w) | _ \<Rightarrow> r)"

text \<open>The codecs of the checkpointed types and of the payloads, by reflection in the program.\<close>

record codecs =
  enc_hold :: "hold \<Rightarrow> goerr + bytes"
  dec_hold :: "bytes \<Rightarrow> goerr + hold"
  enc_transfer :: "transfer_view \<Rightarrow> goerr + bytes"
  dec_transfer :: "bytes \<Rightarrow> goerr + transfer_view"
  dec_payout_job :: "bytes \<Rightarrow> goerr + payout_job"
  dec_settlement_job :: "bytes \<Rightarrow> goerr + string"
  enc_settlement_job :: "string \<Rightarrow> goerr + bytes"

definition done_step :: "(goerr + unit) \<times> 's \<Rightarrow> bool ret \<times> 's" where
  "done_step r = (case r of (Inl err, s) \<Rightarrow> (Err err, s) | (Inr _, s) \<Rightarrow> (Ok True, s))"

definition schedule_settlement ::
    "(nat \<Rightarrow> call_env) \<Rightarrow> codecs \<Rightarrow> string \<Rightarrow> paydb world \<Rightarrow> string ret \<times> paydb world" where
  "schedule_settlement E K p w =
     (case time_now (postgres E) w of
        (now, w1) \<Rightarrow>
          (case EnqueueJSON E (enc_settlement_job K) workflowSettlement p
              [WithQueue payments_queue, WithIdempotencyKey (''settle:'' @ p), WithMaxAttempts settlementAttempts,
               WithRunAfter (now + settleLag)] w1 of
             (Inl err, w2) \<Rightarrow> (Err err, w2)
           | (Inr (j, _), w2) \<Rightarrow> (Ok (job_id j), w2)))"

definition fails :: "goerr \<times> 's \<Rightarrow> 'a ret \<times> 's" where
  "fails r = (case r of (err, s) \<Rightarrow> (Err err, s))"

definition payoutWorkflow ::
    "(nat \<Rightarrow> call_env) \<Rightarrow> (nat \<Rightarrow> pay_env) \<Rightarrow> codecs \<Rightarrow> paydb world workflow" where
  "payoutWorkflow E P K c pl w =
     (case dec_payout_job K pl of
        Inl err \<Rightarrow> (Err (PermanentError err), w)
      | Inr job \<Rightarrow>
          (case Step (postgres E) (enc_hold K) (dec_hold K) c ''reserve-funds''
              (\<lambda>_ w. as_ret (permanent_if (App_error ''insufficient funds'')
                 (pcall P (\<lambda>e. Reserve e (pj_payout job) (pj_account job) (pj_amount job)) w))) w of
             (Panic msg, w1) \<Rightarrow> (Panic msg, w1)
           | (Err err, w1) \<Rightarrow> fails (abandon P (pj_payout job) err w1)
           | (Ok h, w1) \<Rightarrow>
               (case Step (postgres E) (enc_transfer K) (dec_transfer K) c ''submit-ach''
                   (\<lambda>_ w. as_ret (permanent_if (App_error ''transfer rejected'')
                      (pcall P (\<lambda>e. Submit e (transferKey (pj_payout job)) (pj_amount job) (pj_destination job)) w))) w1 of
                  (Panic msg, w2) \<Rightarrow> (Panic msg, w2)
                | (Err err, w2) \<Rightarrow> fails (abandon P (pj_payout job) err w2)
                | (Ok t, w2) \<Rightarrow>
                    (case Step (postgres E) enc_text dec_text c ''schedule-settlement''
                        (\<lambda>_. schedule_settlement E K (pj_payout job)) w2 of
                       (Panic msg, w3) \<Rightarrow> (Panic msg, w3)
                     | (Err err, w3) \<Rightarrow> (Err err, w3)
                     | (Ok _, w3) \<Rightarrow>
                         (case Step (postgres E) enc_bool dec_bool c ''mark-submitted''
                             (\<lambda>_ w. done_step (pcall P (\<lambda>e. mark_submitted e (pj_payout job) (tv_ref t)) w)) w3 of
                            (Panic msg, w4) \<Rightarrow> (Panic msg, w4)
                          | (Err err, w4) \<Rightarrow> (Err err, w4)
                          | (Ok _, w4) \<Rightarrow>
                              (Ok (json_object [(''bank_ref'', marshal_string (tv_ref t)), (''held_cents'', int_str (hd_amount h)),
                                 (''hold_existed'', if hd_reused h then ''true'' else ''false'')]), w4))))))"

definition settled_result :: "string \<Rightarrow> string \<Rightarrow> bytes" where
  "settled_result st ref = json_object [(''bank_ref'', marshal_string ref), (''status'', marshal_string st)]"

text \<open>The two endings of a settlement: a ledger step, a notification and the payout's status.\<close>

definition settle_as ::
    "(nat \<Rightarrow> call_env) \<Rightarrow> (nat \<Rightarrow> pay_env) \<Rightarrow> ctx \<Rightarrow> string \<Rightarrow> string \<times> (senv \<Rightarrow> string \<Rightarrow> paydb \<Rightarrow> (goerr + unit) \<times> paydb) \<Rightarrow>
     string \<times> string \<Rightarrow> string \<times> string \<Rightarrow> string \<Rightarrow> paydb world \<Rightarrow> bytes ret \<times> paydb world" where
  "settle_as E P c p ledger_op message outcome ref w =
     (case Step (postgres E) enc_bool dec_bool c (fst ledger_op)
         (\<lambda>_ w. done_step (pcall P (\<lambda>e. snd ledger_op e p) w)) w of
        (Panic msg, w1) \<Rightarrow> (Panic msg, w1)
      | (Err err, w1) \<Rightarrow> (Err err, w1)
      | (Ok _, w1) \<Rightarrow>
          (case Step (postgres E) enc_bool dec_bool c (fst message)
              (\<lambda>_ w. done_step (pcall P (\<lambda>e. notify e p ''email'' (snd message)) w)) w1 of
             (Panic msg, w2) \<Rightarrow> (Panic msg, w2)
           | (Err err, w2) \<Rightarrow> (Err err, w2)
           | (Ok _, w2) \<Rightarrow>
               (case pcall P (\<lambda>e. setPayoutStatus e p (fst outcome) (snd outcome)) w2 of
                  (Inl err, w3) \<Rightarrow> (Err err, w3)
                | (Inr _, w3) \<Rightarrow> (Ok (settled_result (fst outcome) ref), w3))))"

definition settlementWorkflow ::
    "(nat \<Rightarrow> call_env) \<Rightarrow> (nat \<Rightarrow> pay_env) \<Rightarrow> codecs \<Rightarrow> paydb world workflow" where
  "settlementWorkflow E P K c pl w =
     (case dec_settlement_job K pl of
        Inl err \<Rightarrow> (Err (PermanentError err), w)
      | Inr p \<Rightarrow>
          (case pcall P (\<lambda>e. Transfer_Status e (transferKey p)) w of
             (Inl err, w1) \<Rightarrow> (Err err, w1)
           | (Inr t, w1) \<Rightarrow>
               if tv_status t = ''pending''
                 then (Err (Wrapf '''' (Sentinel (App_error ''transfer has not settled yet'')) ('': '' @ tv_ref t)), w1)
               else if tv_status t = ''returned''
                 then settle_as E P c p (''release-funds'', Release) (''notify-returned'',
                   ''Your payout was returned by the receiving bank ('' @ tv_ref t @ ''). The funds are back in your balance.'')
                   (''returned'', ''returned by receiving bank'') (tv_ref t) w1
               else settle_as E P c p (''post-ledger'', Post) (''notify-paid'',
                   ''Your payout of '' @ formatCents (tv_amount t) @ '' has settled ('' @ tv_ref t @ '').'')
                   (''paid'', '''') (tv_ref t) w1))"

section \<open>Amounts read back\<close>

lemma digits_short: "0 \<le> n \<Longrightarrow> n < 1000 \<Longrightarrow> length (digits n) \<le> 3"
  by (simp add: digits.simps [of n] digits.simps [of "n div 10"] digits.simps [of "n div 10 div 10"])

lemma commas_short: "length s \<le> 3 \<Longrightarrow> commas (length s - 3) s = s"
  by (simp add: commas.simps)

lemma two_digits:
  assumes "0 \<le> c" and "c < 100"
  defines "s \<equiv> (if c < 10 then ''0'' else '''') @ digits c"
  shows "length s = 2 \<and> list_all is_digit s \<and> decimal 0 s = c"
  using digits_digits [of c] assms
  by (auto simp: digits.simps [of c] digits.simps [of "c div 10"] is_digit_def digit_value_def)

text \<open>
  An amount below a thousand dollars, printed as the page shows it, is read back from
  the form as the same number of cents.
\<close>

lemma amount_roundtrip:
  assumes "0 < c" and "c < 100000"
  shows "parseAmount (formatCents c) = Inr c"
proof -
  define n where "n = c div 100"
  define f where "f = (if c mod 100 < 10 then ''0'' else '''') @ digits (c mod 100)"
  have n: "0 \<le> n" "n < 1000" using assms by (simp_all add: n_def)
  note d = digits_digits [OF n(1)]
  have f: "length f = 2" "list_all is_digit f" "decimal 0 f = c mod 100"
    using two_digits [of "c mod 100"] by (simp_all add: f_def)
  have q: "quot c 100 = n" "rem c 100 = c mod 100"
    using assms by (simp_all add: quot_def rem_def n_def minus_mult_div_eq_mod)
  have fmt: "formatCents c = ''$'' @ digits n @ ''.'' @ f"
    using assms n commas_short [OF digits_short [OF n]] by (simp add: formatCents_def Let_def q int_str_def f_def)
  obtain a s b where s: "digits n @ ''.'' @ f = a # s @ [b]" "is_digit a" "is_digit b"
  proof -
    obtain x y where f': "f = [x, y]" using f(1) by (auto simp: numeral_2_eq_2 length_Suc_conv)
    obtain a z where z: "digits n = a # z" using d by (cases "digits n") auto
    show ?thesis using d f(2) by (intro that [of a "z @ [CHR ''.'', x]" y]) (simp_all add: f' z)
  qed
  have t1: "TrimSpace (CHR ''$'' # a # s @ [b]) = CHR ''$'' # a # s @ [b]"
    using trim_ends [of "CHR ''$''" b "a # s"] digit_not_sign [OF s(3)] by (simp add: space_char_def)
  have t2: "TrimSpace (a # s @ [b]) = a # s @ [b]" using trim_ends digit_not_sign s(2,3) by blast
  have cut: "Cut (CHR ''.'') (a # s @ [b]) = (digits n, f, True)"
    using Cut_first [of "CHR ''.''" "digits n" f] d digit_not_sign by (auto simp: s(1) [symmetric] list_all_iff)
  have p: "ParseInt (digits n) = Some n" "ParseInt f = Some (c mod 100)"
  proof -
    have "f \<noteq> ''''" "c mod 100 < 100" using f(1) by auto
    then show "ParseInt (digits n) = Some n" "ParseInt f = Some (c mod 100)"
      using ParseInt_digits [of "digits n"] ParseInt_digits [of f] d n f by simp_all
  qed
  have w: "wrap64 (n * 100 + c mod 100) = c" using wrap64_id [of c] assms by (simp add: n_def)
  show ?thesis
    using assms(1) unfolding fmt s(1) parseAmount_def
    by (simp add: t1 t2 TrimPrefix_def has_prefix_def cut p w f(1) Let_def)
qed

lemma amount_roundtrip_witness: "parseAmount (formatCents 99999) = Inr 99999 \<and> formatCents 99999 = ''$999.99''"
  by (rule conjI [OF amount_roundtrip]) (simp, simp, code_simp)

text \<open>
  The form accepts amounts it should refuse: a negative one, one with a signed
  fraction, and one so large that its cents wrap around to 84.
\<close>

lemma amount_accepts_wrong:
  "parseAmount ''-0.50'' = Inr 50 \<and> parseAmount ''1.-5'' = Inr 95
   \<and> parseAmount ''184467440737095517'' = Inr 84 \<and> parseAmount ''1.999'' = Inr 199"
  by code_simp

section \<open>Abandoned payouts\<close>

lemma pcall_quiet: "between (P (tick w)) = id \<Longrightarrow>
    pcall P f w = (fst (f (pay_here (P (tick w))) (outside w)),
      w\<lparr>outside := snd (f (pay_here (P (tick w))) (outside w)), tick := tick w + 1\<rparr>)"
  by (simp add: pcall_def split: prod.split)

lemma Release_fresh:
  assumes "ledger_ok d" and x: "ledger_entry d p ''hold'' = Some x" and r: "ledger_entry d p ''release'' = None"
    and "link e 0 = Acked" and "0 \<le> le_amount x" and "int8 (balance d (le_account x) + le_amount x)"
  obtains d1 where "Release e p d = (Inr (), d1)" and "cover d1 p = 0" and "payouts d1 = payouts d"
    and "notifications d1 = notifications d"
    and "balance d1 (le_account x) = balance d (le_account x) + le_amount x"
proof -
  let ?y = "\<lparr>le_account = le_account x, le_payout = p, le_kind = ''release'', le_amount = le_amount x\<rparr>"
  let ?d = "add_entry (le_account x) p ''release'' (le_amount x) d"
  have a: "le_account x \<in> fst ` set (accounts d)" using assms(1) x by (rule ledger_account)
  then obtain b where b: "map_of (accounts d) (le_account x) = Some b" by (metis map_of_eq_None_iff not_None_eq)
  then have "(le_account x, b) \<in> set (accounts d)" by (rule map_of_SomeD)
  then have "0 \<le> b" using assms(1) by (auto simp: ledger_ok_def)
  then obtain d1 where d1: "set_balance (le_account x) (le_amount x) ?d = Inr d1"
    using assms(5,6) b by (simp add: set_balance_def balance_def)
  note s = set_balance_InrD [OF d1, simplified, OF a]
  have fr: "payouts d1 = payouts d" "notifications d1 = notifications d"
    using d1 by (auto simp: set_balance_def add_entry_def split: option.splits if_splits)
  have "ledger_entry d1 p ''release'' = Some ?y" "ledger_entry d1 p ''hold'' = Some x"
    using r x s(1) by (simp_all add: ledger_entry_def find_append_None find_append_Some)
  then have "cover d1 p = 0" by (simp add: cover_def)
  moreover have "Release e p d = (Inr (), d1)" by (simp add: Release_def assms(4) x r d1)
  moreover have "balance d1 (le_account x) = balance d (le_account x) + le_amount x"
    using s(2) [of "le_account x"] by (simp add: balance_def)
  ultimately show ?thesis using fr that by blast
qed

text \<open>
  C29: A payout that cannot proceed is unwound. When a workflow fails permanently while it
  holds money and the database answers, the hold is given back to the account, the payout
  is marked failed with the reason, the customer is told, and the workflow still fails with its own error;
  after any other failure, which is retried, nothing is touched and no call is made.
\<close>

theorem abandon_unwinds:
  assumes quiet: "\<And>n. between (P n) = id" "\<And>n. link (pay_here (P n)) 0 = Acked"
    and "ledger_ok (outside w)" and "ledger_entry (outside w) p ''hold'' = Some x"
    and "ledger_entry (outside w) p ''release'' = None" and "p \<in> po_id ` set (payouts (outside w))"
    and "0 \<le> le_amount x" and "int8 (balance (outside w) (le_account x) + le_amount x)"
  shows "if IsPermanent cause
    then \<exists>w'. abandon P p cause w = (cause, w') \<and> wdb w' = wdb w \<and> cover (outside w') p = 0
    \<and> balance (outside w') (le_account x) = balance (outside w) (le_account x) + le_amount x
    \<and> list_all (\<lambda>y. po_id y = p \<longrightarrow> po_status y = ''failed'' \<and> po_reason y = null_if_empty (err_string cause))
        (payouts (outside w'))
    \<and> map nt_payout (notifications (outside w')) = map nt_payout (notifications (outside w)) @ [p]
    else abandon P p cause w = (cause, w)"
proof (cases "IsPermanent cause")
  case True
  obtain d1 where r: "Release (pay_here (P (tick w))) p (outside w) = (Inr (), d1)" and c: "cover d1 p = 0"
    and fr: "payouts d1 = payouts (outside w)" "notifications d1 = notifications (outside w)"
    and b: "balance d1 (le_account x) = balance (outside w) (le_account x) + le_amount x"
    using Release_fresh [OF assms(3-5) quiet(2) assms(7,8)] by metis
  let ?f = "\<lambda>x. x\<lparr>po_status := ''failed'', po_reason := null_if_empty (err_string cause),
      po_updated := pg_now (pay_here (P (Suc (tick w))))\<rparr>"
  define d2 where "d2 = d1\<lparr>payouts := update_where (\<lambda>x. po_id x = p) ?f (payouts d1)\<rparr>"
  have s: "setPayoutStatus (pay_here (P (Suc (tick w)))) p ''failed'' (err_string cause) d1 = (Inr (), d2)"
    by (simp add: setPayoutStatus_def quiet(2) d2_def)
  have "map po_id (payouts d2) = map po_id (payouts d1)" by (simp add: d2_def map_key_update_where)
  then have p2: "po_id ` set (payouts d2) = po_id ` set (payouts d1)" by (metis list.set_map)
  have f2: "list_all (\<lambda>y. po_id y = p \<longrightarrow> po_status y = ''failed'' \<and> po_reason y = null_if_empty (err_string cause)) (payouts d2)"
    unfolding list_all_iff d2_def
    by (simp, rule ball_update_where [where Q = "\<lambda>_. True"]) simp_all
  have k2: "accounts d2 = accounts d1" "entries d2 = entries d1" "notifications d2 = notifications d1"
    by (simp_all add: d2_def)

  let ?d3 = "d2\<lparr>notifications := notifications d2 @ [\<lparr>nt_payout = p, nt_channel = ''email'',
      nt_body = unsent_message cause, nt_at = pg_now (pay_here (P (Suc (Suc (tick w)))))\<rparr>]\<rparr>"
  have n: "notify (pay_here (P (Suc (Suc (tick w))))) p ''email'' (unsent_message cause) d2 = (Inr (), ?d3)"
    using assms(6) by (simp add: notify_def quiet p2 fr)
  have "cover ?d3 p = 0" "balance ?d3 (le_account x) = balance d1 (le_account x)"
    using c by (simp_all add: cover_def ledger_entry_def balance_def k2)
  moreover have "abandon P p cause w = (cause, w\<lparr>outside := ?d3, tick := Suc (Suc (Suc (tick w)))\<rparr>)"
    using True by (simp add: abandon_def pcall_quiet quiet r s n)
  ultimately show ?thesis using b f2 k2(3) fr(2) True
    by (simp only: if_True, intro exI [where x = "w\<lparr>outside := ?d3, tick := Suc (Suc (Suc (tick w)))\<rparr>"]) simp
qed (simp add: abandon_def)

definition calm :: "nat \<Rightarrow> pay_env" where
  "calm n = \<lparr>between = id, pay_here = plain_env (100 + int n) ''''\<rparr>"

definition pay_world :: "paydb world" where
  "pay_world = \<lparr>wdb = sample_db, tick = 1, outside = run_pay (take 1 pay_sample) pay_start\<rparr>"

lemma abandon_unwinds_witness:
  "\<exists>w'. abandon calm ''p1'' (PermanentError (New ''refused'')) pay_world
       = (PermanentError (New ''refused''), w')
    \<and> cover (outside w') ''p1'' = 0 \<and> balance (outside w') ''a1'' = 10000"
proof -
  let ?d = "run_pay (take 1 pay_sample) pay_start"
  let ?x = "\<lparr>le_account = ''a1'', le_payout = ''p1'', le_kind = ''hold'', le_amount = 2500\<rparr>"
  let ?w = pay_world
  have o: "outside ?w = ?d" by (simp add: pay_world_def)
  have ok: "ledger_ok (outside ?w)"
    using run_pay_step [of pay_start "take 1 pay_sample"] pay_start_ok by (simp add: ledger_step_def o)
  have h: "ledger_entry ?d ''p1'' ''hold'' = Some ?x" "ledger_entry ?d ''p1'' ''release'' = None" "balance ?d ''a1'' = 7500"
    "map po_id (payouts ?d) = [''p1'', ''p2'']"
    by code_simp+
  have p: "''p1'' \<in> po_id ` set (payouts ?d)" using h(4) by (metis list.set_intros(1) list.set_map)
  show ?thesis
    using abandon_unwinds [where P = calm and w = ?w and x = ?x and p = "''p1''" and cause = "PermanentError (New ''refused'')", OF _ _ ok]
      h p by (auto simp: calm_def int8_def o)
qed

end
