(* ===== verification/Json.thy ===== *)
theory Json
  imports Gojson Gostrings
begin

text \<open>
  JSON documents as \<open>encoding/json\<close> decodes them into \<open>any\<close> and marshals them again. An
  object is a Go map, here its members in key order, in which they are also printed. A
  number is kept as the text \<open>json.Marshal\<close> prints for its \<open>float64\<close>; the conversion of a
  literal to that text is the argument \<open>num\<close> (None out of range). The nesting limit of
  10000 is not modelled.
\<close>

datatype json =
    JNull
  | JBool bool
  | JNum string
  | JStr string
  | JArr "json list"
  | JObj "(string \<times> json) list"

section \<open>Marshaling\<close>

fun commaed :: "string list \<Rightarrow> string" where
  "commaed [] = ''''"
| "commaed [x] = x"
| "commaed (x # y # xs) = x @ CHR '','' # commaed (y # xs)"

primrec json_text :: "json \<Rightarrow> bytes" where
  "json_text JNull = ''null''"
| "json_text (JBool b) = (if b then ''true'' else ''false'')"
| "json_text (JNum t) = t"
| "json_text (JStr s) = marshal_string s"
| "json_text (JArr vs) = CHR ''['' # commaed (map json_text vs) @ [CHR '']'']"
| "json_text (JObj ms) =
     CHR 0x7B # commaed (map (\<lambda>(k, t). marshal_string k @ CHR '':'' # t) (map (map_prod id json_text) ms)) @ [CHR 0x7D]"

section \<open>Decoding\<close>

definition skip :: "string \<Rightarrow> string" where
  "skip s = dropWhile is_space s"

definition number_char :: "char \<Rightarrow> bool" where
  "number_char c \<longleftrightarrow> is_digit c \<or> c \<in> {CHR ''-'', CHR ''+'', CHR ''.'', CHR ''e'', CHR ''E''}"

text \<open>The grammar of a number: sign, integer part without leading zeros, fraction, exponent.\<close>

definition exponent_ok :: "string \<Rightarrow> bool" where
  "exponent_ok s \<longleftrightarrow> s = '''' \<or> (hd s \<in> {CHR ''e'', CHR ''E''}
     \<and> (let r = (if tl s \<noteq> '''' \<and> hd (tl s) \<in> {CHR ''+'', CHR ''-''} then tl (tl s) else tl s)
        in r \<noteq> '''' \<and> list_all is_digit r))"

definition fraction_ok :: "string \<Rightarrow> bool" where
  "fraction_ok s \<longleftrightarrow>
     (if s \<noteq> '''' \<and> hd s = CHR ''.''
      then tl s \<noteq> '''' \<and> is_digit (hd (tl s)) \<and> exponent_ok (dropWhile is_digit (tl s)) else exponent_ok s)"

definition valid_number :: "string \<Rightarrow> bool" where
  "valid_number s \<longleftrightarrow>
     (let r = (if s \<noteq> '''' \<and> hd s = CHR ''-'' then tl s else s)
      in r \<noteq> '''' \<and> is_digit (hd r) \<and> list_all number_char s
         \<and> (if hd r = CHR ''0'' then fraction_ok (tl r) else fraction_ok (dropWhile is_digit r)))"

text \<open>A Go map filled in the order of the text: a later member replaces an earlier one.\<close>

definition members :: "(string \<times> 'v) list \<Rightarrow> (string \<times> 'v) list" where
  "members ms = map (\<lambda>k. (k, the (map_of (rev ms) k))) (sort (remdups (map fst ms)))"

definition parse_word :: "string \<Rightarrow> json \<Rightarrow> string \<Rightarrow> (json \<times> string) option" where
  "parse_word w v s = (if take (length w) s = w then Some (v, drop (length w) s) else None)"

text \<open>A quoted text and what follows it.\<close>

definition parse_text :: "string \<Rightarrow> (string \<times> string) option" where
  "parse_text s = (if s \<noteq> '''' \<and> hd s = CHR 0x22 then parse_body (length s) (tl s) else None)"

text \<open>
  Each level of nesting takes two calls and at least two bytes, and each element of a list
  one call and two bytes, so the length of the text is enough fuel for every valid document.
\<close>

fun parse_value :: "(string \<Rightarrow> string option) \<Rightarrow> nat \<Rightarrow> string \<Rightarrow> (json \<times> string) option"
  and parse_elems :: "(string \<Rightarrow> string option) \<Rightarrow> nat \<Rightarrow> string \<Rightarrow> (json list \<times> string) option"
  and parse_members :: "(string \<Rightarrow> string option) \<Rightarrow> nat \<Rightarrow> string \<Rightarrow> ((string \<times> json) list \<times> string) option"
where
  "parse_value num 0 s0 = None"
| "parse_value num (Suc n) s0 =
     (let s = skip s0
      in if s = '''' then None
         else if hd s = CHR 0x22 then map_option (\<lambda>(t, r). (JStr t, r)) (parse_text s)
         else if hd s = CHR ''['' then
           (if skip (tl s) \<noteq> '''' \<and> hd (skip (tl s)) = CHR '']'' then Some (JArr [], tl (skip (tl s)))
            else map_option (\<lambda>(vs, r). (JArr vs, r)) (parse_elems num n (tl s)))
         else if hd s = CHR 0x7B then
           (if skip (tl s) \<noteq> '''' \<and> hd (skip (tl s)) = CHR 0x7D then Some (JObj [], tl (skip (tl s)))
            else map_option (\<lambda>(ms, r). (JObj (members ms), r)) (parse_members num n (tl s)))
         else if hd s = CHR ''n'' then parse_word ''null'' JNull s
         else if hd s = CHR ''t'' then parse_word ''true'' (JBool True) s
         else if hd s = CHR ''f'' then parse_word ''false'' (JBool False) s
         else if valid_number (takeWhile number_char s) then
           map_option (\<lambda>t. (JNum t, dropWhile number_char s)) (num (takeWhile number_char s))
         else None)"
| "parse_elems num 0 s = None"
| "parse_elems num (Suc n) s =
     (case parse_value num n s of
        None \<Rightarrow> None
      | Some (v, r0) \<Rightarrow>
          let r = skip r0
          in if r = '''' then None
             else if hd r = CHR '','' then map_option (\<lambda>(vs, z). (v # vs, z)) (parse_elems num n (tl r))
             else if hd r = CHR '']'' then Some ([v], tl r)
             else None)"
| "parse_members num 0 s = None"
| "parse_members num (Suc n) s =
     (case parse_text (skip s) of
        None \<Rightarrow> None
      | Some (k, r0) \<Rightarrow>
          (if skip r0 = '''' \<or> hd (skip r0) \<noteq> CHR '':'' then None
           else case parse_value num n (tl (skip r0)) of
              None \<Rightarrow> None
            | Some (v, r1) \<Rightarrow>
                let r = skip r1
                in if r = '''' then None
                   else if hd r = CHR '','' then map_option (\<lambda>(ms, z). ((k, v) # ms, z)) (parse_members num n (tl r))
                   else if hd r = CHR 0x7D then Some ([(k, v)], tl r)
                   else None))"

definition unmarshal_any :: "(string \<Rightarrow> string option) \<Rightarrow> bytes \<Rightarrow> json option" where
  "unmarshal_any num s =
     (case parse_value num (Suc (length s)) s of
        Some (v, r) \<Rightarrow> if skip r = '''' then Some v else None
      | None \<Rightarrow> None)"


section \<open>Well-formed documents\<close>

definition fixed_number :: "(string \<Rightarrow> string option) \<Rightarrow> string \<Rightarrow> bool" where
  "fixed_number num t \<longleftrightarrow> valid_number t \<and> num t = Some t"

primrec json_ok :: "(string \<Rightarrow> string option) \<Rightarrow> json \<Rightarrow> bool" where
  "json_ok num JNull = True"
| "json_ok num (JBool b) = True"
| "json_ok num (JNum t) = fixed_number num t"
| "json_ok num (JStr s) = True"
| "json_ok num (JArr vs) = list_all id (map (json_ok num) vs)"
| "json_ok num (JObj ms) = (sorted_wrt (<) (map fst ms) \<and> list_all snd (map (map_prod id (json_ok num)) ms))"

lemma members_sorted: "sorted_wrt (<) (map fst (members ms))"
  by (simp add: members_def o_def strict_sorted_iff)

lemma members_fixed:
  assumes "sorted_wrt (<) (map fst ms)"
  shows "members ms = ms"
proof -
  have d: "distinct (map fst ms)" "sorted (map fst ms)" using assms by (simp_all add: strict_sorted_iff)
  then have k: "sort (remdups (map fst ms)) = map fst ms" by (simp add: distinct_remdups_id sort_key_id_if_sorted sorted_map)
  have "the (map_of (rev ms) (fst m)) = snd m" if "m \<in> set ms" for m
  proof -
    have "map_of (rev ms) (fst m) = Some (snd m)"
      using that d(1) by (subst map_of_eq_Some_iff) (simp_all add: rev_map [symmetric])
    then show ?thesis by simp
  qed

  then show ?thesis unfolding members_def k by (simp add: map_idI)
qed

lemma members_values: "set (map snd (members ms)) \<subseteq> set (map snd ms)"
proof
  fix v assume "v \<in> set (map snd (members ms))"
  then obtain k where k: "k \<in> set (map fst ms)" "v = the (map_of (rev ms) k)" by (auto simp: members_def)
  then obtain w where "map_of (rev ms) k = Some w"
    by (metis list.set_map map_of_eq_None_iff not_None_eq set_rev)
  then show "v \<in> set (map snd ms)" using k(2) by (auto dest!: map_of_SomeD intro: rev_image_eqI)
qed

section \<open>Round trip\<close>

lemma parse_body_prefix:
  "length s < n \<Longrightarrow> parse_body n (concat (map json_char s) @ CHR 0x22 # r) = Some (s, r)"
proof (induction s arbitrary: n)
  case Nil
  then show ?case by (cases n) simp_all
next
  case (Cons c s)
  then obtain m where "n = Suc m" "length s < m" by (cases n) simp_all
  with Cons.IH [of m] parse_json_char [of m c] show ?case by simp
qed

lemma parse_text_marshal: "parse_text (marshal_string k @ r) = Some (k, r)"
proof -
  have "length k < length (marshal_string k @ r)" using length_json [of k] by (simp add: marshal_string_def)
  from parse_body_prefix [OF this] show ?thesis by (simp add: parse_text_def marshal_string_def)
qed

lemma marshal_string_start: "marshal_string s \<noteq> ''''" "hd (marshal_string s @ r) = CHR 0x22"
  by (simp_all add: marshal_string_def)

definition stops :: "string \<Rightarrow> bool" where
  "stops r \<longleftrightarrow> r = '''' \<or> hd r \<in> {CHR '','', CHR '']'', CHR 0x7D}"

lemma skip_nonspace: "s \<noteq> '''' \<Longrightarrow> \<not> is_space (hd s) \<Longrightarrow> skip s = s"
  by (cases s) (simp_all add: skip_def)

lemma stops_skip: "stops r \<Longrightarrow> skip r = r"
  by (cases r) (auto simp: stops_def skip_def is_space_def)

lemma valid_number_start: "valid_number t \<Longrightarrow> t \<noteq> '''' \<and> (is_digit (hd t) \<or> hd t = CHR ''-'') \<and> list_all number_char t"
  by (auto simp: valid_number_def Let_def split: if_splits)

lemma is_digit_cases: "is_digit c \<Longrightarrow> c \<notin> {CHR 0x22, CHR ''['', CHR 0x7B, CHR ''n'', CHR ''t'', CHR ''f'', CHR '']'', CHR 0x7D} \<and> \<not> is_space c"
  by (auto simp: is_digit_def is_space_def)

text \<open>How the text of a value begins.\<close>

lemma json_text_start:
  "json_ok num v \<Longrightarrow> json_text v \<noteq> '''' \<and> \<not> is_space (hd (json_text v)) \<and> hd (json_text v) \<notin> {CHR '']'', CHR 0x7D}"
  by (cases v) (auto simp: fixed_number_def is_space_def marshal_string_def dest!: valid_number_start dest: is_digit_cases)

lemma takeWhile_number:
  assumes "list_all number_char t" and "stops r"
  shows "takeWhile number_char (t @ r) = t" and "dropWhile number_char (t @ r) = r"
proof -
  have "takeWhile number_char r = '''' \<and> dropWhile number_char r = r"
    using assms(2) by (cases r) (auto simp: stops_def number_char_def is_digit_def)
  then show "takeWhile number_char (t @ r) = t" "dropWhile number_char (t @ r) = r"
    using assms(1) by (simp_all add: takeWhile_append2 dropWhile_append2 list_all_iff)
qed

lemma commaed_length: "x \<in> set xs \<Longrightarrow> length x \<le> length (commaed xs)"
  by (induction xs rule: commaed.induct) auto

text \<open>What is to be shown of a value, and of the lists inside it.\<close>

definition reads :: "(string \<Rightarrow> string option) \<Rightarrow> json \<Rightarrow> bool" where
  "reads num v \<longleftrightarrow> (\<forall>n r. stops r \<longrightarrow> length (json_text v) \<le> n \<longrightarrow> parse_value num n (json_text v @ r) = Some (v, r))"

lemma readsD: "reads num v \<Longrightarrow> stops r \<Longrightarrow> length (json_text v) \<le> n \<Longrightarrow> parse_value num n (json_text v @ r) = Some (v, r)"
  by (simp add: reads_def)

lemma readsI:
  assumes "json_text v \<noteq> []"
    and "\<And>m r. stops r \<Longrightarrow> length (json_text v) \<le> Suc m \<Longrightarrow> parse_value num (Suc m) (json_text v @ r) = Some (v, r)"
  shows "reads num v"
  unfolding reads_def
proof (intro allI impI)
  fix n r assume r: "stops r" and n: "length (json_text v) \<le> n"
  from assms(1) n obtain m where "n = Suc m" by (cases n) auto
  with assms(2) [OF r, of m] n show "parse_value num n (json_text v @ r) = Some (v, r)" by simp
qed

lemma stops_cons [simp]: "stops (CHR '','' # r)" "stops (CHR '']'' # r)" "stops (CHR 0x7D # r)"
  by (simp_all add: stops_def)

lemma skip_cons [simp]: "skip (CHR '','' # r) = CHR '','' # r" "skip (CHR '']'' # r) = CHR '']'' # r"
  "skip (CHR 0x7D # r) = CHR 0x7D # r" "skip (CHR '':'' # r) = CHR '':'' # r" "skip (CHR 0x22 # r) = CHR 0x22 # r"
  by (simp_all add: skip_def is_space_def)

lemma parse_elems_text:
  assumes "vs \<noteq> []" and "\<And>v. v \<in> set vs \<Longrightarrow> reads num v" and "length (commaed (map json_text vs)) < n"
  shows "parse_elems num n (commaed (map json_text vs) @ CHR '']'' # r) = Some (vs, r)"
  using assms
proof (induction vs arbitrary: n)
  case (Cons v vs)
  obtain m where n: "n = Suc m" using Cons.prems(3) by (cases n) simp_all
  have v: "reads num v" using Cons.prems(2) by simp
  show ?case
  proof (cases vs)
    case Nil
    then show ?thesis using readsD [OF v, of "CHR '']'' # r" m] Cons.prems(3) by (simp add: n)
  next
    case (Cons w ws)
    let ?t = "commaed (map json_text vs)"
    have l: "length (json_text v) + length ?t + 1 < n" using Cons.prems(3) by (simp add: Cons)
    have "parse_elems num m (?t @ CHR '']'' # r) = Some (vs, r)"
      using Cons.prems(2) l by (intro Cons.IH) (simp_all add: Cons n)
    moreover have "parse_value num m (json_text v @ CHR '','' # ?t @ CHR '']'' # r) = Some (v, CHR '','' # ?t @ CHR '']'' # r)"
      using readsD [OF v, of "CHR '','' # ?t @ CHR '']'' # r" m] l by (simp add: n)
    ultimately show ?thesis by (simp add: n Cons)
  qed
qed simp

definition member_text :: "string \<times> json \<Rightarrow> string" where
  "member_text m = marshal_string (fst m) @ CHR '':'' # json_text (snd m)"

lemma skip_marshal: "skip (marshal_string k @ r) = marshal_string k @ r"
  by (simp add: marshal_string_def)

lemma parse_members_text:
  assumes "ms \<noteq> []" and "\<And>m. m \<in> set ms \<Longrightarrow> reads num (snd m)" and "length (commaed (map member_text ms)) < n"
  shows "parse_members num n (commaed (map member_text ms) @ CHR 0x7D # r) = Some (ms, r)"
  using assms
proof (induction ms arbitrary: n)
  case (Cons m ms)
  obtain k v where m: "m = (k, v)" by fastforce
  obtain n' where n: "n = Suc n'" using Cons.prems(3) by (cases n) simp_all
  have v: "reads num v" using Cons.prems(2) [of m] by (simp add: m)
  show ?case
  proof (cases ms)
    case Nil
    then show ?thesis using readsD [OF v, of "CHR 0x7D # r" n'] Cons.prems(3)
      by (simp add: n m member_text_def skip_marshal parse_text_marshal)
  next
    case (Cons w ws)
    let ?t = "commaed (map member_text ms)"
    have l: "length (member_text m) + length ?t + 1 < n" using Cons.prems(3) by (simp add: Cons)
    have "parse_members num n' (?t @ CHR 0x7D # r) = Some (ms, r)"
      using Cons.prems(2) l by (intro Cons.IH) (simp_all add: Cons n)
    moreover have "parse_value num n' (json_text v @ CHR '','' # ?t @ CHR 0x7D # r) = Some (v, CHR '','' # ?t @ CHR 0x7D # r)"
      using readsD [OF v, of "CHR '','' # ?t @ CHR 0x7D # r" n'] l by (simp add: n m member_text_def)
    ultimately show ?thesis by (simp add: n m Cons member_text_def [of "(k, v)"] skip_marshal parse_text_marshal)
  qed
qed simp

lemma hd_commaed: "x \<noteq> '''' \<Longrightarrow> hd (commaed (x # xs) @ r) = hd x \<and> commaed (x # xs) \<noteq> ''''"
  by (cases xs) (simp_all add: hd_append)

lemma object_text: "json_text (JObj ms) = CHR 0x7B # commaed (map member_text ms) @ [CHR 0x7D]"
  by (simp add: member_text_def [abs_def] o_def case_prod_unfold)

lemma word_reads: "reads num JNull" "reads num (JBool True)" "reads num (JBool False)"
proof -
  have k: "skip (''null'' @ r) = ''null'' @ r" "skip (''true'' @ r) = ''true'' @ r" "skip (''false'' @ r) = ''false'' @ r" for r
    by (simp_all add: skip_def is_space_def)
  have w: "parse_word t v (t @ r) = Some (v, r)" for t v r by (simp add: parse_word_def)
  have h: "hd (''null'' @ r) = CHR ''n''" "hd (''true'' @ r) = CHR ''t''" "hd (''false'' @ r) = CHR ''f''"
    "(''null'' @ r = '''') = False" "(''true'' @ r = '''') = False" "(''false'' @ r = '''') = False" for r
    by simp_all
  show "reads num JNull" "reads num (JBool True)" "reads num (JBool False)"
    by (rule readsI, simp, simp only: json_text.simps parse_value.simps k Let_def h w if_True if_False, simp)+
qed

lemma json_ok_reads: "json_ok num v \<Longrightarrow> reads num v"
proof (induction v)
  case (JNum t)
  then have t: "valid_number t" "num t = Some t" by (simp_all add: fixed_number_def)
  note st = valid_number_start [OF t(1)]
  have "parse_value num (Suc n) (t @ r) = Some (JNum t, r)" if r: "stops r" for n r
  proof -
    have "skip (t @ r) = t @ r"
      using st by (intro skip_nonspace) (auto simp: is_space_def dest: is_digit_cases)
    then show ?thesis using st t is_digit_cases [of "hd t"] by (auto simp: takeWhile_number [OF _ r] Let_def)
  qed
  then show ?case using st by (intro readsI) (simp_all del: parse_value.simps)
next
  case (JStr s)
  have "parse_value num (Suc n) (marshal_string s @ r) = Some (JStr s, r)" for n r
    using marshal_string_start by (simp add: skip_marshal parse_text_marshal Let_def)
  then show ?case using marshal_string_start by (intro readsI) (simp_all del: parse_value.simps)
next
  case (JArr vs)
  then have ok: "\<And>v. v \<in> set vs \<Longrightarrow> json_ok num v" by (auto simp: list_all_iff)
  have "parse_value num (Suc n) (json_text (JArr vs) @ r) = Some (JArr vs, r)"
    if "length (commaed (map json_text vs)) < n" for n r
  proof (cases vs)
    case (Cons v ws)
    have "skip (commaed (map json_text vs) @ CHR '']'' # r) = commaed (map json_text vs) @ CHR '']'' # r"
      using json_text_start [OF ok, of v] hd_commaed [of "json_text v" "map json_text ws" "CHR '']'' # r"]
      by (intro skip_nonspace) (simp_all add: Cons)
    moreover have "hd (commaed (map json_text vs) @ CHR '']'' # r) \<noteq> CHR '']''"
      using json_text_start [OF ok, of v] hd_commaed [of "json_text v" "map json_text ws" "CHR '']'' # r"] by (simp add: Cons)
    moreover have "parse_elems num n (commaed (map json_text vs) @ CHR '']'' # r) = Some (vs, r)"
      using JArr.IH ok that by (intro parse_elems_text) (simp_all add: Cons)
    ultimately show ?thesis by (simp add: skip_def is_space_def Let_def)
  qed (simp add: skip_def is_space_def Let_def)
  then show ?case by (intro readsI) (simp_all del: parse_value.simps)
next
  case (JObj ms)
  then have ok: "\<And>m. m \<in> set ms \<Longrightarrow> json_ok num (snd m)" and srt: "members ms = ms"
    by (auto simp: list_all_iff members_fixed)
  have "parse_value num (Suc n) (json_text (JObj ms) @ r) = Some (JObj ms, r)"
    if "length (commaed (map member_text ms)) < n" for n r
  proof (cases ms)
    case (Cons m ws)
    have h: "hd (commaed (map member_text ms) @ CHR 0x7D # r) = CHR 0x22"
      using hd_commaed [of "member_text m" "map member_text ws" "CHR 0x7D # r"] by (simp add: Cons member_text_def marshal_string_def)
    then have "skip (commaed (map member_text ms) @ CHR 0x7D # r) = commaed (map member_text ms) @ CHR 0x7D # r"
      by (intro skip_nonspace) (simp_all add: is_space_def)
    moreover have "parse_members num n (commaed (map member_text ms) @ CHR 0x7D # r) = Some (ms, r)"
      using JObj.IH ok that by (intro parse_members_text) (force simp: Cons)+
    ultimately show ?thesis using h by (simp add: object_text skip_def is_space_def Let_def srt del: json_text.simps)
  qed (simp add: skip_def is_space_def Let_def)
  then show ?case by (intro readsI) (simp_all add: object_text del: parse_value.simps json_text.simps)
next
  case (JBool b)
  show ?case by (cases b) (simp_all only: word_reads)
qed (rule word_reads)

text \<open>
  A document survives its JSON form: what \<open>json.Marshal\<close> prints for a decoded value,
  with whatever nesting, keys and escapes, decodes to the same value.
\<close>

lemma json_roundtrip:
  assumes "json_ok num v"
  shows "unmarshal_any num (json_text v) = Some v"
  using readsD [OF json_ok_reads [OF assms], of "''''" "Suc (length (json_text v))"]
  by (simp add: unmarshal_any_def stops_def skip_def)

lemma json_roundtrip_witness:
  "unmarshal_any Some (json_text (JObj [(''a<'', JArr [JNull, JNum ''-1.5e3'']), (''b'', JStr [CHR 0x0A])])) =
     Some (JObj [(''a<'', JArr [JNull, JNum ''-1.5e3'']), (''b'', JStr [CHR 0x0A])])"
  by (rule json_roundtrip) code_simp

section \<open>Decoded documents\<close>

text \<open>
  What is assumed of the printing of numbers: the text printed for a literal is itself a
  literal, whose value prints the same.
\<close>

definition number_law :: "(string \<Rightarrow> string option) \<Rightarrow> bool" where
  "number_law num \<longleftrightarrow> (\<forall>t y. valid_number t \<longrightarrow> num t = Some y \<longrightarrow> fixed_number num y)"

lemma json_ok_members: "list_all (\<lambda>m. json_ok num (snd m)) ms \<Longrightarrow> json_ok num (JObj (members ms))"
  using members_sorted [of ms] members_values [of ms] by (fastforce simp: list_all_iff)

lemma number_lawD: "number_law num \<Longrightarrow> num t = Some y \<Longrightarrow> valid_number t \<Longrightarrow> fixed_number num y"
  by (simp add: number_law_def)

lemma json_ok_arr: "json_ok num (JArr vs) \<longleftrightarrow> list_all (json_ok num) vs"
  by (simp add: list_all_iff)

lemma json_ok_empty: "json_ok num (JObj [])"
  by simp

lemma parse_ok:
  shows "number_law num \<Longrightarrow> parse_value num n s = Some (v, r) \<Longrightarrow> json_ok num v"
    and "number_law num \<Longrightarrow> parse_elems num n s = Some (vs, r) \<Longrightarrow> list_all (json_ok num) vs"
    and "number_law num \<Longrightarrow> parse_members num n s = Some (ms, r) \<Longrightarrow> list_all (\<lambda>m. json_ok num (snd m)) ms"
proof (induction num n s and num n s and num n s arbitrary: v r and vs r and ms r
    rule: parse_value_parse_elems_parse_members.induct)
  case (2 num n s0)
  then show ?case
    by (auto simp: Let_def parse_word_def json_ok_arr json_ok_empty simp del: json_ok.simps(5,6)
        intro!: json_ok_members split: if_splits)
      (erule number_lawD, assumption+)
next
  case (4 num n s)
  then show ?case by (auto simp: Let_def split: option.splits if_splits)
next
  case (6 num n s)
  then show ?case by (auto simp: Let_def split: option.splits if_splits)
qed simp_all

lemma unmarshal_any_ok: "number_law num \<Longrightarrow> unmarshal_any num s = Some v \<Longrightarrow> json_ok num v"
  by (auto simp: unmarshal_any_def simp del: parse_value.simps split: option.splits if_splits intro: parse_ok(1))

end
