(* ===== verification/Redact.thy ===== *)
theory Redact
  imports Json
begin

text \<open>
  The redactor of \<open>internal/redact\<close>: field names, masking of JSON documents, and the list
  of fields as configuration gives it. A nil redactor is None.
\<close>

definition Mask :: string where
  "Mask = ''[redacted]''"

definition normalize :: "string \<Rightarrow> string" where
  "normalize s = filter (\<lambda>c. c \<noteq> CHR ''-'' \<and> c \<noteq> CHR ''_'') (ToLower (TrimSpace s))"

type_synonym redactor = "string list option"

definition New_redactor :: "string list \<Rightarrow> redactor" where
  "New_redactor names =
     (let keys = remdups (filter (\<lambda>k. k \<noteq> '''') (map normalize names)) in if keys = [] then None else Some keys)"

text \<open>\<open>Fields\<close>; the order is that of a Go map, here of the configuration.\<close>

definition Fields_of :: "redactor \<Rightarrow> string list" where
  "Fields_of r = (case r of None \<Rightarrow> [] | Some keys \<Rightarrow> keys)"

primrec walk :: "string list \<Rightarrow> json \<Rightarrow> json" where
  "walk keys JNull = JNull"
| "walk keys (JBool b) = JBool b"
| "walk keys (JNum t) = JNum t"
| "walk keys (JStr s) = JStr s"
| "walk keys (JArr vs) = JArr (map (walk keys) vs)"
| "walk keys (JObj ms) =
     JObj (map (\<lambda>(k, v). (k, if normalize k \<in> set keys then JStr Mask else v)) (map (map_prod id (walk keys)) ms))"

definition redact_JSON :: "(string \<Rightarrow> string option) \<Rightarrow> redactor \<Rightarrow> bytes \<Rightarrow> bytes" where
  "redact_JSON num r data =
     (case r of
        None \<Rightarrow> data
      | Some keys \<Rightarrow>
          if data = '''' then data
          else case unmarshal_any num data of
              None \<Rightarrow> [CHR 0x22] @ Mask @ [CHR 0x22]
            | Some v \<Rightarrow> json_text (walk keys v))"

definition Split_fields :: "string \<Rightarrow> string list" where
  "Split_fields value = filter (\<lambda>s. s \<noteq> '''') (map TrimSpace (Split_at (CHR '','') value))"

section \<open>Facts\<close>

text \<open>Every member under a masked name shows the mask and nothing else.\<close>

primrec masked :: "string list \<Rightarrow> json \<Rightarrow> bool" where
  "masked keys JNull = True"
| "masked keys (JBool b) = True"
| "masked keys (JNum t) = True"
| "masked keys (JStr s) = True"
| "masked keys (JArr vs) = list_all id (map (masked keys) vs)"
| "masked keys (JObj ms) = (list_all (\<lambda>(k, v). normalize k \<in> set keys \<longrightarrow> v = JStr Mask) ms
     \<and> list_all snd (map (map_prod id (masked keys)) ms))"

lemma walk_masked: "masked keys (walk keys v)"
proof (induction v)
  case (JObj ms)
  then show ?case by (fastforce simp: list_all_iff)
qed (auto simp: list_all_iff)

lemma walk_ok: "json_ok num v \<Longrightarrow> json_ok num (walk keys v)"
proof (induction v)
  case (JObj ms)
  let ?w = "map (\<lambda>(k, v). (k, if normalize k \<in> set keys then JStr Mask else v)) (map (map_prod id (walk keys)) ms)"
  have k: "map fst ?w = map fst ms" by (simp add: case_prod_unfold)
  have "\<forall>m\<in>set ms. json_ok num (walk keys (snd m))"
    using JObj by (fastforce simp: list_all_iff)
  then have "list_all snd (map (map_prod id (json_ok num)) ?w)" by (auto simp: list_all_iff)
  moreover have "sorted_wrt (<) (map fst ?w)" using JObj.prems unfolding k by simp
  ultimately show ?case by (simp only: walk.simps json_ok.simps)
qed (auto simp: list_all_iff)

lemma walk_idem: "walk keys (walk keys v) = walk keys v"
  by (induction v) (auto simp: case_prod_unfold)

lemma mask_text: "json_text (JStr Mask) = [CHR 0x22] @ Mask @ [CHR 0x22]"
  by (simp add: marshal_string_def Mask_def json_char_def html_char_def)

text \<open>
  Whatever bytes are stored, a configured redactor turns them into the text of a document in
  which every member whose name matches a field, at any depth, shows the mask; and redacting
  twice changes nothing more.
\<close>

lemma redacted:
  assumes "number_law num" and "data \<noteq> ''''"
  obtains v where "redact_JSON num (Some keys) data = json_text v" and "json_ok num v" and "masked keys v"
    and "redact_JSON num (Some keys) (json_text v) = json_text v"
proof -
  obtain u where u: "redact_JSON num (Some keys) data = json_text (walk keys u)" "json_ok num u"
  proof (cases "unmarshal_any num data")
    case None
    then show ?thesis using that [of "JStr Mask"] assms(2) mask_text by (simp add: redact_JSON_def)
  next
    case (Some v)
    then show ?thesis using that [of v] unmarshal_any_ok [OF assms(1)] assms(2) by (simp add: redact_JSON_def)
  qed
  have ok: "json_ok num (walk keys u)" by (rule walk_ok [OF u(2)])
  have "json_text (walk keys u) \<noteq> ''''" using json_text_start [OF ok] by simp
  then have "redact_JSON num (Some keys) (json_text (walk keys u)) = json_text (walk keys u)"
    by (simp add: redact_JSON_def json_roundtrip [OF ok] walk_idem)
  then show ?thesis by (rule that [OF u(1) ok walk_masked])
qed

text \<open>Matching ignores case, dashes and underscores.\<close>

lemma normalize_examples:
  "normalize ''account_number'' = ''accountnumber''" "normalize ''accountNumber'' = ''accountnumber''"
  "normalize '' Account-Number '' = ''accountnumber''"
  by code_simp+

lemma New_redactor_masks:
  "name \<in> set names \<Longrightarrow> normalize name \<noteq> '''' \<Longrightarrow> \<exists>keys. New_redactor names = Some keys \<and> normalize name \<in> set keys"
  by (auto simp: New_redactor_def Let_def image_iff filter_empty_conv)

lemma Split_fields_clean: "f \<in> set (Split_fields value) \<Longrightarrow> f \<noteq> '''' \<and> CHR '','' \<notin> set f"
  using Split_at_parts [where c = "CHR '',''"] TrimSpace_subset by (fastforce simp: Split_fields_def)

end
