(* ===== verification/Migrations.thy ===== *)
theory Migrations
  imports Lifecycle Gostrings
begin

text \<open>
  The migration runner of \<open>internal/migrations\<close>: the files of a directory, their order,
  and the transaction that applies what is missing. The effect of a migration's SQL on the
  schema is the argument \<open>exec\<close>.
\<close>

record migration =
  mg_version :: string
  mg_name :: string
  mg_path :: string
  mg_sql :: bytes

text \<open>A directory entry as \<open>os.ReadDir\<close> lists it, with what reading the file gives.\<close>

record dir_entry =
  de_name :: string
  de_is_dir :: bool
  de_read :: "goerr + bytes"

text \<open>\<open>filepath.Ext\<close> of a file name: from the last dot, empty without one.\<close>

definition Ext :: "string \<Rightarrow> string" where
  "Ext s = (if CHR ''.'' \<in> set s then CHR ''.'' # rev (takeWhile (\<lambda>c. c \<noteq> CHR ''.'') (rev s)) else '''')"

definition parseName :: "string \<Rightarrow> (string \<times> string) option" where
  "parseName filename =
     (let base = take (length filename - length (Ext filename)) filename
      in case Cut (CHR ''_'') base of (v, name, found) \<Rightarrow>
        if \<not> found \<or> v = '''' \<or> name = '''' \<or> \<not> list_all is_digit v then None else Some (v, name))"

definition sql_file :: "dir_entry \<Rightarrow> bool" where
  "sql_file f \<longleftrightarrow> \<not> de_is_dir f \<and> Ext (de_name f) = ''.sql''"

fun load_files :: "string \<Rightarrow> dir_entry list \<Rightarrow> goerr + migration list" where
  "load_files dir [] = Inr []"
| "load_files dir (f # fs) =
     (if \<not> sql_file f then load_files dir fs
      else case parseName (de_name f) of
        None \<Rightarrow> Inl (New (''migration '' @ quoted (de_name f) @ '' must be named like 001_name.sql''))
      | Some (v, name) \<Rightarrow>
          (case de_read f of
             Inl err \<Rightarrow> Inl err
           | Inr sql \<Rightarrow>
               (case load_files dir fs of
                  Inl err \<Rightarrow> Inl err
                | Inr ms \<Rightarrow> Inr (\<lparr>mg_version = v, mg_name = name, mg_path = dir @ ''/'' @ de_name f, mg_sql = sql\<rparr> # ms))))"

fun duplicate_version :: "migration list \<Rightarrow> string option" where
  "duplicate_version (m # n # ms) =
     (if mg_version n = mg_version m then Some (mg_version n) else duplicate_version (n # ms))"
| "duplicate_version _ = None"

text \<open>Versions are compared as texts, bytewise.\<close>

definition LoadDir :: "string \<Rightarrow> (goerr + dir_entry list) \<Rightarrow> goerr + migration list" where
  "LoadDir dir listing =
     (case listing of
        Inl err \<Rightarrow> Inl err
      | Inr files \<Rightarrow>
          (case load_files dir files of
             Inl err \<Rightarrow> Inl err
           | Inr ms0 \<Rightarrow>
               let ms = sort_key mg_version ms0
               in (case duplicate_version ms of
                     Some v \<Rightarrow> Inl (New (''duplicate migration version '' @ v))
                   | None \<Rightarrow> Inr ms)))"

section \<open>Applying\<close>

record applied =
  ap_version :: string
  ap_name :: string
  ap_at :: time

record 'x schema =
  sc_applied :: "applied list option"
  sc_rest :: 'x

definition create_table :: "senv \<Rightarrow> 'x schema \<Rightarrow> (goerr + unit) \<times> 'x schema" where
  "create_table e = withTx e 0 (\<lambda>d. Inr ((), if sc_applied d = None then d\<lparr>sc_applied := Some []\<rparr> else d))"

text \<open>The loop of \<open>Up\<close> inside its transaction; \<open>seen\<close> is the set of versions read at its start.\<close>

fun apply_migrations ::
    "(bytes \<Rightarrow> 'x \<Rightarrow> goerr + 'x) \<Rightarrow> senv \<Rightarrow> string set \<Rightarrow> migration list \<Rightarrow> 'x schema \<Rightarrow> goerr + applied list \<times> 'x schema" where
  "apply_migrations exec e seen [] d = Inr ([], d)"
| "apply_migrations exec e seen (m # ms) d =
     (if mg_version m \<in> seen then apply_migrations exec e seen ms d
      else case exec (mg_sql m) (sc_rest d) of
        Inl err \<Rightarrow> Inl (Wrapf (''apply migration '' @ mg_version m @ '' '' @ mg_name m @ '': '') err '''')
      | Inr x \<Rightarrow>
          (let row = \<lparr>ap_version = mg_version m, ap_name = mg_name m, ap_at = pg_now e\<rparr>
           in case sc_applied d of
                None \<Rightarrow> Inl (New ''relation does not exist'')
              | Some rows \<Rightarrow>
                  if mg_version m \<in> ap_version ` set rows then Inl primary_key_error
                  else (case apply_migrations exec e seen ms \<lparr>sc_applied = Some (rows @ [row]), sc_rest = x\<rparr> of
                      Inl err \<Rightarrow> Inl err
                    | Inr (done, d') \<Rightarrow> Inr (row # done, d'))))"

definition seen_versions :: "'x schema \<Rightarrow> string set" where
  "seen_versions d = (case sc_applied d of None \<Rightarrow> {} | Some rows \<Rightarrow> set (map ap_version rows))"

definition Up ::
    "(bytes \<Rightarrow> 'x \<Rightarrow> goerr + 'x) \<Rightarrow> senv \<Rightarrow> (goerr + migration list) \<Rightarrow> 'x schema \<Rightarrow> (goerr + applied list) \<times> 'x schema" where
  "Up exec e loaded d0 =
     (case loaded of
        Inl err \<Rightarrow> (Inl err, d0)
      | Inr ms \<Rightarrow> and_then (create_table e d0)
          (\<lambda>_ d. withTx e 1 (\<lambda>d. apply_migrations exec e (seen_versions d) ms d) d))"

section \<open>Facts\<close>

lemma duplicate_version_None:
  "sorted (map mg_version ms) \<Longrightarrow> duplicate_version ms = None \<Longrightarrow> sorted_wrt (<) (map mg_version ms)"
proof (induction ms rule: duplicate_version.induct)
  case (1 m n ms)
  then have "mg_version m < mg_version n" "sorted_wrt (<) (map mg_version (n # ms))" by (auto split: if_splits)
  moreover from this have "mg_version m < mg_version k" if "k \<in> set ms" for k using that by force
  ultimately show ?case by simp
qed simp_all

text \<open>The files come out in strictly increasing order of version.\<close>

lemma LoadDir_sorted: "LoadDir dir listing = Inr ms \<Longrightarrow> sorted_wrt (<) (map mg_version ms)"
  by (auto simp: LoadDir_def Let_def split: sum.splits option.splits intro!: duplicate_version_None)

lemma apply_migrations_none:
  "set (map mg_version ms) \<subseteq> seen \<Longrightarrow> apply_migrations exec e seen ms d = Inr ([], d)"
  by (induction ms) simp_all

lemma apply_migrations_seen:
  assumes "apply_migrations exec e seen ms d = Inr (done, d')"
  shows "seen_versions d' = seen_versions d \<union> set (map ap_version done)
    \<and> set (map mg_version ms) \<subseteq> seen \<union> set (map ap_version done)
    \<and> map ap_version done = filter (\<lambda>v. v \<notin> seen) (map mg_version ms)
    \<and> (sc_applied d \<noteq> None \<longrightarrow> sc_applied d' \<noteq> None)"
  using assms
proof (induction exec e seen ms d arbitrary: "done" rule: apply_migrations.induct)
  case (2 exec e seen m ms d)
  show ?case
  proof (cases "mg_version m \<in> seen")
    case False
    then obtain x rows done' where x: "exec (mg_sql m) (sc_rest d) = Inr x" and rows: "sc_applied d = Some rows"
      and new: "mg_version m \<notin> ap_version ` set rows"
      and rest: "apply_migrations exec e seen ms
          \<lparr>sc_applied = Some (rows @ [\<lparr>ap_version = mg_version m, ap_name = mg_name m, ap_at = pg_now e\<rparr>]), sc_rest = x\<rparr>
          = Inr (done', d')"
      and d: "done = \<lparr>ap_version = mg_version m, ap_name = mg_name m, ap_at = pg_now e\<rparr> # done'"
      using 2(3) by (auto simp: Let_def split: sum.splits option.splits if_splits)
    note ih = 2(2) [OF False x refl rows new rest]
    have "seen_versions d' = seen_versions d \<union> set (map ap_version done)"
      using ih [THEN conjunct1] by (simp add: d seen_versions_def [of d] rows seen_versions_def [of "\<lparr>sc_applied = _, sc_rest = _\<rparr>"])
    moreover have "set (map mg_version (m # ms)) \<subseteq> seen \<union> set (map ap_version done)"
      using ih by (auto simp: d)
    moreover have "map ap_version done = filter (\<lambda>v. v \<notin> seen) (map mg_version (m # ms))"
      using ih False by (simp add: d)
    moreover have "sc_applied d \<noteq> None \<longrightarrow> sc_applied d' \<noteq> None" using ih by simp
    ultimately show ?thesis by (intro conjI)
  next
    case True
    have r: "apply_migrations exec e seen ms d = Inr (done, d')" using 2(3) True by simp
    note ih = 2(1) [OF True r]
    have f: "filter (\<lambda>v. v \<notin> seen) (map mg_version (m # ms)) = filter (\<lambda>v. v \<notin> seen) (map mg_version ms)"
      "set (map mg_version (m # ms)) \<subseteq> seen \<union> A \<longleftrightarrow> set (map mg_version ms) \<subseteq> seen \<union> A" for A
      using True by auto
    show ?thesis unfolding f by (rule ih)
  qed
qed simp

text \<open>
  C32: Migrations are applied once and in order. A successful \<open>Up\<close> applies exactly the
  missing versions of the directory, in increasing order, each once, and records them; a
  later \<open>Up\<close> on the same directory applies nothing and leaves the database as it is.
\<close>

theorem up_once:
  assumes "LoadDir dir listing = Inr ms" and "Up exec e (Inr ms) d = (Inr done, d1)"
    and "link e' 0 = Acked" and "link e' 1 = Acked"
  shows "map ap_version done = filter (\<lambda>v. v \<notin> seen_versions d) (map mg_version ms)
    \<and> sorted_wrt (<) (map ap_version done)
    \<and> seen_versions d1 = seen_versions d \<union> set (map mg_version ms)
    \<and> Up exec e' (Inr ms) d1 = (Inr [], d1)"
proof -
  obtain d0 where c: "create_table e d = (Inr (), d0)"
    and a: "apply_migrations exec e (seen_versions d0) ms d0 = Inr (done, d1)"
    using assms(2) by (cases "create_table e d") (auto simp: Up_def and_then_def split: sum.splits dest!: withTx_InrD)
  have s0: "seen_versions d0 = seen_versions d" and t: "sc_applied d0 \<noteq> None"
    using c by (auto simp: create_table_def seen_versions_def dest!: withTx_InrD split: if_splits option.splits)
  note f = apply_migrations_seen [OF a]
  obtain rows where "sc_applied d1 = Some rows" using f t by blast
  moreover have "set (map mg_version ms) \<subseteq> seen_versions d1" using f by (simp add: s0)
  ultimately have "Up exec e' (Inr ms) d1 = (Inr [], d1)"
    using assms(3,4) by (simp add: Up_def create_table_def apply_migrations_none)
  moreover have "sorted_wrt (<) (map ap_version done)"
    using LoadDir_sorted [OF assms(1)] f by (simp add: sorted_wrt_filter)
  moreover have m: "map ap_version done = filter (\<lambda>v. v \<notin> seen_versions d) (map mg_version ms)"
    using f unfolding s0 by blast
  have "seen_versions d1 = seen_versions d \<union> set (map ap_version done)" using f unfolding s0 by blast
  then have "seen_versions d1 = seen_versions d \<union> set (map mg_version ms)" unfolding m by auto
  ultimately show ?thesis using m by (intro conjI)
qed

definition append_sql :: "bytes \<Rightarrow> string \<Rightarrow> goerr + string" where
  "append_sql sql x = Inr (x @ sql)"

definition sample_files :: "dir_entry list" where
  "sample_files = [\<lparr>de_name = ''002_index.sql'', de_is_dir = False, de_read = Inr ''b''\<rparr>,
     \<lparr>de_name = ''README.md'', de_is_dir = False, de_read = Inr ''x''\<rparr>,
     \<lparr>de_name = ''001_jobs.sql'', de_is_dir = False, de_read = Inr ''a''\<rparr>]"

lemma sample_load: "LoadDir ''m'' (Inr sample_files) = Inr
   [\<lparr>mg_version = ''001'', mg_name = ''jobs'', mg_path = ''m/001_jobs.sql'', mg_sql = ''a''\<rparr>,
    \<lparr>mg_version = ''002'', mg_name = ''index'', mg_path = ''m/002_index.sql'', mg_sql = ''b''\<rparr>]"
  by code_simp

lemma version_order_is_textual:
  "map_sum id (map mg_version) (LoadDir ''m'' (Inr [\<lparr>de_name = ''9_a.sql'', de_is_dir = False, de_read = Inr ''a''\<rparr>,
     \<lparr>de_name = ''10_b.sql'', de_is_dir = False, de_read = Inr ''b''\<rparr>])) = Inr [''10'', ''9'']"
  by code_simp

lemma up_once_witness:
  "\<exists>ms done d1. LoadDir ''m'' (Inr sample_files) = Inr ms
    \<and> Up append_sql (plain_env 5 '''') (Inr ms) \<lparr>sc_applied = None, sc_rest = ''''\<rparr> = (Inr done, d1)
    \<and> map ap_version done = [''001'', ''002''] \<and> sc_rest d1 = ''ab''
    \<and> Up append_sql (plain_env 9 '''') (Inr ms) d1 = (Inr [], d1)"
proof -
  let ?ms = "[\<lparr>mg_version = ''001'', mg_name = ''jobs'', mg_path = ''m/001_jobs.sql'', mg_sql = ''a''\<rparr>,
    \<lparr>mg_version = ''002'', mg_name = ''index'', mg_path = ''m/002_index.sql'', mg_sql = ''b''\<rparr>]"
  let ?up = "Up append_sql (plain_env 5 '''') (Inr ?ms) \<lparr>sc_applied = None, sc_rest = ''''\<rparr>"
  have "(case fst ?up of Inl _ \<Rightarrow> [] | Inr ap \<Rightarrow> map ap_version ap) = [''001'', ''002'']" "sc_rest (snd ?up) = ''ab''"
    by (simp_all add: Up_def create_table_def seen_versions_def append_sql_def Let_def)
  then obtain ap where up: "?up = (Inr ap, snd ?up)" "map ap_version ap = [''001'', ''002'']" "sc_rest (snd ?up) = ''ab''"
    by (cases "fst ?up") (simp_all add: prod_eq_iff)
  have l: "link (plain_env 9 '''') 0 = Acked" "link (plain_env 9 '''') 1 = Acked" by simp_all
  have u: "Up append_sql (plain_env 9 '''') (Inr ?ms) (snd ?up) = (Inr [], snd ?up)"
    using up_once [OF sample_load up(1) l] by (elim conjE)
  show ?thesis
    by (intro exI [where x = ?ms] exI [where x = ap] exI [where x = "snd ?up"] conjI)
      (rule sample_load, rule up(1), rule up(2), rule up(3), rule u)
qed

end
