(* ===== verification/Structs.thy ===== *)
theory Structs
  imports Json Job
begin

text \<open>
  \<open>encoding/json\<close> decoding an object into a struct: every member whose name is a field's,
  exactly or up to the case of ASCII letters, sets that field, in the order of the text; the
  others are skipped. A member of the wrong type leaves its field and makes the whole decoding
  an error. The texts of the decoder's errors are not modelled.
\<close>

definition decode_error :: goerr where
  "decode_error = New ''cannot decode JSON''"

text \<open>The members of an object with the raw text of each value; \<open>s\<close> starts after the brace.\<close>

fun raw_members :: "nat \<Rightarrow> string \<Rightarrow> (string \<times> bytes) list" where
  "raw_members 0 s = []"
| "raw_members (Suc n) s =
     (case parse_text (skip s) of
        None \<Rightarrow> []
      | Some (k, r0) \<Rightarrow>
          let v0 = skip (tl (skip r0))
          in (case parse_value Some (length v0) v0 of
                None \<Rightarrow> []
              | Some (v, r1) \<Rightarrow>
                  (k, take (length v0 - length r1) v0)
                  # (if skip r1 \<noteq> '''' \<and> hd (skip r1) = CHR '','' then raw_members n (tl (skip r1)) else [])))"

text \<open>A field sets itself from a raw value, None being a value of the wrong type.\<close>

type_synonym 'r setter = "bytes \<Rightarrow> 'r \<Rightarrow> 'r option"

definition find_field :: "(string \<times> 'r setter) list \<Rightarrow> string \<Rightarrow> 'r setter option" where
  "find_field flds k =
     (case map_of flds k of
        Some f \<Rightarrow> Some f
      | None \<Rightarrow> map_option snd (find (\<lambda>(n, f). EqualFold n k) flds))"

definition set_member :: "(string \<times> 'r setter) list \<Rightarrow> string \<times> bytes \<Rightarrow> bool \<times> 'r \<Rightarrow> bool \<times> 'r" where
  "set_member flds m st =
     (case find_field flds (fst m) of
        None \<Rightarrow> st
      | Some f \<Rightarrow> (case f (snd m) (snd st) of None \<Rightarrow> (False, snd st) | Some x \<Rightarrow> (fst st, x)))"

text \<open>One value decoded into a struct: whether it fits, the struct, and the rest of the text.\<close>

definition decode_prefix ::
    "(string \<times> 'r setter) list \<Rightarrow> bytes \<Rightarrow> 'r \<Rightarrow> ((bool \<times> 'r) \<times> string) option" where
  "decode_prefix flds s0 x =
     (let s = skip s0
      in case parse_value Some (Suc (length s)) s of
           None \<Rightarrow> None
         | Some (v, r) \<Rightarrow>
             Some (case v of
                JObj ms \<Rightarrow> fold (set_member flds) (if ms = [] then [] else raw_members (length s) (tl s)) (True, x)
              | JNull \<Rightarrow> (True, x)
              | _ \<Rightarrow> (False, x), r))"

text \<open>\<open>json.NewDecoder(r).Decode\<close>: what follows the first value is not read.\<close>

definition Decode :: "(string \<times> 'r setter) list \<Rightarrow> bytes \<Rightarrow> 'r \<Rightarrow> goerr + 'r" where
  "Decode flds s x =
     (case decode_prefix flds s x of
        None \<Rightarrow> Inl decode_error
      | Some ((ok, y), r) \<Rightarrow> if ok then Inr y else Inl decode_error)"

text \<open>\<open>json.Unmarshal\<close>: the struct as it is left, and whether there was no error.\<close>

definition Unmarshal :: "(string \<times> 'r setter) list \<Rightarrow> bytes \<Rightarrow> 'r \<Rightarrow> bool \<times> 'r" where
  "Unmarshal flds s x =
     (case decode_prefix flds s x of
        None \<Rightarrow> (False, x)
      | Some (st, r) \<Rightarrow> if skip r = '''' then st else (False, x))"

text \<open>\<open>json.Valid\<close>.\<close>

definition json_Valid :: "bytes \<Rightarrow> bool" where
  "json_Valid s \<longleftrightarrow> unmarshal_any Some s \<noteq> None"

section \<open>Fields by type\<close>

definition string_field :: "(string \<Rightarrow> 'r \<Rightarrow> 'r) \<Rightarrow> 'r setter" where
  "string_field upd raw x = (if raw = ''null'' then Some x else map_option (\<lambda>s. upd s x) (unmarshal_string raw))"

definition int_field :: "(int \<Rightarrow> 'r \<Rightarrow> 'r) \<Rightarrow> 'r setter" where
  "int_field upd raw x = (if raw = ''null'' then Some x else map_option (\<lambda>n. upd n x) (ParseInt raw))"

definition bool_field :: "(bool \<Rightarrow> 'r \<Rightarrow> 'r) \<Rightarrow> 'r setter" where
  "bool_field upd raw x =
     (if raw = ''null'' then Some x
      else if raw = ''true'' then Some (upd True x)
      else if raw = ''false'' then Some (upd False x) else None)"

definition time_field :: "(time \<Rightarrow> 'r \<Rightarrow> 'r) \<Rightarrow> 'r setter" where
  "time_field upd raw x = (if raw = ''null'' then Some x else map_option (\<lambda>t. upd t x) (unmarshal_time raw))"

text \<open>\<open>json.RawMessage\<close> takes any value, \<open>null\<close> included.\<close>

definition raw_field :: "(bytes \<Rightarrow> 'r \<Rightarrow> 'r) \<Rightarrow> 'r setter" where
  "raw_field upd raw x = Some (upd raw x)"

section \<open>Requests\<close>

definition request_fields :: "(string \<times> enqueue_request setter) list" where
  "request_fields =
     [(''queue'', string_field (\<lambda>s r. r\<lparr>rq_queue := s\<rparr>)),
      (''workflow_type'', string_field (\<lambda>s r. r\<lparr>rq_type := s\<rparr>)),
      (''payload'', raw_field (\<lambda>b r. r\<lparr>rq_payload := b\<rparr>)),
      (''idempotency_key'', string_field (\<lambda>s r. r\<lparr>rq_key := s\<rparr>)),
      (''max_attempts'', int_field (\<lambda>n r. r\<lparr>rq_max_attempts := n\<rparr>)),
      (''run_after'', time_field (\<lambda>t r. r\<lparr>rq_run_after := t\<rparr>)),
      (''parent_id'', string_field (\<lambda>s r. r\<lparr>rq_parent := s\<rparr>))]"

record signal_request =
  sq_name :: string
  sq_payload :: bytes
  sq_key :: string

definition signal_fields :: "(string \<times> signal_request setter) list" where
  "signal_fields =
     [(''name'', string_field (\<lambda>s r. r\<lparr>sq_name := s\<rparr>)),
      (''payload'', raw_field (\<lambda>b r. r\<lparr>sq_payload := b\<rparr>)),
      (''idempotency_key'', string_field (\<lambda>s r. r\<lparr>sq_key := s\<rparr>))]"

definition zero_signal_request :: signal_request where
  "zero_signal_request = \<lparr>sq_name = '''', sq_payload = '''', sq_key = ''''\<rparr>"

section \<open>Facts\<close>

definition dq :: "string \<Rightarrow> string" where
  "dq = map (\<lambda>c. if c = CHR 0x27 then CHR 0x22 else c)"

lemma decode_examples:
  "Decode signal_fields (dq ''{ 'Name' : 'go' , 'payload' : { 'a' : [ 1 ] } } x'') zero_signal_request
     = Inr \<lparr>sq_name = ''go'', sq_payload = dq ''{ 'a' : [ 1 ] }'', sq_key = ''''\<rparr>"
  "Decode signal_fields (dq ''{'name':3,'payload':1}'') zero_signal_request = Inl decode_error"
  "Decode signal_fields '''' zero_signal_request = Inl decode_error"
  by code_simp+

lemma request_example:
  "Decode request_fields (dq ''{'queue':'q','max_attempts':7,'run_after':'2024-02-29T23:59:59Z','payload':null,'z':0}'')
     zero_request
   = Inr (zero_request\<lparr>rq_queue := ''q'', rq_max_attempts := 7, rq_run_after := 63844847999 * second,
       rq_payload := ''null''\<rparr>)"
  "Decode request_fields (dq ''{'max_attempts':1.5}'') zero_request = Inl decode_error"
  by code_simp+

end
