(* ===== verification/Urls.thy ===== *)
theory Urls
  imports Gojson Gostrings
begin

text \<open>
  The part of \<open>net/url\<close> the dashboard's paging links rest on: query escaping, \<open>Values.Encode\<close>
  and the parsing of a query string, on byte strings.
\<close>

type_synonym params = "(string \<times> string) list"

definition unreserved :: "char \<Rightarrow> bool" where
  "unreserved c \<longleftrightarrow>
     (let n = (of_char c :: int)
      in 48 \<le> n \<and> n \<le> 57 \<or> 65 \<le> n \<and> n \<le> 90 \<or> 97 \<le> n \<and> n \<le> 122
         \<or> c \<in> {CHR ''-'', CHR ''_'', CHR ''.'', CHR ''~''})"

definition upper_hex :: "int \<Rightarrow> char" where
  "upper_hex n = char_of (if n mod 16 < 10 then 48 + n mod 16 else 55 + n mod 16)"

definition escape_char :: "char \<Rightarrow> string" where
  "escape_char c =
     (if unreserved c then [c]
      else if c = CHR '' '' then ''+''
      else [CHR ''%'', upper_hex (of_char c div 16), upper_hex (of_char c)])"

definition QueryEscape :: "string \<Rightarrow> string" where
  "QueryEscape s = concat (map escape_char s)"

fun QueryUnescape :: "string \<Rightarrow> string option" where
  "QueryUnescape [] = Some []"
| "QueryUnescape (c # s) =
     (if c = CHR ''%'' then
        (case s of
           a # b # r \<Rightarrow>
             (case (hex_value a, hex_value b) of
                (Some x, Some y) \<Rightarrow> map_option (\<lambda>z. char_of (16 * x + y) # z) (QueryUnescape r)
              | _ \<Rightarrow> None)
         | _ \<Rightarrow> None)
      else map_option (\<lambda>z. (if c = CHR ''+'' then CHR '' '' else c) # z) (QueryUnescape s))"

fun join_with :: "char \<Rightarrow> string list \<Rightarrow> string" where
  "join_with c [] = ''''"
| "join_with c [w] = w"
| "join_with c (w # v # ws) = w @ c # join_with c (v # ws)"

text \<open>The pairs of \<open>Values\<close> with one value per key, in the order of the keys.\<close>

definition Encode :: "params \<Rightarrow> string" where
  "Encode ps = join_with (CHR ''&'')
     (map (\<lambda>(k, v). QueryEscape k @ CHR ''='' # QueryEscape v) (sort_key fst ps))"

text \<open>A malformed pair is dropped, which is what \<open>URL.Query\<close> does.\<close>

definition parse_pair :: "string \<Rightarrow> (string \<times> string) option" where
  "parse_pair w =
     (if w = '''' \<or> CHR '';'' \<in> set w then None
      else (case Cut (CHR ''='') w of
         (k, v, _) \<Rightarrow>
           (case (QueryUnescape k, QueryUnescape v) of
              (Some x, Some y) \<Rightarrow> Some (x, y)
            | _ \<Rightarrow> None)))"

definition ParseQuery :: "string \<Rightarrow> params" where
  "ParseQuery s = List.map_filter parse_pair (Split_at (CHR ''&'') s)"

section \<open>Round trip\<close>

lemma upper_hex_value [simp]: "hex_value (upper_hex n) = Some (n mod 16)"
proof -
  have r: "0 \<le> n mod 16" "n mod 16 < 16" by simp_all
  define v where "v = (if n mod 16 < 10 then 48 + n mod 16 else 55 + n mod 16)"
  have "v mod 256 = v" using r by (simp add: v_def)
  then have "of_char (upper_hex n) = v" by (simp add: upper_hex_def v_def [symmetric])
  then show ?thesis using r by (auto simp: hex_value_def v_def Let_def)
qed

lemma hex_not_special: "hex_value c \<noteq> None \<Longrightarrow> c \<notin> {CHR ''&'', CHR ''='', CHR '';'', CHR ''%'', CHR ''+''}"
  by (auto simp: hex_value_def)

lemma upper_hex_not_special: "upper_hex n \<notin> {CHR ''&'', CHR ''='', CHR '';'', CHR ''%'', CHR ''+''}"
  by (rule hex_not_special) simp

lemma unreserved_not_special: "unreserved c \<Longrightarrow> c \<notin> {CHR ''&'', CHR ''='', CHR '';'', CHR ''%'', CHR ''+'', CHR '' ''}"
  by (auto simp: unreserved_def)

lemma char_halves: "char_of (16 * (of_char c div 16 mod 16) + of_char c mod 16 :: int) = c"
proof -
  have "(of_char c :: int) div 16 < 16" using of_char_range [of c] by simp
  then have "(of_char c :: int) div 16 mod 16 = of_char c div 16" using of_char_range [of c] by simp
  then have "16 * (of_char c div 16 mod 16) + of_char c mod 16 = (of_char c :: int)"
    by simp
  then show ?thesis by simp
qed

lemma QueryUnescape_char: "QueryUnescape (escape_char c @ s) = map_option (\<lambda>z. c # z) (QueryUnescape s)"
  using unreserved_not_special [of c] char_halves [of c] by (auto simp: escape_char_def)

lemma QueryUnescape_escape [simp]: "QueryUnescape (QueryEscape s) = Some s"
  by (induction s) (simp_all add: QueryEscape_def QueryUnescape_char)

lemma escape_char_special: "set (escape_char c) \<inter> {CHR ''&'', CHR ''='', CHR '';''} = {}"
  using unreserved_not_special [of c] upper_hex_not_special [of "of_char c div 16"] upper_hex_not_special [of "of_char c"]
  by (auto simp: escape_char_def)

lemma QueryEscape_special: "c \<in> set (QueryEscape s) \<Longrightarrow> c \<notin> {CHR ''&'', CHR ''='', CHR '';''}"
  using escape_char_special by (fastforce simp: QueryEscape_def)

lemma Cut_pair: "Cut (CHR ''='') (QueryEscape k @ CHR ''='' # QueryEscape v) = (QueryEscape k, QueryEscape v, True)"
  by (rule Cut_first) (use QueryEscape_special in blast)

lemma parse_pair_encoded: "parse_pair (QueryEscape k @ CHR ''='' # QueryEscape v) = Some (k, v)"
  unfolding parse_pair_def Cut_pair using QueryEscape_special by auto

lemma Split_at_piece: "c \<notin> set w \<Longrightarrow> Split_at c (w @ c # s) = w # Split_at c s"
  by (induction w) auto

lemma Split_at_last: "c \<notin> set w \<Longrightarrow> Split_at c w = [w]"
  by (induction w) auto

lemma Split_at_join:
  "ws \<noteq> [] \<Longrightarrow> list_all (\<lambda>w. c \<notin> set w) ws \<Longrightarrow> Split_at c (join_with c ws) = ws"
proof (induction c ws rule: join_with.induct)
  case (2 c w)
  then show ?case by (simp add: Split_at_last)
next
  case (3 c w v ws)
  then show ?case by (simp add: Split_at_piece)
qed simp

text \<open>Parsing an encoded query gives its pairs back, in the order of the keys.\<close>

lemma ParseQuery_Encode: "ParseQuery (Encode ps) = sort_key fst ps"
proof (cases "ps = []")
  case True
  then show ?thesis by (simp add: ParseQuery_def Encode_def map_filter_def parse_pair_def)
next
  case False
  let ?pair = "\<lambda>(k, v). QueryEscape k @ CHR ''='' # QueryEscape v"
  have ne: "map ?pair (sort_key fst ps) \<noteq> []" using False by (metis list.map_disc_iff length_0_conv length_sort)
  have "list_all (\<lambda>w. CHR ''&'' \<notin> set w) (map ?pair (sort_key fst ps))"
    using QueryEscape_special by (fastforce simp: list_all_iff)
  then have "Split_at (CHR ''&'') (Encode ps) = map ?pair (sort_key fst ps)"
    unfolding Encode_def by (rule Split_at_join [OF ne])
  moreover have "List.map_filter parse_pair (map ?pair qs) = qs" for qs
    by (induction qs) (auto simp: map_filter_def parse_pair_encoded)
  ultimately show ?thesis by (simp add: ParseQuery_def)
qed

lemma ParseQuery_Encode_lookup:
  assumes "distinct (map fst ps)"
  shows "map_of (ParseQuery (Encode ps)) = map_of ps"
proof -
  have d: "distinct (map fst (sort_key fst ps))"
    using assms by (simp add: distinct_map)
  show ?thesis unfolding ParseQuery_Encode
  proof
    fix k
    have "map_of (sort_key fst ps) k = Some v \<longleftrightarrow> map_of ps k = Some v" for v
      using assms d by simp
    then show "map_of (sort_key fst ps) k = map_of ps k" by (metis not_Some_eq)
  qed
qed

end
