(* ===== verification/Api.thy ===== *)
theory Api
  imports Client Structs
begin

text \<open>
  The HTTP API of \<open>internal/api/server.go\<close>: authentication in front of everything, and the
  JSON handlers over the store. A request is what the handlers read of \<open>http.Request\<close>; an
  answer is the status code with the value given to the JSON encoder. \<open>net/url\<close>'s parser
  (\<open>url_host\<close>: the host of a URL, None where it does not parse) and the keyed hash behind the
  session cookie (\<open>session_value\<close>) are arguments. Tracing, metrics, routing and logging are
  left out.
\<close>

section \<open>Requests and answers\<close>

type_synonym params = "(string \<times> string) list"

record request =
  req_method :: string
  req_path :: string
  req_host :: string
  req_headers :: params
  req_cookies :: params
  req_query :: params
  req_form :: "goerr + params"
  req_body :: bytes
  req_tls :: bool

text \<open>The \<open>Get\<close> of headers and query values: the first value, or the empty string.\<close>

definition first_value :: "params \<Rightarrow> string \<Rightarrow> string" where
  "first_value ps k = (case map_of ps k of None \<Rightarrow> '''' | Some v \<Rightarrow> v)"

datatype answer =
    AJob job
  | AJobs "job list"
  | AJobEvents job "event list"
  | ASignals "signal list"
  | AStatus string
  | AError string

type_synonym response = "int \<times> answer"

definition writeError :: "int \<Rightarrow> goerr \<Rightarrow> response" where
  "writeError code err = (code, AError (TrimSpace (err_string err)))"

definition writeStoreError :: "goerr \<Rightarrow> response" where
  "writeStoreError err =
     (if errors_Is err ErrNotFound then writeError 404 err
      else if errors_Is err ErrInvalidTransition then writeError 409 err
      else if errors_Is err ErrInvalidStatus then writeError 400 err
      else writeError 500 err)"

section \<open>Authentication\<close>

definition sameOrigin :: "(string \<Rightarrow> string option) \<Rightarrow> request \<Rightarrow> bool" where
  "sameOrigin url_host r =
     (let origin = first_value (req_headers r) ''Origin'';
          source = (if origin = '''' then first_value (req_headers r) ''Referer'' else origin)
      in if source = '''' then True else url_host source = Some (req_host r))"

definition sessionCookie :: string where
  "sessionCookie = ''workrail_session''"

definition hasSession :: "(string \<Rightarrow> string) \<Rightarrow> string \<Rightarrow> request \<Rightarrow> bool" where
  "hasSession session_value token r =
     (case map_of (req_cookies r) sessionCookie of
        None \<Rightarrow> False
      | Some v \<Rightarrow> v = session_value token)"

text \<open>What \<open>auth\<close> does with a request: hand it on, or answer it.\<close>

datatype verdict = Next | Forbidden | RedirectToLogin | Unauthorized

definition auth :: "(string \<Rightarrow> string option) \<Rightarrow> (string \<Rightarrow> string) \<Rightarrow> string \<Rightarrow> request \<Rightarrow> verdict" where
  "auth url_host session_value token r =
     (if req_method r = ''POST'' \<and> has_prefix ''/ui'' (req_path r) \<and> \<not> sameOrigin url_host r then Forbidden
      else if token = '''' \<or> req_path r = ''/healthz'' \<or> req_path r = ''/ui/login'' then Next
      else if req_path r = ''/'' \<or> req_path r = ''/ui'' \<or> has_prefix ''/ui/'' (req_path r) then
        (if hasSession session_value token r then Next else RedirectToLogin)
      else
        (case Cut (CHR '' '') (first_value (req_headers r) ''Authorization'') of
           (scheme, tok, ok) \<Rightarrow>
             if \<not> ok \<or> \<not> EqualFold scheme ''Bearer'' \<or> tok \<noteq> token then Unauthorized else Next))"

section \<open>Handlers\<close>

definition api_enqueue :: "(nat \<Rightarrow> call_env) \<Rightarrow> request \<Rightarrow> 'x world \<Rightarrow> response \<times> 'x world" where
  "api_enqueue E r w =
     (case Decode request_fields (req_body r) zero_request of
        Inl err \<Rightarrow> (writeError 400 err, w)
      | Inr req \<Rightarrow>
          (case call E (\<lambda>e. Enqueue e req) w of
             (Inl err, w1) \<Rightarrow> (writeError 500 err, w1)
           | (Inr (j, inserted), w1) \<Rightarrow> ((if inserted then 201 else 200, AJob j), w1)))"

text \<open>\<open>strconv.Atoi\<close> with its error dropped: 0 for no number, the nearest bound out of range.\<close>

definition query_int :: "string \<Rightarrow> int" where
  "query_int s =
     (case ParseInt s of
        Some n \<Rightarrow> n
      | None \<Rightarrow>
          let neg = (s \<noteq> '''' \<and> hd s = CHR ''-'');
              ds = (if s \<noteq> '''' \<and> (hd s = CHR ''-'' \<or> hd s = CHR ''+'') then tl s else s)
          in if ds = '''' \<or> \<not> list_all is_digit ds then 0
             else if neg then - (2 ^ 63) else 2 ^ 63 - 1)"

definition cursor_error :: goerr where
  "cursor_error = Wrapf ''invalid before cursor: '' (New ''cannot parse the time'') ''''"

definition parseCursor :: "params \<Rightarrow> goerr + time \<times> string" where
  "parseCursor q =
     (if first_value q ''before'' = '''' then Inr (0, '''')
      else (case parse_rfc3339 (first_value q ''before'') of
         None \<Rightarrow> Inl cursor_error
       | Some at \<Rightarrow> Inr (at, first_value q ''before_id'')))"

definition listed :: "(goerr + job list) \<times> 'x world \<Rightarrow> response \<times> 'x world" where
  "listed r = (case r of (Inl err, w) \<Rightarrow> (writeStoreError err, w) | (Inr js, w) \<Rightarrow> ((200, AJobs js), w))"

definition api_list :: "(nat \<Rightarrow> call_env) \<Rightarrow> request \<Rightarrow> 'x world \<Rightarrow> response \<times> 'x world" where
  "api_list E r w =
     (let q = req_query r; parent = first_value q ''parent_id''
      in case parseCursor q of
           Inl err \<Rightarrow> (writeError 400 err, w)
         | Inr (bef, bef_id) \<Rightarrow>
             if parent \<noteq> '''' \<and> length parent \<noteq> 36 then (writeError 400 (New ''invalid parent_id''), w)
             else listed (call E (\<lambda>e. List_jobs e
               \<lparr>lo_limit = query_int (first_value q ''limit''), lo_queue = first_value q ''queue'',
                lo_status = first_value q ''status'', lo_type = first_value q ''type'', lo_parent = parent,
                lo_before_at = bef, lo_before_id = bef_id\<rparr>) w))"

definition api_deadLetters :: "(nat \<Rightarrow> call_env) \<Rightarrow> request \<Rightarrow> 'x world \<Rightarrow> response \<times> 'x world" where
  "api_deadLetters E r w =
     (let q = req_query r
      in listed (call E (\<lambda>e. List_jobs e (zero_list_options\<lparr>lo_limit := query_int (first_value q ''limit''),
           lo_queue := first_value q ''queue'', lo_status := status_string StatusDeadLetter,
           lo_type := first_value q ''type''\<rparr>)) w))"

definition api_inspect :: "(nat \<Rightarrow> call_env) \<Rightarrow> string \<Rightarrow> 'x world \<Rightarrow> response \<times> 'x world" where
  "api_inspect E i w =
     (case call E (\<lambda>e. Get e i) w of
        (Inl err, w1) \<Rightarrow> (writeStoreError err, w1)
      | (Inr (j, evs), w1) \<Rightarrow> ((200, AJobEvents j evs), w1))"

definition api_cancel :: "(nat \<Rightarrow> call_env) \<Rightarrow> string \<Rightarrow> 'x world \<Rightarrow> response \<times> 'x world" where
  "api_cancel E i w =
     (case call E (\<lambda>e. Cancel e i) w of
        (Inl err, w1) \<Rightarrow> (writeStoreError err, w1)
      | (Inr _, w1) \<Rightarrow> ((200, AStatus ''canceled''), w1))"

definition api_replay :: "(nat \<Rightarrow> call_env) \<Rightarrow> string \<Rightarrow> 'x world \<Rightarrow> response \<times> 'x world" where
  "api_replay E i w =
     (case call E (\<lambda>e. Replay e i) w of
        (Inl err, w1) \<Rightarrow> (writeStoreError err, w1)
      | (Inr j, w1) \<Rightarrow> ((201, AJob j), w1))"

definition api_retry :: "(nat \<Rightarrow> call_env) \<Rightarrow> string \<Rightarrow> 'x world \<Rightarrow> response \<times> 'x world" where
  "api_retry E i w =
     (case call E (\<lambda>e. RetryDeadLetter e i) w of
        (Inl err, w1) \<Rightarrow> (writeStoreError err, w1)
      | (Inr j, w1) \<Rightarrow> ((200, AJob j), w1))"

definition api_signal :: "(nat \<Rightarrow> call_env) \<Rightarrow> request \<Rightarrow> string \<Rightarrow> 'x world \<Rightarrow> response \<times> 'x world" where
  "api_signal E r i w =
     (case Decode signal_fields (req_body r) zero_signal_request of
        Inl err \<Rightarrow> (writeError 400 err, w)
      | Inr req \<Rightarrow>
          if sq_name req = '''' then (writeError 400 (New ''signal name is required''), w)
          else (case call E (\<lambda>e. Signal e i (sq_name req) (sq_payload req) (sq_key req)) w of
             (Inl err, w1) \<Rightarrow> (writeStoreError err, w1)
           | (Inr _, w1) \<Rightarrow> ((202, AStatus ''signaled''), w1)))"

definition api_listSignals :: "(nat \<Rightarrow> call_env) \<Rightarrow> string \<Rightarrow> 'x world \<Rightarrow> response \<times> 'x world" where
  "api_listSignals E i w =
     (case call E (\<lambda>e. ListSignals e i) w of
        (Inl err, w1) \<Rightarrow> (writeStoreError err, w1)
      | (Inr gs, w1) \<Rightarrow> ((200, ASignals gs), w1))"

end
