(* ===== verification/Dashboard.thy ===== *)
theory Dashboard
  imports Api Urls
begin

text \<open>
  The operator dashboard of \<open>internal/api/dashboard.go\<close>: the limiter of sign-in attempts, the
  data behind each page, and the handlers of its actions. A page is the data given to its
  template; the templates themselves and a failure to execute one are not modelled. The parts
  of a page that the templates compute while rendering (ages, colours, parked marks) are
  functions here.
\<close>

section \<open>Sign-in attempts\<close>

text \<open>
  \<open>loginLimiter\<close>; its zero value has the zero time. The two clock readings of a locked section
  are one instant \<open>now\<close>.
\<close>

record limiter =
  lm_failures :: nat
  lm_window :: time

definition zero_limiter :: limiter where
  "zero_limiter = \<lparr>lm_failures = 0, lm_window = 0\<rparr>"

definition loginFailureLimit :: nat where "loginFailureLimit = 10"
definition loginFailureWindow :: duration where "loginFailureWindow = minute"

definition roll_window :: "time \<Rightarrow> limiter \<Rightarrow> limiter" where
  "roll_window now l =
     (if loginFailureWindow < now - lm_window l then \<lparr>lm_failures = 0, lm_window = now\<rparr> else l)"

definition allow :: "time \<Rightarrow> limiter \<Rightarrow> bool \<times> limiter" where
  "allow now l = (let l1 = roll_window now l in (lm_failures l1 < loginFailureLimit, l1))"

definition recordFailure :: "time \<Rightarrow> limiter \<Rightarrow> limiter" where
  "recordFailure now l = (let l1 = roll_window now l in l1\<lparr>lm_failures := lm_failures l1 + 1\<rparr>)"

section \<open>Labels\<close>

definition shortID :: "string \<Rightarrow> string" where
  "shortID i = (if length i \<le> 8 then i else take 8 i)"

definition statusClass :: "string \<Rightarrow> string" where
  "statusClass s = ''st-'' @ s"

definition statusLabel :: "string \<Rightarrow> string" where
  "statusLabel s = (if s = status_string StatusDeadLetter then ''dead letter'' else s)"

definition eventClass :: "string \<Rightarrow> string" where
  "eventClass ty =
     (if ty \<in> {''job.succeeded'', ''job.compensated''} then ''st-succeeded''
      else if ty \<in> {''job.failed'', ''job.compensation_failed''} then ''st-failed''
      else if ty = ''job.dead_lettered'' then ''st-dead_letter''
      else if ty = ''job.canceled'' then ''st-canceled''
      else if ty = ''job.signaled'' then ''st-running''
      else if ty \<in> {''job.suspended'', ''job.dlq_retried''} then ''st-retrying''
      else '''')"

text \<open>A nonnegative span in its largest whole unit.\<close>

definition timespan :: "duration \<Rightarrow> string" where
  "timespan d =
     (if d < minute then int_str (quot d second) @ ''s''
      else if d < 60 * minute then int_str (quot d minute) @ ''m''
      else if d < 24 * 60 * minute then int_str (quot d (60 * minute)) @ ''h''
      else int_str (quot d (24 * 60 * minute)) @ ''d'')"

text \<open>The dash shown for no time, in UTF-8.\<close>

definition dash :: string where
  "dash = [CHR 0xE2, CHR 0x80, CHR 0x94]"

definition timeago :: "time \<Rightarrow> time \<Rightarrow> string" where
  "timeago now t =
     (if t = 0 then dash
      else let d = now - t
        in if d < 0 then ''in '' @ timespan (- d)
           else if d < 5 * second then ''just now''
           else timespan d @ '' ago'')"

definition isParked :: "time \<Rightarrow> job \<Rightarrow> bool" where
  "isParked now j =
     (case status j of
        StatusQueued \<Rightarrow> now < run_after j
      | StatusRetrying \<Rightarrow> now < run_after j
      | _ \<Rightarrow> False)"

section \<open>The overview\<close>

record segment =
  sg_label :: string
  sg_class :: string
  sg_count :: nat

record queue_view =
  qv_name :: string
  qv_total :: nat
  qv_segments :: "segment list"
  qv_counts :: "segment list"

record overview =
  ov_tiles :: "segment list"
  ov_queues :: "queue_view list"
  ov_jobs :: "job list"
  ov_attention :: "job list"
  ov_parked :: nat

definition dashboardStatuses :: "status list" where
  "dashboardStatuses = [StatusQueued, StatusRunning, StatusRetrying, StatusSucceeded, StatusFailed,
     StatusDeadLetter, StatusCanceled]"

definition liveStatuses :: "status list" where
  "liveStatuses = [StatusQueued, StatusRunning, StatusRetrying, StatusDeadLetter]"

type_synonym depths = "(string \<times> string \<times> nat) list"

text \<open>The maps \<open>totals\<close> and \<open>byQueue\<close>; an absent key reads as 0.\<close>

definition totals :: "depths \<Rightarrow> string \<Rightarrow> nat" where
  "totals ds = fold (\<lambda>(q, s, n) m. m(s := m s + n)) ds (\<lambda>_. 0)"

definition by_queue :: "depths \<Rightarrow> string \<Rightarrow> string \<Rightarrow> nat" where
  "by_queue ds = fold (\<lambda>(q, s, n) m. m(q := (m q)(s := m q s + n))) ds (\<lambda>_ _. 0)"

definition queue_order :: "depths \<Rightarrow> string list" where
  "queue_order ds = fold (\<lambda>(q, s, n) qs. if q \<in> set qs then qs else qs @ [q]) ds []"

definition status_segment :: "status \<Rightarrow> nat \<Rightarrow> segment" where
  "status_segment s n = \<lparr>sg_label = statusLabel (status_string s), sg_class = statusClass (status_string s), sg_count = n\<rparr>"

definition segments :: "(string \<Rightarrow> nat) \<Rightarrow> status list \<Rightarrow> segment list" where
  "segments counts ss = map (\<lambda>s. status_segment s (counts (status_string s)))
     (filter (\<lambda>s. 0 < counts (status_string s)) ss)"

definition queue_row :: "depths \<Rightarrow> string \<Rightarrow> queue_view" where
  "queue_row ds q =
     (let counts = by_queue ds q
      in \<lparr>qv_name = q, qv_total = sum_list (map (\<lambda>s. counts (status_string s)) dashboardStatuses),
          qv_segments = segments counts liveStatuses, qv_counts = segments counts dashboardStatuses\<rparr>)"

definition buildOverview :: "depths \<Rightarrow> job list \<Rightarrow> job list \<Rightarrow> nat \<Rightarrow> overview" where
  "buildOverview ds recent attention parked =
     (let tile = (\<lambda>s. status_segment s (totals ds (status_string s)))
      in \<lparr>ov_tiles = [tile StatusDeadLetter, tile StatusRunning,
             \<lparr>sg_label = ''parked'', sg_class = ''st-retrying'', sg_count = parked\<rparr>, tile StatusSucceeded],
          ov_queues = map (queue_row ds) (queue_order ds),
          ov_jobs = recent, ov_attention = attention, ov_parked = parked\<rparr>)"

section \<open>The path of a run\<close>

record timeline_entry =
  tl_at :: time
  tl_title :: string
  tl_text :: string
  tl_data :: bytes
  tl_link :: string
  tl_link_text :: string
  tl_class :: string
  tl_badge :: string

definition beat :: "time \<Rightarrow> string \<Rightarrow> string \<Rightarrow> timeline_entry" where
  "beat at title cls = \<lparr>tl_at = at, tl_title = title, tl_text = '''', tl_data = '''', tl_link = '''',
     tl_link_text = '''', tl_class = cls, tl_badge = ''''\<rparr>"

text \<open>
  What \<open>json.Unmarshal\<close> makes of an event's details: of the members the store wrote, or of the
  bytes a workflow recorded.
\<close>

record failure_details =
  fd_error :: string
  fd_permanent :: bool

definition failure_fields :: "(string \<times> failure_details setter) list" where
  "failure_fields = [(''error'', string_field (\<lambda>s r. r\<lparr>fd_error := s\<rparr>)),
     (''permanent'', bool_field (\<lambda>b r. r\<lparr>fd_permanent := b\<rparr>))]"

definition failure_of :: "details \<Rightarrow> failure_details" where
  "failure_of det =
     (case det of
        Fields flds \<Rightarrow> \<lparr>fd_error = (case map_of flds ''error'' of Some (DStr s) \<Rightarrow> s | _ \<Rightarrow> ''''),
          fd_permanent = (case map_of flds ''permanent'' of Some (DBool b) \<Rightarrow> b | _ \<Rightarrow> False)\<rparr>
      | RawDetails b \<Rightarrow> snd (Unmarshal failure_fields b \<lparr>fd_error = '''', fd_permanent = False\<rparr>))"

definition isPermanent :: "details \<Rightarrow> bool" where
  "isPermanent det =
     (case det of
        Fields flds \<Rightarrow> map_of flds ''permanent'' = Some (DBool True)
      | RawDetails b \<Rightarrow> (let (ok, p) = Unmarshal [(''permanent'', bool_field (\<lambda>b _. b))] b False in ok \<and> p))"

definition run_after_of :: "details \<Rightarrow> time" where
  "run_after_of det =
     (case det of
        Fields flds \<Rightarrow> (case map_of flds ''run_after'' of Some (DTime t) \<Rightarrow> t | _ \<Rightarrow> 0)
      | RawDetails b \<Rightarrow> (let (ok, t) = Unmarshal [(''run_after'', time_field (\<lambda>t _. t))] b 0 in if ok then t else 0))"

definition event_entry :: "event \<Rightarrow> timeline_entry list" where
  "event_entry v =
     (let ty = ev_type v; entry = (\<lambda>title. beat (ev_at v) title (eventClass ty)) in
      if ty = ''job.suspended'' then
        (let t = run_after_of (ev_details v)
         in [entry (if t \<noteq> 0 then ''Waiting until '' @ rfc3339 t else ''Waiting'')])
      else if ty = ''job.failed'' then
        (let det = failure_of (ev_details v)
         in [(entry ''Attempt failed'')\<lparr>tl_text := fd_error det,
              tl_badge := (if fd_permanent det then ''permanent'' else '''')\<rparr>])
      else if ty = ''job.compensated'' then [entry ''Compensated'']
      else if ty = ''job.compensation_failed'' then
        [(entry ''Compensation failed'')\<lparr>tl_text := fd_error (failure_of (ev_details v))\<rparr>]
      else if ty = ''job.dead_lettered'' then [entry ''Dead-lettered'']
      else if ty = ''job.dlq_retried'' then [entry ''Retried from dead letter'']
      else if ty = ''job.canceled'' then [entry ''Canceled'']
      else if ty = ''job.succeeded'' then [entry ''Succeeded'']
      else [])"

definition step_entry :: "step_result \<Rightarrow> timeline_entry" where
  "step_entry s = (beat (st_at s) (''Step '' @ st_name s) ''st-succeeded'')\<lparr>tl_data := st_result s\<rparr>"

definition signal_entry :: "signal \<Rightarrow> timeline_entry" where
  "signal_entry g = (beat (sig_at g) (''Signal '' @ sig_name g) ''st-running'')\<lparr>tl_data := sig_payload g\<rparr>"

definition child_entry :: "job \<Rightarrow> timeline_entry" where
  "child_entry c = (beat (created_at c) (''Child '' @ workflow_type c) (statusClass (status_string (status c))))
     \<lparr>tl_text := statusLabel (status_string (status c)), tl_link := ''/ui/jobs/'' @ job_id c,
      tl_link_text := shortID (job_id c)\<rparr>"

definition start_entry :: "job \<Rightarrow> timeline_entry" where
  "start_entry j = (beat (created_at j) ''Run started'' ''st-queued'')\<lparr>tl_text := ''queue '' @ queue j\<rparr>"

definition buildTimeline ::
    "job \<Rightarrow> step_result list \<Rightarrow> signal list \<Rightarrow> job list \<Rightarrow> event list \<Rightarrow> timeline_entry list" where
  "buildTimeline j steps signals children evs =
     sort_key tl_at ([start_entry j] @ map step_entry steps @ map signal_entry signals
       @ map child_entry children @ concat (map event_entry evs))"

section \<open>Pages and replies\<close>

record jobs_page =
  jp_jobs :: "job list"
  jp_queue :: string
  jp_status :: string
  jp_type :: string
  jp_older :: string
  jp_latest :: string

record job_page =
  jd_job :: job
  jd_events :: "event list"
  jd_timeline :: "timeline_entry list"
  jd_parent :: "job option"
  jd_can_retry :: bool
  jd_can_cancel :: bool

text \<open>\<open>PLogin\<close> carries the message above the form, the empty one for none.\<close>

datatype page = POverview overview | PJobs string jobs_page | PJob job_page | PLogin string | PError string

record cookie =
  ck_value :: string
  ck_expired :: bool
  ck_secure :: bool

datatype reply =
    Json response
  | Page int page
  | Plain int string
  | Redirect string "cookie option"

definition uiStoreError :: "goerr \<Rightarrow> reply" where
  "uiStoreError err =
     (if errors_Is err ErrNotFound then Page 404 (PError ''That job doesn't exist.'')
      else if errors_Is err ErrInvalidTransition then
        Page 409 (PError ''The job changed state underneath this action. Go back and refresh.'')
      else if errors_Is err ErrInvalidStatus then Page 400 (PError ''That status filter isn't valid.'')
      else Page 500 (PError ''Something went wrong. Check the server logs.''))"

section \<open>Handlers\<close>

text \<open>A store call of a page: its error is shown as \<open>uiStoreError\<close> does.\<close>

definition ui_try ::
    "(goerr + 'a) \<times> 'x world \<Rightarrow> ('a \<Rightarrow> 'x world \<Rightarrow> reply \<times> 'x world) \<Rightarrow> reply \<times> 'x world" where
  "ui_try r k = (case r of (Inl err, w) \<Rightarrow> (uiStoreError err, w) | (Inr x, w) \<Rightarrow> k x w)"

definition plain_try ::
    "(goerr + 'a) \<times> 'x world \<Rightarrow> ('a \<Rightarrow> 'x world \<Rightarrow> reply \<times> 'x world) \<Rightarrow> reply \<times> 'x world" where
  "plain_try r k = (case r of (Inl err, w) \<Rightarrow> (Plain 500 (err_string err), w) | (Inr x, w) \<Rightarrow> k x w)"

definition uiOverview :: "(nat \<Rightarrow> call_env) \<Rightarrow> 'x world \<Rightarrow> reply \<times> 'x world" where
  "uiOverview E w =
     plain_try (call E QueueDepth w) (\<lambda>ds w.
     plain_try (call E (\<lambda>e. List_jobs e (zero_list_options\<lparr>lo_limit := 12\<rparr>)) w) (\<lambda>recent w.
     plain_try (call E (\<lambda>e. List_jobs e (zero_list_options\<lparr>lo_limit := 10,
         lo_status := status_string StatusDeadLetter\<rparr>)) w) (\<lambda>attention w.
     plain_try (call E ParkedCount w) (\<lambda>parked w.
       (Page 200 (POverview (buildOverview ds recent attention parked)), w)))))"

definition uiJobsLimit :: int where "uiJobsLimit = 100"

definition filters :: "params \<Rightarrow> params" where
  "filters q = map (\<lambda>k. (k, first_value q k)) (filter (\<lambda>k. first_value q k \<noteq> '''') [''queue'', ''status'', ''type''])"

definition older_url :: "params \<Rightarrow> job list \<Rightarrow> string" where
  "older_url q js =
     (if int (length js) = uiJobsLimit then
        ''/ui/jobs?'' @ Encode (filters q @ [(''before'', rfc3339_nano (created_at (last js))), (''before_id'', job_id (last js))])
      else '''')"

definition latest_url :: "params \<Rightarrow> time \<Rightarrow> string" where
  "latest_url q bef =
     (if bef \<noteq> 0 then ''/ui/jobs'' @ (if filters q \<noteq> [] then ''?'' @ Encode (filters q) else '''') else '''')"

definition ui_list_options :: "params \<Rightarrow> time \<Rightarrow> string \<Rightarrow> list_options" where
  "ui_list_options q bef bef_id = \<lparr>lo_limit = uiJobsLimit, lo_queue = first_value q ''queue'',
     lo_status = first_value q ''status'', lo_type = first_value q ''type'', lo_parent = '''',
     lo_before_at = bef, lo_before_id = bef_id\<rparr>"

definition uiJobs :: "(nat \<Rightarrow> call_env) \<Rightarrow> params \<Rightarrow> 'x world \<Rightarrow> reply \<times> 'x world" where
  "uiJobs E q w =
     (let st = first_value q ''status'' in
      if \<not> IsValidStatus st then (uiStoreError (Sentinel ErrInvalidStatus), w)
      else (case parseCursor q of
         Inl err \<Rightarrow> (Page 400 (PError ''That page cursor isn't valid.''), w)
       | Inr (bef, bef_id) \<Rightarrow>
           ui_try (call E (\<lambda>e. List_jobs e (ui_list_options q bef bef_id)) w) (\<lambda>js w.
             (Page 200 (PJobs (if st = status_string StatusDeadLetter then ''dlq'' else ''jobs'')
               \<lparr>jp_jobs = js, jp_queue = first_value q ''queue'', jp_status = st, jp_type = first_value q ''type'',
                jp_older = older_url q js, jp_latest = latest_url q bef\<rparr>), w))))"

definition job_data :: "job \<Rightarrow> event list \<Rightarrow> step_result list \<Rightarrow> signal list \<Rightarrow> job list \<Rightarrow> job_page" where
  "job_data j evs steps signals children =
     \<lparr>jd_job = j, jd_events = evs, jd_timeline = buildTimeline j steps signals children evs, jd_parent = None,
      jd_can_retry = (status j = StatusDeadLetter),
      jd_can_cancel = (status j \<in> {StatusQueued, StatusRunning, StatusRetrying})\<rparr>"

text \<open>The parent of a child job; one that is gone is left out.\<close>

definition with_parent :: "(nat \<Rightarrow> call_env) \<Rightarrow> job_page \<Rightarrow> 'x world \<Rightarrow> reply \<times> 'x world" where
  "with_parent E data w =
     (case parent_id (jd_job data) of
        None \<Rightarrow> (Page 200 (PJob data), w)
      | Some p \<Rightarrow>
          (case call E (\<lambda>e. Get e p) w of
             (Inl err, w1) \<Rightarrow>
               (if errors_Is err ErrNotFound then (Page 200 (PJob data), w1) else (uiStoreError err, w1))
           | (Inr (pj, _), w1) \<Rightarrow> (Page 200 (PJob (data\<lparr>jd_parent := Some pj\<rparr>)), w1)))"

definition uiJob :: "(nat \<Rightarrow> call_env) \<Rightarrow> string \<Rightarrow> 'x world \<Rightarrow> reply \<times> 'x world" where
  "uiJob E i w =
     ui_try (call E (\<lambda>e. Get e i) w) (\<lambda>(j, evs) w.
     ui_try (call E (\<lambda>e. ListSteps e (job_id j)) w) (\<lambda>steps w.
     ui_try (call E (\<lambda>e. ListSignals e (job_id j)) w) (\<lambda>signals w.
     ui_try (call E (\<lambda>e. List_jobs e (zero_list_options\<lparr>lo_limit := uiJobsLimit, lo_parent := job_id j\<rparr>)) w)
       (\<lambda>children w. with_parent E (job_data j evs steps signals children) w))))"

definition job_url :: "string \<Rightarrow> string" where
  "job_url i = ''/ui/jobs/'' @ i"

definition uiRetry :: "(nat \<Rightarrow> call_env) \<Rightarrow> string \<Rightarrow> 'x world \<Rightarrow> reply \<times> 'x world" where
  "uiRetry E i w = ui_try (call E (\<lambda>e. RetryDeadLetter e i) w) (\<lambda>_ w. (Redirect (job_url i) None, w))"

definition uiCancel :: "(nat \<Rightarrow> call_env) \<Rightarrow> string \<Rightarrow> 'x world \<Rightarrow> reply \<times> 'x world" where
  "uiCancel E i w = ui_try (call E (\<lambda>e. Cancel e i) w) (\<lambda>_ w. (Redirect (job_url i) None, w))"

definition uiReplay :: "(nat \<Rightarrow> call_env) \<Rightarrow> string \<Rightarrow> 'x world \<Rightarrow> reply \<times> 'x world" where
  "uiReplay E i w = ui_try (call E (\<lambda>e. Replay e i) w) (\<lambda>j w. (Redirect (job_url (job_id j)) None, w))"

text \<open>\<open>FormValue\<close>: the form's value, and the query's where the form has none.\<close>

definition FormValue :: "request \<Rightarrow> params \<Rightarrow> string \<Rightarrow> string" where
  "FormValue r form k = first_value (form @ req_query r) k"

definition uiSignal :: "(nat \<Rightarrow> call_env) \<Rightarrow> request \<Rightarrow> string \<Rightarrow> 'x world \<Rightarrow> reply \<times> 'x world" where
  "uiSignal E r i w =
     (case req_form r of
        Inl err \<Rightarrow> (Page 400 (PError ''That form didn't parse.''), w)
      | Inr form \<Rightarrow>
          let name = FormValue r form ''name'';
              pl0 = FormValue r form ''payload'';
              pl = (if pl0 = '''' then ''{}'' else pl0)
          in if name = '''' then (Page 400 (PError ''A signal needs a name.''), w)
             else if \<not> json_Valid pl then (Page 400 (PError ''That payload isn't valid JSON.''), w)
             else ui_try (call E (\<lambda>e. Signal e i name pl '''') w) (\<lambda>_ w. (Redirect (job_url i) None, w)))"

definition requestIsSecure :: "request \<Rightarrow> bool" where
  "requestIsSecure r \<longleftrightarrow> req_tls r \<or> EqualFold (first_value (req_headers r) ''X-Forwarded-Proto'') ''https''"

definition uiLoginForm :: "string \<Rightarrow> reply" where
  "uiLoginForm token = (if token = '''' then Redirect ''/ui'' None else Page 200 (PLogin ''''))"

text \<open>
  The limiter is locked twice in \<open>uiLogin\<close>: by the check, and by the count of a wrong guess.
  The handler runs up to the second lock, where None stands for a guess still to be counted,
  and from there; requests handled at once interleave these two parts.
\<close>

definition uiLogin_enter ::
    "(string \<Rightarrow> string) \<Rightarrow> string \<Rightarrow> time \<Rightarrow> request \<Rightarrow> limiter \<Rightarrow> reply option \<times> limiter" where
  "uiLogin_enter session_value token now r l =
     (case req_form r of
        Inl err \<Rightarrow> (Some (Plain 400 (err_string err)), l)
      | Inr form \<Rightarrow>
          let (ok, l1) = allow now l
          in if \<not> ok then (Some (Page 429 (PLogin ''Too many attempts. Try again in a minute.'')), l1)
             else if first_value form ''token'' \<noteq> token then (None, l1)
             else (Some (Redirect ''/ui'' (Some \<lparr>ck_value = session_value token, ck_expired = False,
                    ck_secure = requestIsSecure r\<rparr>)), l1))"

definition uiLogin_miss :: "time \<Rightarrow> limiter \<Rightarrow> reply \<times> limiter" where
  "uiLogin_miss now l = (Page 401 (PLogin ''That token didn't match.''), recordFailure now l)"

text \<open>A request handled alone.\<close>

definition uiLogin :: "(string \<Rightarrow> string) \<Rightarrow> string \<Rightarrow> time \<Rightarrow> request \<Rightarrow> limiter \<Rightarrow> reply \<times> limiter" where
  "uiLogin session_value token now r l =
     (case uiLogin_enter session_value token now r l of
        (Some rep, l1) \<Rightarrow> (rep, l1)
      | (None, l1) \<Rightarrow> uiLogin_miss now l1)"

definition uiLogout :: "request \<Rightarrow> reply" where
  "uiLogout r = Redirect ''/ui/login'' (Some \<lparr>ck_value = '''', ck_expired = True, ck_secure = requestIsSecure r\<rparr>)"

end
