(* ===== verification/Dashfacts.thy ===== *)
theory Dashfacts
  imports Dashboard
begin

text \<open>
  What the dashboard promises its reader: totals that account for every job, paging links
  that lose and repeat nothing, a time-ordered path of a run, buttons that match what the
  store accepts, and the rate of sign-in attempts.
\<close>

section \<open>Totals\<close>

lemma totals_sum: "totals ds s = sum_list (map (\<lambda>(q, s', n). if s' = s then n else 0) ds)"
proof -
  have "fold (\<lambda>(q, s, n) m. m(s := m s + n)) ds m s = m s + sum_list (map (\<lambda>(q, s', n). if s' = s then n else 0) ds)"
    for m :: "string \<Rightarrow> nat"
    by (induction ds arbitrary: m) auto
  then show ?thesis by (simp add: totals_def)
qed

lemma by_queue_sum: "by_queue ds q s = sum_list (map (\<lambda>(q', s', n). if q' = q \<and> s' = s then n else 0) ds)"
proof -
  have "fold (\<lambda>(q, s, n) m. m(q := (m q)(s := m q s + n))) ds m q s
      = m q s + sum_list (map (\<lambda>(q', s', n). if q' = q \<and> s' = s then n else 0) ds)"
    for m :: "string \<Rightarrow> string \<Rightarrow> nat"
    by (induction ds arbitrary: m) auto
  then show ?thesis by (simp add: by_queue_def)
qed

lemma queue_order_set: "set (queue_order ds) = fst ` set ds \<and> distinct (queue_order ds)"
proof -
  have "set (fold (\<lambda>(q, s, n) qs. if q \<in> set qs then qs else qs @ [q]) ds qs) = set qs \<union> fst ` set ds
      \<and> (distinct qs \<longrightarrow> distinct (fold (\<lambda>(q, s, n) qs. if q \<in> set qs then qs else qs @ [q]) ds qs))"
    for qs :: "string list"
    by (induction ds arbitrary: qs) (auto split: if_splits)
  then show ?thesis by (simp add: queue_order_def)
qed

lemma QueueDepth_InrD:
  assumes "QueueDepth e d = (Inr ds, d1)"
  shows "ds = map (\<lambda>p. (fst p, status_string (snd p),
      length (filter (\<lambda>j. queue j = fst p \<and> status j = snd p) (jobs d)))) (queue_groups d)"
  using assms by (auto simp: QueueDepth_def dest!: withTx_InrD)

lemma totals_depth:
  assumes "QueueDepth e d = (Inr ds, d1)"
  shows "totals ds (status_string s) = length (filter (\<lambda>j. status j = s) (jobs d))"
proof -
  have g: "distinct (queue_groups d)" "(\<lambda>j. (queue j, status j)) ` set (jobs d) \<subseteq> set (queue_groups d)"
    by (simp_all add: queue_groups_def)
  show ?thesis
    using sum_groups [OF g, of "\<lambda>t. t = s"]
    by (simp add: totals_sum QueueDepth_InrD [OF assms] comp_def)
qed

lemma by_queue_depth:
  assumes "QueueDepth e d = (Inr ds, d1)"
  shows "by_queue ds q (status_string s) = length (filter (\<lambda>j. queue j = q \<and> status j = s) (jobs d))"
proof -
  let ?cnt = "\<lambda>p. length (filter (\<lambda>j. queue j = fst p \<and> status j = snd p) (jobs d))"
  have g: "distinct (queue_groups d)" "set (queue_groups d) = (\<lambda>j. (queue j, status j)) ` set (jobs d)"
    by (simp_all add: queue_groups_def)
  have "by_queue ds q (status_string s) = sum_list (map (\<lambda>p. if fst p = q \<and> snd p = s then ?cnt p else 0) (queue_groups d))"
    by (simp add: by_queue_sum QueueDepth_InrD [OF assms] comp_def)
  also have "\<dots> = sum (\<lambda>p. if p = (q, s) then ?cnt p else 0) (set (queue_groups d))"
    using g(1) by (simp add: sum_list_distinct_conv_sum_set prod_eq_iff)
  also have "\<dots> = (if (q, s) \<in> set (queue_groups d) then ?cnt (q, s) else 0)" by simp
  also have "\<dots> = ?cnt (q, s)" using g(2) by (auto simp: filter_empty_conv)
  finally show ?thesis by simp
qed

lemma all_in_dashboard: "s \<in> set dashboardStatuses"
  by (cases s) (simp_all add: dashboardStatuses_def)

text \<open>Jobs split by status.\<close>

lemma count_by_status:
  "sum_list (map (\<lambda>s. length (filter (\<lambda>j. P j \<and> status j = s) js)) dashboardStatuses) = length (filter P js)"
proof (induction js)
  case (Cons j js)
  have "sum_list (map (\<lambda>s. (if P j \<and> status j = s then 1 else 0) + length (filter (\<lambda>j. P j \<and> status j = s) js)) dashboardStatuses)
      = (if P j then 1 else 0) + length (filter P js)"
    using Cons by (cases "status j") (simp_all add: dashboardStatuses_def)
  moreover have "length (filter (\<lambda>j. P j \<and> status j = s) (j # js))
      = (if P j \<and> status j = s then 1 else 0) + length (filter (\<lambda>j. P j \<and> status j = s) js)" for s by simp
  ultimately show ?case by simp
qed (simp add: dashboardStatuses_def)

lemma sum_segments: "sum_list (map sg_count (segments f ss)) = sum_list (map (\<lambda>s. f (status_string s)) ss)"
  by (induction ss) (auto simp: segments_def status_segment_def)

lemma sum_by_key:
  "set (map f js) \<subseteq> set qs \<Longrightarrow> distinct qs \<Longrightarrow> sum_list (map (\<lambda>q. length (filter (\<lambda>j. f j = q) js)) qs) = length js"
proof (induction js)
  case (Cons j js)
  have "length (filter (\<lambda>i. f i = q) (j # js)) = (if q = f j then 1 else 0) + length (filter (\<lambda>i. f i = q) js)" for q
    by simp
  then have "sum_list (map (\<lambda>q. length (filter (\<lambda>i. f i = q) (j # js))) qs)
      = sum_list (map (\<lambda>q. if q = f j then 1 else 0) qs) + length js"
    using Cons by (simp add: sum_list_addf)
  also have "sum_list (map (\<lambda>q. if q = f j then 1 else 0) qs) = (1::nat)"
    using Cons.prems by (simp add: sum_list_distinct_conv_sum_set)
  finally show ?case by simp
qed simp

definition status_count :: "db \<Rightarrow> status \<Rightarrow> nat" where
  "status_count d s = length (filter (\<lambda>j. status j = s) (jobs d))"

text \<open>
  C38: The overview accounts for every job. Built from the depths of a database, it has one
  row for each queue that has jobs; the total of a row is the number of jobs of the queue
  and the sum of the counts it shows, the totals add up to all jobs, and the tiles count
  the dead, running and succeeded ones.
\<close>

theorem overview_totals:
  assumes "QueueDepth e d = (Inr ds, d1)" and "ov = buildOverview ds recent attention parked"
  shows "set (map qv_name (ov_queues ov)) = queue ` set (jobs d) \<and> distinct (map qv_name (ov_queues ov))
    \<and> list_all (\<lambda>v. qv_total v = length (filter (\<lambda>j. queue j = qv_name v) (jobs d))
         \<and> sum_list (map sg_count (qv_counts v)) = qv_total v) (ov_queues ov)
    \<and> sum_list (map qv_total (ov_queues ov)) = length (jobs d)
    \<and> map sg_count (ov_tiles ov) = [status_count d StatusDeadLetter, status_count d StatusRunning, parked,
         status_count d StatusSucceeded]"
proof -
  have q: "ov_queues ov = map (queue_row ds) (queue_order ds)" by (simp add: assms(2) buildOverview_def Let_def)
  have names: "map qv_name (ov_queues ov) = queue_order ds" by (simp add: q queue_row_def Let_def comp_def)
  have "fst ` set ds = queue ` set (jobs d)"
    by (simp add: QueueDepth_InrD [OF assms(1)] queue_groups_def image_image)
  then have ord: "set (queue_order ds) = queue ` set (jobs d)" "distinct (queue_order ds)"
    using queue_order_set by simp_all
  have total: "qv_total (queue_row ds x) = length (filter (\<lambda>j. queue j = x) (jobs d))" for x
    using count_by_status [of "\<lambda>j. queue j = x" "jobs d"]
    by (simp add: queue_row_def Let_def by_queue_depth [OF assms(1)])
  have "list_all (\<lambda>v. qv_total v = length (filter (\<lambda>j. queue j = qv_name v) (jobs d))
         \<and> sum_list (map sg_count (qv_counts v)) = qv_total v) (ov_queues ov)"
    unfolding q list_all_iff using total by (auto simp: queue_row_def Let_def sum_segments)
  moreover have "sum_list (map qv_total (ov_queues ov)) = length (jobs d)"
    using sum_by_key [of queue "jobs d" "queue_order ds"] ord by (simp add: q comp_def total)
  moreover have "map sg_count (ov_tiles ov) = [status_count d StatusDeadLetter, status_count d StatusRunning, parked,
         status_count d StatusSucceeded]"
    by (simp add: assms(2) buildOverview_def Let_def status_segment_def status_count_def totals_depth [OF assms(1)]
        del: status_string.simps)
  ultimately show ?thesis using names ord by simp
qed

lemma overview_totals_witness:
  "\<exists>ds ov. fst (QueueDepth (plain_env 60 '''') keyed_db) = Inr ds \<and> ov = buildOverview ds [] [] 7
     \<and> sum_list (map qv_total (ov_queues ov)) = 2 \<and> length (ov_tiles ov) = 4"
proof -
  let ?e = "plain_env 60 ''''"
  have f: "\<not> isl (fst (QueueDepth ?e keyed_db))" "length (jobs keyed_db) = 2" by code_simp+
  obtain a d1 where q: "QueueDepth ?e keyed_db = (a, d1)" by fastforce
  with f obtain ds where q': "QueueDepth ?e keyed_db = (Inr ds, d1)" by (cases a) auto
  from overview_totals [OF q' refl, of "[]" "[]" 7] f q' show ?thesis
    by (simp add: buildOverview_def Let_def)
qed

section \<open>Paging links\<close>

text \<open>The parameters a browser sends when it follows a link of the page.\<close>

definition link_params :: "string \<Rightarrow> params" where
  "link_params u = ParseQuery (drop (length ''/ui/jobs?'') u)"

lemma older_url_params:
  assumes "older_url q js \<noteq> ''''"
  shows "map_of (link_params (older_url q js)) =
    map_of (filters q @ [(''before'', rfc3339_nano (created_at (last js))), (''before_id'', job_id (last js))])"
proof -
  let ?ps = "filters q @ [(''before'', rfc3339_nano (created_at (last js))), (''before_id'', job_id (last js))]"
  have "older_url q js = ''/ui/jobs?'' @ Encode ?ps" using assms by (simp add: older_url_def split: if_splits)
  then have "link_params (older_url q js) = ParseQuery (Encode ?ps)" by (simp add: link_params_def)
  moreover have "distinct (map fst ?ps)" by (simp add: filters_def comp_def)
  ultimately show ?thesis using ParseQuery_Encode_lookup by metis
qed

lemma filters_value: "k \<in> {''queue'', ''status'', ''type''} \<Longrightarrow> map_of (filters q) k =
    (if first_value q k = '''' then None else Some (first_value q k))"
  by (auto simp: filters_def)

lemma older_url_values:
  assumes "older_url q js \<noteq> ''''" and "p = link_params (older_url q js)"
  shows "first_value p ''queue'' = first_value q ''queue''" "first_value p ''status'' = first_value q ''status''"
    "first_value p ''type'' = first_value q ''type''" "first_value p ''before'' = rfc3339_nano (created_at (last js))"
    "first_value p ''before_id'' = job_id (last js)"
proof -
  note m = older_url_params [OF assms(1), folded assms(2)]
  have n: "map_of (filters q) ''before'' = None" "map_of (filters q) ''before_id'' = None"
    by (simp_all add: filters_def)
  show "first_value p ''queue'' = first_value q ''queue''" "first_value p ''status'' = first_value q ''status''"
    "first_value p ''type'' = first_value q ''type''" "first_value p ''before'' = rfc3339_nano (created_at (last js))"
    "first_value p ''before_id'' = job_id (last js)"
    unfolding first_value_def [of p] m by (simp_all add: map_add_def filters_value n)
qed

lemma rfc3339_nano_nonempty: "rfc3339_nano t \<noteq> ''''"
  by (simp add: rfc3339_nano_def)

definition dated :: "time \<Rightarrow> bool" where
  "dated t \<longleftrightarrow> t \<noteq> 0 \<and> 0 \<le> year_of (t div second div 86400) \<and> year_of (t div second div 86400) \<le> 9999"

lemma older_url_cursor:
  assumes "older_url q js \<noteq> ''''" and "dated (created_at (last js))"
  shows "parseCursor (link_params (older_url q js)) = Inr (created_at (last js), job_id (last js))"
  using older_url_values [OF assms(1) refl] rfc3339_nano_nonempty rfc3339_nano_read assms(2)
  by (simp add: parseCursor_def dated_def)

lemma uiJobs_page:
  assumes "uiJobs E q w = (Page 200 (PJobs tab pg), w1)"
  obtains bef bef_id d1 where "parseCursor q = Inr (bef, bef_id)"
    and "List_jobs (here (E (tick w))) (ui_list_options q bef bef_id) (run_ops (others (E (tick w))) (wdb w)) = (Inr (jp_jobs pg), d1)"
    and "jp_older pg = older_url q (jp_jobs pg)" "jp_queue pg = first_value q ''queue''"
    "jp_status pg = first_value q ''status''" "jp_type pg = first_value q ''type''"
    "tab = (if first_value q ''status'' = status_string StatusDeadLetter then ''dlq'' else ''jobs'')"
  using assms
  by (auto simp: uiJobs_def Let_def ui_try_def call_def uiStoreError_def split: if_splits sum.splits prod.splits
      simp del: status_string.simps)

text \<open>
  C39: Following the link to older jobs loses and repeats nothing. The page a link leads to
  has the same filters and tab, and lists exactly the jobs after those of the first page, as
  long as the table has not changed in between and its dates lie in the years a link can carry.
\<close>

theorem older_link_continues:
  assumes "uiJobs E q w = (Page 200 (PJobs tab pg), w1)" and "jp_older pg \<noteq> ''''"
    and "uiJobs E' (link_params (jp_older pg)) w' = (Page 200 (PJobs tab' pg'), w1')"
    and "met E' w' = met E w" and "tables_ok (met E w)"
    and "dated (created_at (last (jp_jobs pg)))" and "job_id (last (jp_jobs pg)) \<noteq> ''''"
  shows "\<exists>bef bef_id. parseCursor q = Inr (bef, bef_id)
    \<and> jp_jobs pg @ jp_jobs pg' = take 200 (listing (ui_list_options q bef bef_id) (met E w))
    \<and> (jp_queue pg', jp_status pg', jp_type pg', tab') = (jp_queue pg, jp_status pg, jp_type pg, tab)"
proof -
  from assms(1) obtain bef bef_id d1 where p: "parseCursor q = Inr (bef, bef_id)"
    and l: "List_jobs (here (E (tick w))) (ui_list_options q bef bef_id) (met E w) = (Inr (jp_jobs pg), d1)"
    and o: "jp_older pg = older_url q (jp_jobs pg)" "jp_queue pg = first_value q ''queue''"
      "jp_status pg = first_value q ''status''" "jp_type pg = first_value q ''type''"
      "tab = (if first_value q ''status'' = status_string StatusDeadLetter then ''dlq'' else ''jobs'')"
    by (auto elim: uiJobs_page simp: met_def simp del: status_string.simps)
  note ne = assms(2) [unfolded o(1)]
  let ?q = "link_params (older_url q (jp_jobs pg))" and ?j = "last (jp_jobs pg)"
  note v = older_url_values [OF ne refl]
  from assms(3) obtain d2 where
    l': "List_jobs (here (E' (tick w'))) (ui_list_options ?q (created_at ?j) (job_id ?j)) (met E w) = (Inr (jp_jobs pg'), d2)"
    and o': "jp_queue pg' = first_value ?q ''queue''" "jp_status pg' = first_value ?q ''status''"
      "jp_type pg' = first_value ?q ''type''"
      "tab' = (if first_value ?q ''status'' = status_string StatusDeadLetter then ''dlq'' else ''jobs'')"
    unfolding o(1) using older_url_cursor [OF ne assms(6)]
    by (auto elim: uiJobs_page simp: met_def assms(4) [unfolded met_def] simp del: status_string.simps)
  have opts: "ui_list_options ?q (created_at ?j) (job_id ?j) =
      (ui_list_options q bef bef_id)\<lparr>lo_before_at := created_at ?j, lo_before_id := job_id ?j\<rparr>"
    by (simp add: ui_list_options_def v)
  have len: "length (jp_jobs pg) = 100" using ne by (simp add: older_url_def uiJobsLimit_def split: if_splits)
  then have j: "jp_jobs pg \<noteq> []" by auto
  have "created_at ?j \<noteq> 0" using assms(6) by (simp add: dated_def)
  from list_paging [OF assms(5) l j this assms(7) opts l']
  have "jp_jobs pg @ jp_jobs pg' = take (length (jp_jobs pg) + nat (list_limit (ui_list_options q bef bef_id)))
      (listing (ui_list_options q bef bef_id) (met E w))" by blast
  moreover have "length (jp_jobs pg) + nat (list_limit (ui_list_options q bef bef_id)) = 200"
    by (simp add: len list_limit_def ui_list_options_def uiJobsLimit_def)
  ultimately show ?thesis using p o o' v by simp
qed

text \<open>A queue of 150 jobs of one instant, whose ids are the words of one letter.\<close>

definition many_jobs :: "job list" where
  "many_jobs = map (\<lambda>n. sample_job\<lparr>job_id := replicate (Suc n) (CHR ''a''), created_at := 63844847999 * second\<rparr>) [0..<150]"

definition many_world :: "unit world" where
  "many_world = \<lparr>wdb = empty_db\<lparr>jobs := many_jobs\<rparr>, tick = 1, outside = ()\<rparr>"

lemma many_met: "met quiet many_world = empty_db\<lparr>jobs := many_jobs\<rparr>" "tables_ok (empty_db\<lparr>jobs := many_jobs\<rparr>)"
proof -
  show "met quiet many_world = empty_db\<lparr>jobs := many_jobs\<rparr>" by (simp add: met_def quiet_def many_world_def)
  have "distinct (map job_id many_jobs)"
    by (simp add: many_jobs_def comp_def distinct_map inj_on_def)
  then show "tables_ok (empty_db\<lparr>jobs := many_jobs\<rparr>)"
    by (auto simp: tables_ok_def jobs_ok_def steps_ok_def signals_ok_def events_ok_def empty_db_def job_ids_def many_jobs_def
        sample_job_def creates_def)
qed

lemma many_listing:
  assumes "list_cursor (ui_list_options q b i) = None" "first_value q ''queue'' = ''''"
    "first_value q ''status'' = ''''" "first_value q ''type'' = ''''"
  shows "length (listing (ui_list_options q b i) (empty_db\<lparr>jobs := many_jobs\<rparr>)) = 150"
proof -
  have "list_selects (ui_list_options q b i) j" for j
    using assms by (simp add: list_selects_def list_matches_def ui_list_options_def)
  then show ?thesis by (simp add: listing_def many_jobs_def)
qed

lemma quiet_uiJobs:
  assumes "IsValidStatus (first_value q ''status'')" "parseCursor q = Inr (b, i)"
  shows "\<exists>tab w1. uiJobs quiet q many_world = (Page 200 (PJobs tab
     \<lparr>jp_jobs = take 100 (listing (ui_list_options q b i) (empty_db\<lparr>jobs := many_jobs\<rparr>)),
      jp_queue = first_value q ''queue'', jp_status = first_value q ''status'', jp_type = first_value q ''type'',
      jp_older = older_url q (take 100 (listing (ui_list_options q b i) (empty_db\<lparr>jobs := many_jobs\<rparr>))),
      jp_latest = latest_url q b\<rparr>), w1)"
  using assms
  by (simp add: uiJobs_def Let_def ui_try_def call_met many_met List_jobs_def env_at_def quiet_def list_limit_def
      ui_list_options_def uiJobsLimit_def del: status_string.simps)

lemma older_link_continues_witness:
  "\<exists>tab pg w1 tab' pg' w2. uiJobs quiet [] many_world = (Page 200 (PJobs tab pg), w1)
     \<and> uiJobs quiet (link_params (jp_older pg)) many_world = (Page 200 (PJobs tab' pg'), w2)
     \<and> length (jp_jobs pg) = 100 \<and> length (jp_jobs pg @ jp_jobs pg') = 150"
proof -
  let ?L = "listing (ui_list_options [] 0 '''') (empty_db\<lparr>jobs := many_jobs\<rparr>)"
  have l: "length ?L = 150" by (rule many_listing) (simp_all add: first_value_def list_cursor_def ui_list_options_def)
  have v: "IsValidStatus (first_value [] ''status'')" "parseCursor [] = Inr (0, '''')"
    by (simp_all add: first_value_def IsValidStatus_def parseCursor_def)
  obtain tab pg w1 where u: "uiJobs quiet [] many_world = (Page 200 (PJobs tab pg), w1)"
    and p: "jp_jobs pg = take 100 ?L" "jp_older pg = older_url [] (take 100 ?L)"
    using quiet_uiJobs [OF v] by (metis jobs_page.select_convs(1,5))
  let ?j = "last (take 100 ?L)"
  have "take 100 ?L \<noteq> []" using l by auto
  then have "?j \<in> set ?L" by (meson last_in_set in_set_takeD)
  then have "?j \<in> set many_jobs" using listing_set by auto
  then have j: "dated (created_at ?j)" "job_id ?j \<noteq> ''''"
  proof -
    assume "?j \<in> set many_jobs"
    moreover have "dated (63844847999 * second)" by code_simp
    ultimately show "dated (created_at ?j)" "job_id ?j \<noteq> ''''" by (auto simp: many_jobs_def)
  qed
  have ne: "jp_older pg \<noteq> ''''" using l p by (simp add: older_url_def uiJobsLimit_def)
  note vals = older_url_values [OF ne [unfolded p(2)] refl]
  have "IsValidStatus (first_value (link_params (jp_older pg)) ''status'')"
    unfolding p(2) vals by (rule v(1))
  moreover have "parseCursor (link_params (jp_older pg)) = Inr (created_at ?j, job_id ?j)"
    unfolding p(2) by (rule older_url_cursor [OF ne [unfolded p(2)] j(1)])
  ultimately obtain tab' pg' w2 where u': "uiJobs quiet (link_params (jp_older pg)) many_world = (Page 200 (PJobs tab' pg'), w2)"
    using quiet_uiJobs by blast
  have "jp_jobs pg @ jp_jobs pg' = take 200 ?L"
    using older_link_continues [OF u ne u' refl _ j [folded p(1)]] v(2) many_met by auto
  then have "length (jp_jobs pg @ jp_jobs pg') = 150" using l by simp
  moreover have "length (jp_jobs pg) = 100" using l p(1) by simp
  ultimately show ?thesis using u u' by blast
qed

section \<open>Sign-in attempts\<close>

text \<open>
  Sign-ins handled at once. A state is the limiter and how many guesses stand between the
  check that let them through and their count, at most \<open>k\<close>; the run lists the instants of
  the locked sections with what was answered there.
\<close>

inductive sign_ins ::
    "(string \<Rightarrow> string) \<Rightarrow> string \<Rightarrow> nat \<Rightarrow> limiter \<times> nat \<Rightarrow> (time \<times> reply option) list \<Rightarrow> bool" for sv token k where
  si_end: "sign_ins sv token k s []"
| si_answer: "uiLogin_enter sv token now r l = (Some rep, l1) \<Longrightarrow> sign_ins sv token k (l1, n) tr \<Longrightarrow>
    sign_ins sv token k (l, n) ((now, Some rep) # tr)"
| si_enter: "uiLogin_enter sv token now r l = (None, l1) \<Longrightarrow> n < k \<Longrightarrow> sign_ins sv token k (l1, Suc n) tr \<Longrightarrow>
    sign_ins sv token k (l, n) ((now, None) # tr)"
| si_miss: "uiLogin_miss now l = (rep, l1) \<Longrightarrow> sign_ins sv token k (l1, n) tr \<Longrightarrow>
    sign_ins sv token k (l, Suc n) ((now, Some rep) # tr)"

text \<open>A request handled alone is such a run.\<close>

lemma sign_in_alone:
  assumes "uiLogin sv token now r l = (rep, l1)" and "sign_ins sv token k (l1, 0) tr" and "0 < k"
  shows "sign_ins sv token k (l, 0) ((now, Some rep) # tr) \<or> sign_ins sv token k (l, 0) ((now, None) # (now, Some rep) # tr)"
proof (cases "uiLogin_enter sv token now r l")
  case (Pair a l2)
  then show ?thesis
    using assms by (cases a) (auto simp: uiLogin_def intro: si_answer si_enter si_miss)
qed

text \<open>An answer that tells the sender that its guess was wrong.\<close>

definition wrong_token :: "time \<times> reply option \<Rightarrow> bool" where
  "wrong_token x \<longleftrightarrow> (case snd x of Some (Page n _) \<Rightarrow> n = 401 | _ \<Rightarrow> False)"

lemma wrong_token_None [simp]: "\<not> wrong_token (now, None)"
  by (simp add: wrong_token_def)

text \<open>
  The guesses that can still be answered in the window of the limiter when \<open>n\<close> are under
  way: those under way once the limit is reached, and before that up to \<open>k\<close> that were let
  through when the last one was counted.
\<close>

definition guesses_left :: "nat \<Rightarrow> limiter \<Rightarrow> nat \<Rightarrow> nat" where
  "guesses_left k l n =
     (if loginFailureLimit \<le> lm_failures l then n else loginFailureLimit - lm_failures l + k - 1)"

lemma guesses_left_bound: "n \<le> k \<Longrightarrow> guesses_left k l n \<le> loginFailureLimit + k - 1"
  by (auto simp: guesses_left_def loginFailureLimit_def)

lemma roll_same: "now - lm_window l \<le> minute \<Longrightarrow> roll_window now l = l"
  by (simp add: roll_window_def loginFailureWindow_def)

lemma roll_window_cases:
  "roll_window now l = l \<or> lm_window (roll_window now l) = now \<and> lm_failures (roll_window now l) = 0"
  by (simp add: roll_window_def)

lemma enter_answer:
  "uiLogin_enter sv token now r l = (Some rep, l1) \<Longrightarrow> \<not> wrong_token (now, Some rep) \<and> (l1 = l \<or> l1 = roll_window now l)"
  by (auto simp: uiLogin_enter_def allow_def wrong_token_def Let_def split: sum.splits if_splits)

lemma enter_guess:
  "uiLogin_enter sv token now r l = (None, l1) \<Longrightarrow> l1 = roll_window now l \<and> lm_failures l1 < loginFailureLimit"
  by (auto simp: uiLogin_enter_def allow_def Let_def split: sum.splits if_splits)

lemma miss_counts:
  "uiLogin_miss now l = (rep, l1) \<Longrightarrow> wrong_token (now, Some rep) \<and>
    l1 = (roll_window now l)\<lparr>lm_failures := lm_failures (roll_window now l) + 1\<rparr>"
  by (auto simp: uiLogin_miss_def recordFailure_def wrong_token_def Let_def)

text \<open>Counting a guess in a window uses one of the guesses left; letting one in uses none.\<close>

lemma guesses_left_miss:
  "n < k \<Longrightarrow> guesses_left k (l\<lparr>lm_failures := lm_failures l + 1\<rparr>) n + 1 \<le> guesses_left k l (Suc n)"
  by (auto simp: guesses_left_def loginFailureLimit_def)

lemma guesses_left_enter:
  "lm_failures l < loginFailureLimit \<Longrightarrow> guesses_left k l (Suc n) = guesses_left k l n"
  by (simp add: guesses_left_def)

lemma wrong_in_window:
  assumes "sign_ins sv token k s tr" and "snd s \<le> k" and "list_all (\<lambda>(now, rep). now \<le> lm_window (fst s) + minute) tr"
  shows "length (filter wrong_token tr) \<le> guesses_left k (fst s) (snd s)"
  using assms
proof (induction rule: sign_ins.induct)
  case (si_answer now r l rep l1 n tr)
  then have "l1 = l" "\<not> wrong_token (now, Some rep)" using enter_answer [OF si_answer(1)] roll_same by auto
  then show ?case using si_answer by simp
next
  case (si_enter now r l l1 n tr)
  then have "l1 = l" "lm_failures l < loginFailureLimit" using enter_guess [OF si_enter(1)] roll_same by auto
  then show ?case using si_enter guesses_left_enter by simp
next
  case (si_miss now l rep l1 n tr)
  then have "l1 = l\<lparr>lm_failures := lm_failures l + 1\<rparr>" "wrong_token (now, Some rep)"
    using miss_counts [OF si_miss(1)] roll_same by auto
  then show ?case using si_miss guesses_left_miss [of n k l] by simp
qed simp

lemma minute_in_window:
  fixes t0 t :: int
  shows "list_all (\<lambda>(now, rep). t0 \<le> now \<and> now \<le> t0 + minute) tr \<Longrightarrow> t0 \<le> t \<Longrightarrow>
    list_all (\<lambda>(now, rep). now \<le> t + minute) tr"
  by (induction tr) auto

lemma wrong_in_minute:
  assumes "sign_ins sv token k s tr" and "snd s \<le> k" and "list_all (\<lambda>(now, rep). t0 \<le> now \<and> now \<le> t0 + minute) tr"
  shows "length (filter wrong_token tr) \<le> guesses_left k (fst s) (snd s) + (loginFailureLimit + k - 1)"
  using assms
proof (induction rule: sign_ins.induct)
  case (si_answer now r l rep l1 n tr)
  have nw: "\<not> wrong_token (now, Some rep)" using enter_answer [OF si_answer(1)] by simp
  consider "l1 = l" | "lm_window l1 = now"
    using enter_answer [OF si_answer(1)] roll_window_cases [of now l] by auto
  then show ?case
  proof cases
    case 2
    have "length (filter wrong_token tr) \<le> guesses_left k l1 n"
      using wrong_in_window [OF si_answer(2)] si_answer.prems 2 minute_in_window [of t0 tr now] by simp
    also have "\<dots> \<le> loginFailureLimit + k - 1" using guesses_left_bound si_answer.prems by simp
    finally show ?thesis using nw by simp
  qed (use si_answer nw in simp)
next
  case (si_enter now r l l1 n tr)
  have f: "lm_failures l1 < loginFailureLimit" by (rule conjunct2 [OF enter_guess [OF si_enter(1)]])
  consider "l1 = l" | "lm_window l1 = now"
    using enter_guess [OF si_enter(1)] roll_window_cases [of now l] by auto
  then show ?case
  proof cases
    case 1
    then show ?thesis using si_enter f guesses_left_enter [of l1 k n] by simp
  next
    case 2
    have "length (filter wrong_token tr) \<le> guesses_left k l1 (Suc n)"
      using wrong_in_window [OF si_enter(3)] si_enter.prems si_enter(2) 2 minute_in_window [of t0 tr now] by simp
    also have "\<dots> \<le> loginFailureLimit + k - 1" using guesses_left_bound si_enter(2) by simp
    finally show ?thesis by simp
  qed
next
  case (si_miss now l rep l1 n tr)
  note m = miss_counts [OF si_miss(1)]
  consider "roll_window now l = l" | "lm_window l1 = now" "lm_failures l1 = 1"
    using m roll_window_cases [of now l] by auto
  then show ?case
  proof cases
    case 1
    then show ?thesis using si_miss m guesses_left_miss [of n k l] by simp
  next
    case 2
    have "length (filter wrong_token tr) \<le> guesses_left k l1 n"
      using wrong_in_window [OF si_miss(2)] si_miss.prems 2 minute_in_window [of t0 tr now] by simp
    also have "\<dots> + 1 \<le> loginFailureLimit + k - 1"
      using 2(2) si_miss.prems(1) by (simp add: guesses_left_def loginFailureLimit_def)
    finally show ?thesis using m by simp
  qed
qed simp

text \<open>
  C35: The sign-in form is no fast oracle, as far as requests are not handled at once. The
  check and the count are two locked sections; when at most \<open>k\<close> guesses at a time are between
  them, then within one minute, whatever the limiter has seen before and however many
  sign-ins are tried, at most \<open>18 + 2k\<close> wrong guesses are answered as wrong: twenty when
  requests come one after the other, and no fixed number otherwise. Once a minute has passed
  since the limiter's window began, the right token gets its session.
\<close>

theorem login_rate:
  assumes "sign_ins sv token k (l', n) tr" and "n \<le> k"
    and "list_all (\<lambda>(now, rep). t0 \<le> now \<and> now \<le> t0 + minute) tr"
    and "minute < now - lm_window l" and "req_form r = Inr form" and "first_value form ''token'' = token"
  shows "length (filter wrong_token tr) \<le> 18 + 2 * k
    \<and> fst (uiLogin sv token now r l) =
        Redirect ''/ui'' (Some \<lparr>ck_value = sv token, ck_expired = False, ck_secure = requestIsSecure r\<rparr>)"
proof
  show "length (filter wrong_token tr) \<le> 18 + 2 * k"
    using wrong_in_minute [OF assms(1) _ assms(3)] guesses_left_bound [OF assms(2), of l'] assms(2)
    by (simp add: loginFailureLimit_def)
  show "fst (uiLogin sv token now r l) =
        Redirect ''/ui'' (Some \<lparr>ck_value = sv token, ck_expired = False, ck_secure = requestIsSecure r\<rparr>)"
    using assms(4-6)
    by (simp add: uiLogin_def uiLogin_enter_def allow_def Let_def roll_window_def loginFailureWindow_def
        loginFailureLimit_def)
qed

definition guess :: "string \<Rightarrow> request" where
  "guess t = \<lparr>req_method = ''POST'', req_path = ''/ui/login'', req_host = ''h'', req_headers = [], req_cookies = [],
     req_query = [], req_form = Inr [(''token'', t)], req_body = '''', req_tls = True\<rparr>"

text \<open>Two wrong guesses at once, and the right one.\<close>

lemma login_rate_witness:
  "\<exists>tr. sign_ins (\<lambda>t. t) ''s'' 2 (zero_limiter, 0) tr \<and> length (filter wrong_token tr) = 2
     \<and> length (filter wrong_token tr) \<le> 22
     \<and> fst (uiLogin (\<lambda>t. t) ''s'' (90 * second) (guess ''s'') zero_limiter) =
         Redirect ''/ui'' (Some \<lparr>ck_value = ''s'', ck_expired = False, ck_secure = True\<rparr>)"
proof -
  define now :: int where "now = 90 * second"
  define rep where "rep = fst (uiLogin_miss now zero_limiter)"
  define l0 where "l0 = \<lparr>lm_failures = 0, lm_window = now\<rparr>"
  have e: "uiLogin_enter (\<lambda>t. t) ''s'' now (guess ''x'') zero_limiter = (None, l0)"
    "uiLogin_enter (\<lambda>t. t) ''s'' now (guess ''x'') l0 = (None, l0)"
    unfolding now_def l0_def by code_simp+
  have m: "uiLogin_miss now l = (rep, recordFailure now l)" for l by (simp add: uiLogin_miss_def rep_def)
  let ?tr = "[(now, None), (now, None), (now, Some rep), (now, Some rep)]"
  have run: "sign_ins (\<lambda>t. t) ''s'' 2 (zero_limiter, 0) ?tr"
    by (intro si_enter [OF e(1)] si_enter [OF e(2)] si_miss [OF m] si_end) simp_all
  have a: "list_all (\<lambda>(t, rep). now \<le> t \<and> t \<le> now + minute) ?tr" by simp
  have w: "minute < 90 * second - lm_window zero_limiter" by code_simp
  have f: "req_form (guess ''s'') = Inr [(''token'', ''s'')]" "first_value [(''token'', ''s'')] ''token'' = ''s''"
    by (simp_all add: guess_def first_value_def)
  have s: "requestIsSecure (guess ''s'')" by (simp add: requestIsSecure_def guess_def)
  have "length (filter wrong_token ?tr) = 2" by (simp add: wrong_token_def rep_def uiLogin_miss_def)
  with run login_rate [OF run _ a w f] s show ?thesis by (intro exI [where x = ?tr]) simp
qed

text \<open>
  The check and the count of a failure are two locked sections. An event is one of them, of
  any of the requests being handled at once.
\<close>

datatype limit_event = Check | Miss

fun limit_run :: "(time \<times> limit_event) list \<Rightarrow> limiter \<Rightarrow> bool list" where
  "limit_run [] l = []"
| "limit_run ((now, Check) # es) l = (case allow now l of (ok, l1) \<Rightarrow> ok # limit_run es l1)"
| "limit_run ((now, Miss) # es) l = limit_run es (recordFailure now l)"

text \<open>
  The limit does not hold for requests handled at once. However many sign-ins check the
  limiter before the first of them has been found wrong, all of them are let through.
\<close>

lemma login_burst:
  assumes "fst (allow now l)"
  shows "limit_run (replicate n (now, Check) @ replicate n (now, Miss)) l = replicate n True"
proof -
  obtain l1 where a: "allow now l = (True, l1)" using assms by (cases "allow now l") auto
  have w: "allow now l1 = (True, l1)"
    using a by (auto simp: allow_def Let_def roll_window_def loginFailureWindow_def split: if_splits)
  have m: "limit_run (replicate k (now, Miss)) l' = []" for k l'
    by (induction k arbitrary: l') simp_all
  have "limit_run (replicate k (now, Check) @ replicate n (now, Miss)) l1 = replicate k True" for k
    by (induction k) (simp_all add: w m)
  then show ?thesis using a m by (cases n) simp_all
qed

lemma login_burst_witness:
  "limit_run (replicate 500 (90 * second, Check) @ replicate 500 (90 * second, Miss)) zero_limiter = replicate 500 True"
  by (rule login_burst) code_simp

section \<open>The page of a job\<close>

text \<open>
  The path of a run is told in order and in full. Its beats are sorted by time; those of
  one instant keep the order start, steps, signals, children, events; nothing is added or
  left out; and it begins with the start of the run when nothing precedes the job's creation.
\<close>

lemma timeline_ordered:
  assumes "list_all (\<lambda>x. created_at j \<le> tl_at x)
      (map step_entry steps @ map signal_entry signals @ map child_entry children @ concat (map event_entry evs))"
  shows "sorted (map tl_at (buildTimeline j steps signals children evs))
    \<and> filter (\<lambda>x. tl_at x = t) (buildTimeline j steps signals children evs) =
        filter (\<lambda>x. tl_at x = t) ([start_entry j] @ map step_entry steps @ map signal_entry signals
          @ map child_entry children @ concat (map event_entry evs))
    \<and> hd (buildTimeline j steps signals children evs) = start_entry j"
proof -
  let ?xs = "map step_entry steps @ map signal_entry signals @ map child_entry children @ concat (map event_entry evs)"
  have "insort_key tl_at (start_entry j) (sort_key tl_at ?xs) = start_entry j # sort_key tl_at ?xs"
  proof (rule insort_is_Cons)
    show "\<forall>x\<in>set (sort_key tl_at ?xs). tl_at (start_entry j) \<le> tl_at x"
      using assms by (auto simp: list_all_iff start_entry_def beat_def)
  qed
  then have "buildTimeline j steps signals children evs = start_entry j # sort_key tl_at ?xs"
    by (simp add: buildTimeline_def)
  then have "hd (buildTimeline j steps signals children evs) = start_entry j" by simp
  moreover have "sorted (map tl_at (buildTimeline j steps signals children evs))"
    unfolding buildTimeline_def by (rule sorted_sort_key)
  moreover have "filter (\<lambda>x. tl_at x = t) (buildTimeline j steps signals children evs) =
      filter (\<lambda>x. tl_at x = t) ([start_entry j] @ ?xs)"
    unfolding buildTimeline_def by (rule sort_key_stable)
  ultimately show ?thesis by blast
qed

definition sample_events :: "event list" where
  "sample_events = [\<lparr>ev_id = 1, ev_job = ''j1'', ev_type = ''job.claimed'', ev_details = Fields [], ev_at = 20\<rparr>,
     \<lparr>ev_id = 2, ev_job = ''j1'', ev_type = ''job.failed'', ev_details = RawDetails
        (dq ''{'error': 'boom', 'permanent': true}''), ev_at = 30\<rparr>]"

lemma timeline_ordered_witness:
  "map tl_title (buildTimeline sample_job [\<lparr>st_job = ''j1'', st_name = ''a'', st_result = ''1'', st_at = 30\<rparr>] [] [] sample_events)
     = [''Run started'', ''Step a'', ''Attempt failed'']
   \<and> hd (buildTimeline sample_job [\<lparr>st_job = ''j1'', st_name = ''a'', st_result = ''1'', st_at = 30\<rparr>] [] [] sample_events)
     = start_entry sample_job"
proof -
  let ?s = "[\<lparr>st_job = ''j1'', st_name = ''a'', st_result = ''1'', st_at = 30\<rparr>]"
  have a: "list_all (\<lambda>x. created_at sample_job \<le> tl_at x) (map step_entry ?s @ map signal_entry []
      @ map child_entry [] @ concat (map event_entry sample_events))" by code_simp
  have "map tl_title (buildTimeline sample_job ?s [] [] sample_events) = [''Run started'', ''Step a'', ''Attempt failed'']"
    by code_simp
  then show ?thesis using timeline_ordered [OF a] by blast
qed

text \<open>The mark of a parked job and the gauge of parked jobs follow one rule.\<close>

lemma parked_agree:
  assumes "ParkedCount e d = (Inr n, d1)"
  shows "n = length (filter (isParked (pg_now e)) (jobs d))"
proof -
  have "isParked (pg_now e) j \<longleftrightarrow> status j \<in> {StatusQueued, StatusRetrying} \<and> pg_now e < run_after j" for j
    by (cases "status j") (simp_all add: isParked_def)
  then have "isParked (pg_now e) = (\<lambda>j. status j \<in> {StatusQueued, StatusRetrying} \<and> pg_now e < run_after j)" by blast
  then show ?thesis using assms by (auto simp: ParkedCount_def dest!: withTx_InrD)
qed

text \<open>
  The buttons of a job page are honest. If nothing happens to the job between the page
  and the click and the database answers, a shown Cancel ends the job and a shown Retry
  queues it with a fresh budget, while a click on a button that is not shown is answered
  as a conflict and changes nothing.
\<close>

lemma buttons_honest:
  assumes "tables_ok d" and "lookup_job d i = Some j" and "link e 0 = Acked" and "link e 1 = Acked"
    and "status j \<noteq> StatusFailed" and "pg = job_data j evs steps signals children"
  shows "(if jd_can_cancel pg then \<exists>d1. Cancel e i d = (Inr (), d1) \<and> lookup_job d1 i = Some (cancel_row e j)
      else Cancel e i d = (Inl (Sentinel ErrInvalidTransition), d))
    \<and> (if jd_can_retry pg then \<exists>d1. RetryDeadLetter e i d = (Inr (retry_row e j), d1) \<and> lookup_job d1 i = Some (retry_row e j)
      else RetryDeadLetter e i d = (Inl (Sentinel ErrInvalidTransition), d))
    \<and> \<not> (jd_can_cancel pg \<and> jd_can_retry pg)
    \<and> uiStoreError (Sentinel ErrInvalidTransition) =
        Page 409 (PError ''The job changed state underneath this action. Go back and refresh.'')"
proof -
  have b: "jd_can_cancel pg \<longleftrightarrow> status j \<notin> {StatusSucceeded, StatusDeadLetter, StatusCanceled}"
    "jd_can_retry pg \<longleftrightarrow> status j = StatusDeadLetter"
    using assms(5) by (cases "status j"; simp add: assms(6) job_data_def)+
  have "uiStoreError (Sentinel ErrInvalidTransition) =
      Page 409 (PError ''The job changed state underneath this action. Go back and refresh.'')"
    by (simp add: uiStoreError_def)
  then show ?thesis using operator_operations [OF assms(1-4)] unfolding b by (auto split: if_splits)
qed

lemma buttons_honest_witness:
  "jd_can_cancel (job_data sample_job [] [] [] []) \<and> (\<exists>d1. Cancel (plain_env 50 '''') ''j1'' sample_db = (Inr (), d1)
     \<and> lookup_job d1 ''j1'' = Some (cancel_row (plain_env 50 '''') sample_job))"
proof -
  have "jd_can_cancel (job_data sample_job [] [] [] [])" "status sample_job \<noteq> StatusFailed"
    by (simp_all add: job_data_def sample_job_def)
  then show ?thesis
    using buttons_honest [OF sample_tables_ok sample_lookup _ _ _ refl, of "plain_env 50 ''''" "[]" "[]" "[]" "[]"] by simp
qed

end

