(* ===== verification/Serving.thy ===== *)
theory Serving
  imports Dashfacts
begin

text \<open>
  The whole HTTP server of \<open>internal/api/server.go\<close>: the table of routes, the dispatch of a
  request to its handler, and authentication in front of it. Paths are in the clean form the
  multiplexer redirects to, and identifiers are unescaped. The \<open>/metrics\<close> page of the
  Prometheus library is an argument.
\<close>

section \<open>Routes\<close>

datatype handler =
    HEnqueue | HList | HDeadLetters | HInspect string | HCancel string | HReplay string | HRetry string
  | HSignal string | HListSignals string | HMetrics | HHealthz | HRoot
  | HUiOverview | HUiJobs | HUiJob string | HUiRetry string | HUiCancel string | HUiReplay string
  | HUiSignal string | HUiLoginForm | HUiLogin | HUiLogout

text \<open>A wildcard matches one segment that is not empty.\<close>

definition get_route :: "string list \<Rightarrow> handler option" where
  "get_route segs =
     (case segs of
        [a] \<Rightarrow>
          if a = '''' then Some HRoot
          else if a = ''jobs'' then Some HList
          else if a = ''dlq'' then Some HDeadLetters
          else if a = ''metrics'' then Some HMetrics
          else if a = ''healthz'' then Some HHealthz
          else if a = ''ui'' then Some HUiOverview
          else None
      | [a, b] \<Rightarrow>
          if a = ''jobs'' \<and> b \<noteq> '''' then Some (HInspect b)
          else if a = ''ui'' \<and> b = ''jobs'' then Some HUiJobs
          else if a = ''ui'' \<and> b = ''login'' then Some HUiLoginForm
          else None
      | [a, b, c] \<Rightarrow>
          if a = ''jobs'' \<and> b \<noteq> '''' \<and> c = ''signals'' then Some (HListSignals b)
          else if a = ''ui'' \<and> b = ''jobs'' \<and> c \<noteq> '''' then Some (HUiJob c)
          else None
      | _ \<Rightarrow> None)"

definition post_route :: "string list \<Rightarrow> handler option" where
  "post_route segs =
     (case segs of
        [a] \<Rightarrow> if a = ''jobs'' then Some HEnqueue else None
      | [a, b] \<Rightarrow>
          if a = ''ui'' \<and> b = ''login'' then Some HUiLogin
          else if a = ''ui'' \<and> b = ''logout'' then Some HUiLogout
          else None
      | [a, b, c] \<Rightarrow>
          if a = ''jobs'' \<and> b \<noteq> '''' then
            (if c = ''cancel'' then Some (HCancel b)
             else if c = ''replay'' then Some (HReplay b)
             else if c = ''retry'' then Some (HRetry b)
             else if c = ''signals'' then Some (HSignal b)
             else None)
          else None
      | [a, b, c, x] \<Rightarrow>
          if a = ''ui'' \<and> b = ''jobs'' \<and> c \<noteq> '''' then
            (if x = ''retry'' then Some (HUiRetry c)
             else if x = ''cancel'' then Some (HUiCancel c)
             else if x = ''replay'' then Some (HUiReplay c)
             else if x = ''signal'' then Some (HUiSignal c)
             else None)
          else None
      | _ \<Rightarrow> None)"

text \<open>A GET pattern also serves HEAD.\<close>

definition route :: "string \<Rightarrow> string \<Rightarrow> handler option" where
  "route meth path =
     (let segs = tl (Split_at (CHR ''/'') path)
      in if meth \<in> {''GET'', ''HEAD''} then get_route segs
         else if meth = ''POST'' then post_route segs
         else None)"

definition unrouted :: "string \<Rightarrow> reply" where
  "unrouted path =
     (let segs = tl (Split_at (CHR ''/'') path)
      in if get_route segs = None \<and> post_route segs = None then Plain 404 ''404 page not found''
         else Plain 405 ''Method Not Allowed'')"

section \<open>The server\<close>

record site =
  sv_token :: string
  sv_session :: "string \<Rightarrow> string"
  sv_url_host :: "string \<Rightarrow> string option"
  sv_metrics :: string

text \<open>The state of the server: the store with everything around it, and the sign-in limiter.\<close>

type_synonym 'x service = "'x world \<times> limiter"

definition json_reply :: "limiter \<Rightarrow> response \<times> 'x world \<Rightarrow> reply \<times> 'x service" where
  "json_reply l r = (case r of (resp, w) \<Rightarrow> (Json resp, w, l))"

definition page_reply :: "limiter \<Rightarrow> reply \<times> 'x world \<Rightarrow> reply \<times> 'x service" where
  "page_reply l r = (case r of (rep, w) \<Rightarrow> (rep, w, l))"

fun handle ::
    "site \<Rightarrow> (nat \<Rightarrow> call_env) \<Rightarrow> time \<Rightarrow> request \<Rightarrow> handler \<Rightarrow> 'x service \<Rightarrow> reply \<times> 'x service" where
  "handle S E now r HEnqueue (w, l) = json_reply l (api_enqueue E r w)"
| "handle S E now r HList (w, l) = json_reply l (api_list E r w)"
| "handle S E now r HDeadLetters (w, l) = json_reply l (api_deadLetters E r w)"
| "handle S E now r (HInspect i) (w, l) = json_reply l (api_inspect E i w)"
| "handle S E now r (HCancel i) (w, l) = json_reply l (api_cancel E i w)"
| "handle S E now r (HReplay i) (w, l) = json_reply l (api_replay E i w)"
| "handle S E now r (HRetry i) (w, l) = json_reply l (api_retry E i w)"
| "handle S E now r (HSignal i) (w, l) = json_reply l (api_signal E r i w)"
| "handle S E now r (HListSignals i) (w, l) = json_reply l (api_listSignals E i w)"
| "handle S E now r HMetrics (w, l) = (Plain 200 (sv_metrics S), w, l)"
| "handle S E now r HHealthz (w, l) = (Json (200, AStatus ''ok''), w, l)"
| "handle S E now r HRoot (w, l) = (Redirect ''/ui'' None, w, l)"
| "handle S E now r HUiOverview (w, l) = page_reply l (uiOverview E w)"
| "handle S E now r HUiJobs (w, l) = page_reply l (uiJobs E (req_query r) w)"
| "handle S E now r (HUiJob i) (w, l) = page_reply l (uiJob E i w)"
| "handle S E now r (HUiRetry i) (w, l) = page_reply l (uiRetry E i w)"
| "handle S E now r (HUiCancel i) (w, l) = page_reply l (uiCancel E i w)"
| "handle S E now r (HUiReplay i) (w, l) = page_reply l (uiReplay E i w)"
| "handle S E now r (HUiSignal i) (w, l) = page_reply l (uiSignal E r i w)"
| "handle S E now r HUiLoginForm (w, l) = (uiLoginForm (sv_token S), w, l)"
| "handle S E now r HUiLogin (w, l) =
     (case uiLogin (sv_session S) (sv_token S) now r l of (rep, l1) \<Rightarrow> (rep, w, l1))"
| "handle S E now r HUiLogout (w, l) = (uiLogout r, w, l)"

definition dispatch ::
    "site \<Rightarrow> (nat \<Rightarrow> call_env) \<Rightarrow> time \<Rightarrow> request \<Rightarrow> 'x service \<Rightarrow> reply \<times> 'x service" where
  "dispatch S E now r st =
     (case route (req_method r) (req_path r) of
        None \<Rightarrow> (unrouted (req_path r), st)
      | Some h \<Rightarrow> handle S E now r h st)"

definition serve ::
    "site \<Rightarrow> (nat \<Rightarrow> call_env) \<Rightarrow> time \<Rightarrow> request \<Rightarrow> 'x service \<Rightarrow> reply \<times> 'x service" where
  "serve S E now r st =
     (case auth (sv_url_host S) (sv_session S) (sv_token S) r of
        Next \<Rightarrow> dispatch S E now r st
      | Forbidden \<Rightarrow> (Json (writeError 403 (New ''cross-origin request rejected'')), st)
      | RedirectToLogin \<Rightarrow> (Redirect ''/ui/login'' None, st)
      | Unauthorized \<Rightarrow> (Json (writeError 401 (New ''missing or invalid bearer token'')), st))"

section \<open>Authentication\<close>

text \<open>The credentials, stated without the code's parsing.\<close>

definition bearer :: "string \<Rightarrow> request \<Rightarrow> bool" where
  "bearer token r \<longleftrightarrow>
     (let v = first_value (req_headers r) ''Authorization''
      in ToLower (take 7 v) = ''bearer '' \<and> drop 7 v = token)"

definition ui_path :: "string \<Rightarrow> bool" where
  "ui_path p \<longleftrightarrow> p = ''/'' \<or> p = ''/ui'' \<or> (\<exists>x. p = ''/ui/'' @ x)"

definition open_path :: "string \<Rightarrow> bool" where
  "open_path p \<longleftrightarrow> p = ''/healthz'' \<or> p = ''/ui/login''"

definition foreign :: "site \<Rightarrow> request \<Rightarrow> bool" where
  "foreign S r \<longleftrightarrow> \<not> sameOrigin (sv_url_host S) r"

definition entitled :: "site \<Rightarrow> request \<Rightarrow> bool" where
  "entitled S r \<longleftrightarrow>
     (if sv_token S = '''' \<or> open_path (req_path r) then True
      else if ui_path (req_path r) then hasSession (sv_session S) (sv_token S) r
      else bearer (sv_token S) r)"

lemma has_prefix_iff: "has_prefix p s \<longleftrightarrow> (\<exists>x. s = p @ x)"
  unfolding has_prefix_def by (metis append_eq_conv_conj)

lemma ToLower_append: "ToLower (s @ t) = ToLower s @ ToLower t"
  by (simp add: ToLower_def)

lemma space_char_code: "CHR '' '' = char_of (32 :: int)"
  by code_simp

lemma lower_bearer: "ToLower ''Bearer'' = ''bearer''"
  by code_simp

lemma space_code: "c = CHR '' '' \<longleftrightarrow> of_char c = (32 :: int)"
proof
  assume "of_char c = (32 :: int)"
  then have "c = char_of (32 :: int)" using char_of_of_char_int [of c] by simp
  then show "c = CHR '' ''" unfolding space_char_code by simp
qed simp

lemma lower_space: "lower_char c = CHR '' '' \<longleftrightarrow> c = CHR '' ''"
  using of_char_range [of c] by (auto simp: space_code lower_char_def)

lemma Cut_spec:
  "Cut c s = (a, b, True) \<longleftrightarrow> s = a @ c # b \<and> c \<notin> set a"
proof
  assume h: "Cut c s = (a, b, True)"
  then have c: "c \<in> set s" and a: "a = takeWhile (\<lambda>x. x \<noteq> c) s" and b: "b = tl (dropWhile (\<lambda>x. x \<noteq> c) s)"
    by (simp_all add: Cut_def split: if_splits)
  have ne: "dropWhile (\<lambda>x. x \<noteq> c) s \<noteq> []" using c by (simp add: dropWhile_eq_Nil_conv)
  have "hd (dropWhile (\<lambda>x. x \<noteq> c) s) = c" using hd_dropWhile [OF ne] by blast
  then have "dropWhile (\<lambda>x. x \<noteq> c) s = c # b" unfolding b using list.collapse [OF ne] by simp
  then have "s = a @ c # b" unfolding a using takeWhile_dropWhile_id [of "\<lambda>x. x \<noteq> c" s] by simp
  moreover have "c \<notin> set a" unfolding a by (auto dest: set_takeWhileD)
  ultimately show "s = a @ c # b \<and> c \<notin> set a" by blast
qed (use Cut_first in blast)

lemma bearer_parsed:
  "(case Cut (CHR '' '') v of (scheme, tok, ok) \<Rightarrow> ok \<and> EqualFold scheme ''Bearer'' \<and> tok = token)
   \<longleftrightarrow> ToLower (take 7 v) = ''bearer '' \<and> drop 7 v = token"
proof
  assume h: "case Cut (CHR '' '') v of (scheme, tok, ok) \<Rightarrow> ok \<and> EqualFold scheme ''Bearer'' \<and> tok = token"
  then obtain scheme where c: "Cut (CHR '' '') v = (scheme, token, True)" and e: "EqualFold scheme ''Bearer''"
    by (auto split: prod.splits)
  have v: "v = scheme @ CHR '' '' # token" using c unfolding Cut_spec by blast
  have low: "ToLower scheme = ''bearer''" using e by (simp only: EqualFold_def lower_bearer)
  have "length scheme = length (ToLower scheme)" by (simp add: ToLower_def)
  then have "length scheme = 6" by (simp add: low)
  then show "ToLower (take 7 v) = ''bearer '' \<and> drop 7 v = token"
    using low by (simp add: v ToLower_append) (simp add: ToLower_def lower_char_def)
next
  assume h: "ToLower (take 7 v) = ''bearer '' \<and> drop 7 v = token"
  then have "map lower_char (take 7 v) = ''bearer'' @ [CHR '' '']" by (simp add: ToLower_def)
  then obtain s x where t: "take 7 v = s @ [x]" "map lower_char s = ''bearer''" "lower_char x = CHR '' ''"
    by (auto simp: map_eq_append_conv simp del: append_Cons)
  have "CHR '' '' \<notin> set s"
  proof
    assume "CHR '' '' \<in> set s"
    then have "lower_char (CHR '' '') \<in> set (map lower_char s)" by simp
    then show False unfolding t(2) by (simp add: lower_char_def)
  qed
  moreover have "v = s @ CHR '' '' # token"
    using h t lower_space append_take_drop_id [of 7 v] by simp
  ultimately have "Cut (CHR '' '') v = (s, token, True)" by (simp add: Cut_spec)
  moreover have "EqualFold s ''Bearer''" unfolding EqualFold_def lower_bearer using t(2) by (simp only: ToLower_def)
  ultimately show "case Cut (CHR '' '') v of (scheme, tok, ok) \<Rightarrow> ok \<and> EqualFold scheme ''Bearer'' \<and> tok = token"
    by simp
qed

text \<open>How a request is answered, whatever it asks for.\<close>

lemma serve_gate:
  "serve S E now r st =
    (if req_method r = ''POST'' \<and> (\<exists>x. req_path r = ''/ui'' @ x) \<and> foreign S r
     then (Json (403, AError ''cross-origin request rejected''), st)
     else if entitled S r then dispatch S E now r st
     else if ui_path (req_path r) then (Redirect ''/ui/login'' None, st)
     else (Json (401, AError ''missing or invalid bearer token''), st))"
proof -
  have t: "TrimSpace ''cross-origin request rejected'' = ''cross-origin request rejected''"
    "TrimSpace ''missing or invalid bearer token'' = ''missing or invalid bearer token''" by code_simp+
  obtain scheme tok ok where c: "Cut (CHR '' '') (first_value (req_headers r) ''Authorization'') = (scheme, tok, ok)"
    by (cases "Cut (CHR '' '') (first_value (req_headers r) ''Authorization'')")
  have b: "bearer (sv_token S) r \<longleftrightarrow> ok \<and> EqualFold scheme ''Bearer'' \<and> tok = sv_token S"
    using bearer_parsed [where v = "first_value (req_headers r) ''Authorization''" and token = "sv_token S"]
    unfolding bearer_def Let_def c by simp
  have u: "ui_path (req_path r) \<longleftrightarrow> req_path r = ''/'' \<or> req_path r = ''/ui'' \<or> has_prefix ''/ui/'' (req_path r)"
    unfolding ui_path_def has_prefix_iff by blast
  define post where "post \<longleftrightarrow> req_method r = ''POST''"
  define ui where "ui \<longleftrightarrow> has_prefix ''/ui'' (req_path r)"
  define exempt where "exempt \<longleftrightarrow> req_path r = ''/healthz'' \<or> req_path r = ''/ui/login''"
  define page where "page \<longleftrightarrow> req_path r = ''/'' \<or> req_path r = ''/ui'' \<or> has_prefix ''/ui/'' (req_path r)"
  have e: "writeError 403 (New ''cross-origin request rejected'') = (403, AError ''cross-origin request rejected'')"
    "writeError 401 (New ''missing or invalid bearer token'') = (401, AError ''missing or invalid bearer token'')"
    by (simp_all only: writeError_def err_string.simps t)
  show ?thesis
    unfolding serve_def auth_def c prod.case foreign_def entitled_def open_path_def u b has_prefix_iff [symmetric]
      post_def [symmetric] ui_def [symmetric] exempt_def [symmetric] page_def [symmetric] e
    by (cases post; cases ui; cases exempt; cases page) auto
qed

text \<open>
  C33: Nothing behind the door is reached without a key. A request that is not entitled
  (no session cookie on a dashboard path, no bearer token elsewhere) or that posts to the
  dashboard from another origin is answered with a refusal before any handler runs, so
  neither the store nor the limiter is touched; every other request reaches its handler.
\<close>

theorem auth_gate:
  "serve S E now r st =
    (if req_method r = ''POST'' \<and> (\<exists>x. req_path r = ''/ui'' @ x) \<and> foreign S r
     then (Json (403, AError ''cross-origin request rejected''), st)
     else if entitled S r then dispatch S E now r st
     else if ui_path (req_path r) then (Redirect ''/ui/login'' None, st)
     else (Json (401, AError ''missing or invalid bearer token''), st))"
  by (rule serve_gate)

section \<open>Requests of other sites\<close>

text \<open>A program that leaves the database as it found it, when nobody else acts on it.\<close>

definition alone :: "(nat \<Rightarrow> call_env) \<Rightarrow> bool" where
  "alone E \<longleftrightarrow> (\<forall>n. others (E n) = [])"

definition keeps :: "('x world \<Rightarrow> 'r \<times> 'x world) \<Rightarrow> bool" where
  "keeps f \<longleftrightarrow> (\<forall>w. wdb (snd (f w)) = wdb w)"

lemma keeps_call: "alone E \<Longrightarrow> (\<And>e d. snd (f e d) = d) \<Longrightarrow> keeps (call E f)"
  by (simp add: keeps_def alone_def call_met met_def)

lemma keeps_reads:
  assumes "alone E"
  shows "keeps (call E (\<lambda>e. Get e i))" "keeps (call E (\<lambda>e. List_jobs e opts))" "keeps (call E QueueDepth)"
    "keeps (call E ParkedCount)" "keeps (call E (\<lambda>e. ListSteps e i))" "keeps (call E (\<lambda>e. ListSignals e i))"
  by (rule keeps_call [OF assms], simp add: reads_pure)+

lemma wdb_case:
  "wdb (snd r) = d \<Longrightarrow> (\<And>err w. wdb w = d \<Longrightarrow> wdb (snd (f err w)) = d) \<Longrightarrow> (\<And>x w. wdb w = d \<Longrightarrow> wdb (snd (g x w)) = d) \<Longrightarrow>
   wdb (snd (case r of (Inl err, w) \<Rightarrow> f err w | (Inr x, w) \<Rightarrow> g x w)) = d"
  by (cases r; cases "fst r") auto

lemma wdb_ui_try:
  "wdb (snd r) = d \<Longrightarrow> (\<And>x w. wdb w = d \<Longrightarrow> wdb (snd (k x w)) = d) \<Longrightarrow> wdb (snd (ui_try r k)) = d"
  unfolding ui_try_def by (rule wdb_case) simp_all

lemma wdb_plain_try:
  "wdb (snd r) = d \<Longrightarrow> (\<And>x w. wdb w = d \<Longrightarrow> wdb (snd (k x w)) = d) \<Longrightarrow> wdb (snd (plain_try r k)) = d"
  unfolding plain_try_def by (rule wdb_case) simp_all

lemma keepsD: "keeps f \<Longrightarrow> wdb w = d \<Longrightarrow> wdb (snd (f w)) = d"
  by (simp add: keeps_def)

lemma wdb_listed: "wdb (snd r) = d \<Longrightarrow> wdb (snd (listed r)) = d"
  unfolding listed_def by (rule wdb_case) simp_all

lemma wdb_with_parent: "alone E \<Longrightarrow> wdb w = d \<Longrightarrow> wdb (snd (with_parent E data w)) = d"
  unfolding with_parent_def
  by (auto split: option.split intro!: wdb_case keeps_reads [THEN keepsD])

lemma keeps_pages:
  assumes "alone E"
  shows "keeps (uiOverview E)" "keeps (uiJobs E q)" "keeps (uiJob E i)"
    "keeps (api_list E r)" "keeps (api_deadLetters E r)" "keeps (api_inspect E i)" "keeps (api_listSignals E i)"
proof -
  note k = keeps_reads [OF assms, THEN keepsD]
  show "keeps (uiOverview E)" unfolding keeps_def uiOverview_def
    by (intro allI wdb_plain_try k) simp_all
  show "keeps (uiJobs E q)" unfolding keeps_def uiJobs_def Let_def
    by (auto split: sum.split intro!: wdb_ui_try k)
  note p = wdb_with_parent [OF assms]
  show "keeps (uiJob E i)" unfolding keeps_def uiJob_def
    by (auto split: prod.split intro!: wdb_ui_try k p)
  show "keeps (api_list E r)" unfolding keeps_def api_list_def Let_def
    by (auto split: sum.split intro!: wdb_listed k)
  show "keeps (api_deadLetters E r)" unfolding keeps_def api_deadLetters_def Let_def
    by (auto intro!: wdb_listed k)
  have g: "call E (\<lambda>e. Get e i) w = (x, w1) \<Longrightarrow> wdb w1 = wdb w" for w x w1
    using k(1) [OF refl, of i w] by simp
  show "keeps (api_inspect E i)" unfolding keeps_def api_inspect_def
    by (auto split: prod.split sum.split dest: g)
  show "keeps (api_listSignals E i)" unfolding keeps_def api_listSignals_def
    by (auto intro!: wdb_case k)
qed

text \<open>What a GET or HEAD request is routed to leaves the service as it is.\<close>

lemma get_harmless:
  assumes "alone E" and "get_route segs = Some h"
  shows "wdb (fst (snd (handle S E now r h (w, l)))) = wdb w \<and> snd (snd (handle S E now r h (w, l))) = l"
proof -
  have h: "h \<in> {HRoot, HList, HDeadLetters, HMetrics, HHealthz, HUiOverview, HUiJobs, HUiLoginForm}
      \<or> (\<exists>i. h \<in> {HInspect i, HListSignals i, HUiJob i})"
    using assms(2) by (auto simp: get_route_def split: list.splits if_splits)
  note k = keeps_pages [OF assms(1), THEN keepsD, OF refl]
  have j: "wdb (snd x) = wdb w \<Longrightarrow> wdb (fst (snd (json_reply l x))) = wdb w \<and> snd (snd (json_reply l x)) = l"
    "wdb (snd y) = wdb w \<Longrightarrow> wdb (fst (snd (page_reply l y))) = wdb w \<and> snd (snd (page_reply l y)) = l" for x y
    by (cases x; simp add: json_reply_def) (cases y; simp add: page_reply_def)
  show ?thesis using h by (auto simp: k j)
qed

lemma no_ui_post:
  assumes "\<not> (\<exists>x. p = ''/ui'' @ x)" and "open_path p \<or> ui_path p"
  shows "post_route (tl (Split_at (CHR ''/'') p)) = None"
proof -
  have "p = ''/healthz'' \<or> p = ''/''" using assms by (auto simp: open_path_def ui_path_def)
  then show ?thesis by (auto simp: post_route_def)
qed

text \<open>
  C34: Another site cannot act through a visitor's browser. While a token is configured, a
  request whose origin is foreign and that does not carry the token itself, whatever cookies
  it does carry, leaves the database and the sign-in limiter as they are.
\<close>

theorem cross_site_harmless:
  assumes "alone E" and "sv_token S \<noteq> ''''" and "foreign S r" and "\<not> bearer (sv_token S) r"
  shows "wdb (fst (snd (serve S E now r (w, l)))) = wdb w \<and> snd (snd (serve S E now r (w, l))) = l"
proof (cases "entitled S r \<and> \<not> (req_method r = ''POST'' \<and> (\<exists>x. req_path r = ''/ui'' @ x))")
  case False
  then show ?thesis using assms(3) by (auto simp: serve_gate)
next
  case True
  then have s: "serve S E now r (w, l) = dispatch S E now r (w, l)" by (auto simp: serve_gate)
  have o: "open_path (req_path r) \<or> ui_path (req_path r)"
    using True assms(2,4) by (auto simp: entitled_def split: if_splits)
  show ?thesis
  proof (cases "route (req_method r) (req_path r)")
    case None
    then show ?thesis by (simp add: s dispatch_def)
  next
    case (Some h)
    have "req_method r \<noteq> ''POST''"
    proof
      assume p: "req_method r = ''POST''"
      then have "\<not> (\<exists>x. req_path r = ''/ui'' @ x)" using True by blast
      from no_ui_post [OF this o] show False using Some p by (simp add: route_def)
    qed
    then have "get_route (tl (Split_at (CHR ''/'') (req_path r))) = Some h"
      using Some by (simp add: route_def Let_def split: if_splits)
    from get_harmless [OF assms(1) this] show ?thesis by (simp add: s dispatch_def Some)
  qed
qed

definition sample_site :: site where
  "sample_site = \<lparr>sv_token = ''s3'', sv_session = (\<lambda>t. t @ ''!''), sv_url_host = (\<lambda>u. Some (drop 8 u)), sv_metrics = ''''\<rparr>"

text \<open>A forged cancellation with the operator's cookie, from another host and from the dashboard.\<close>

definition forged :: "string \<Rightarrow> request" where
  "forged origin = \<lparr>req_method = ''POST'', req_path = ''/ui/jobs/j1/cancel'', req_host = ''h'',
     req_headers = [(''Origin'', origin)], req_cookies = [(''workrail_session'', ''s3!'')], req_query = [],
     req_form = Inr [], req_body = '''', req_tls = True\<rparr>"

lemma cross_site_harmless_witness:
  "foreign sample_site (forged ''https://evil'')
   \<and> wdb (fst (snd (serve sample_site quiet 5 (forged ''https://evil'') (sample_world, zero_limiter)))) = sample_db
   \<and> fst (serve sample_site quiet 5 (forged ''https://h'') (sample_world, zero_limiter)) = Redirect ''/ui/jobs/j1'' None"
proof -
  have a: "alone quiet" by (simp add: alone_def quiet_def)
  have f: "foreign sample_site (forged ''https://evil'')" "sv_token sample_site \<noteq> ''''"
    "\<not> bearer (sv_token sample_site) (forged ''https://evil'')" by code_simp+
  have c: "fst (serve sample_site quiet 5 (forged ''https://h'') (sample_world, zero_limiter)) = Redirect ''/ui/jobs/j1'' None"
    by code_simp
  have "wdb sample_world = sample_db" by (simp add: sample_world_def)
  with cross_site_harmless [OF a f(2,1,3), of 5 sample_world zero_limiter] f c show ?thesis by simp
qed

end
