(* ===== verification/Cli.thy ===== *)
theory Cli
  imports Client Config Api
begin

text \<open>
  The command line of \<open>cmd/workrail/main.go\<close>: the flags of each command as the package
  \<open>flag\<close> parses them, and the commands over the store. An error, a usage message and the exit
  status of an \<open>ExitOnError\<close> flag set are all the \<open>Inl\<close> of a result. What is printed is the
  value handed to the printer. Opening the connection pool is not modelled.
\<close>

section \<open>Flags\<close>

datatype flag_kind = FString | FInt | FBool | FDuration

type_synonym flags = "(string \<times> flag_kind) list"

text \<open>\<open>strconv.ParseInt\<close> with base 0: a prefix chooses the base; underscores are not treated.\<close>

definition base_digit :: "char \<Rightarrow> int option" where
  "base_digit c = hex_value c"

definition in_base :: "int \<Rightarrow> string \<Rightarrow> int option" where
  "in_base b s =
     (if s = '''' then None
      else fold (\<lambda>c acc. case acc of None \<Rightarrow> None
        | Some n \<Rightarrow> (case base_digit c of None \<Rightarrow> None | Some v \<Rightarrow> if v < b then Some (b * n + v) else None)) s (Some 0))"

definition unsigned_int :: "string \<Rightarrow> int option" where
  "unsigned_int s =
     (if has_prefix ''0x'' s \<or> has_prefix ''0X'' s then in_base 16 (drop 2 s)
      else if has_prefix ''0b'' s \<or> has_prefix ''0B'' s then in_base 2 (drop 2 s)
      else if has_prefix ''0o'' s \<or> has_prefix ''0O'' s then in_base 8 (drop 2 s)
      else if has_prefix ''0'' s \<and> s \<noteq> ''0'' then in_base 8 (tl s)
      else in_base 10 s)"

definition flag_int :: "string \<Rightarrow> int option" where
  "flag_int s =
     (let neg = (s \<noteq> '''' \<and> hd s = CHR ''-'');
          t = (if s \<noteq> '''' \<and> (hd s = CHR ''-'' \<or> hd s = CHR ''+'') then tl s else s)
      in case unsigned_int t of
           None \<Rightarrow> None
         | Some n \<Rightarrow>
             let x = (if neg then - n else n) in if - (2 ^ 63) \<le> x \<and> x < 2 ^ 63 then Some x else None)"

definition flag_bool :: "string \<Rightarrow> bool option" where
  "flag_bool s =
     (if s \<in> {''1'', ''t'', ''T'', ''TRUE'', ''true'', ''True''} then Some True
      else if s \<in> {''0'', ''f'', ''F'', ''FALSE'', ''false'', ''False''} then Some False
      else None)"

definition flag_value_ok :: "flag_kind \<Rightarrow> string \<Rightarrow> bool" where
  "flag_value_ok k v =
     (case k of
        FString \<Rightarrow> True
      | FInt \<Rightarrow> flag_int v \<noteq> None
      | FBool \<Rightarrow> flag_bool v \<noteq> None
      | FDuration \<Rightarrow> ParseDuration v \<noteq> None)"

text \<open>
  The name of a flag argument with the value after an equals sign; None stops the flags
  (no flag, or the terminator \<open>--\<close>, which is dropped), a bad name is an error.
\<close>

datatype flag_word = Stop | Skip_and_stop | Bad | Flag string "string option"

definition flag_word :: "string \<Rightarrow> flag_word" where
  "flag_word s =
     (if length s < 2 \<or> hd s \<noteq> CHR ''-'' then Stop
      else if s = ''--'' then Skip_and_stop
      else let name = (if s ! 1 = CHR ''-'' then drop 2 s else drop 1 s)
        in if name = '''' \<or> hd name \<in> {CHR ''-'', CHR ''=''} then Bad
           else (case Cut (CHR ''='') name of (k, v, eq) \<Rightarrow> Flag k (if eq then Some v else None)))"

definition flag_error :: goerr where
  "flag_error = New ''invalid flags''"

text \<open>
  \<open>FlagSet.Parse\<close>: the settings in order and the arguments that are left; a help flag and an
  unknown flag are errors, and the first argument that is no flag ends the flags.
\<close>

fun parse_flags :: "flags \<Rightarrow> string list \<Rightarrow> params \<Rightarrow> goerr + params \<times> string list" where
  "parse_flags fs [] acc = Inr (acc, [])"
| "parse_flags fs (a # args) acc =
     (case flag_word a of
        Stop \<Rightarrow> Inr (acc, a # args)
      | Skip_and_stop \<Rightarrow> Inr (acc, args)
      | Bad \<Rightarrow> Inl flag_error
      | Flag k v \<Rightarrow>
          (case map_of fs k of
             None \<Rightarrow> Inl flag_error
           | Some FBool \<Rightarrow>
               (case v of
                  None \<Rightarrow> parse_flags fs args (acc @ [(k, ''true'')])
                | Some x \<Rightarrow> if flag_value_ok FBool x then parse_flags fs args (acc @ [(k, x)]) else Inl flag_error)
           | Some kind \<Rightarrow>
               (case v of
                  Some x \<Rightarrow> if flag_value_ok kind x then parse_flags fs args (acc @ [(k, x)]) else Inl flag_error
                | None \<Rightarrow>
                    (case args of
                       [] \<Rightarrow> Inl flag_error
                     | x # rest \<Rightarrow>
                         if flag_value_ok kind x then parse_flags fs rest (acc @ [(k, x)]) else Inl flag_error))))"

text \<open>The value of a flag: the last setting, or its default.\<close>

definition flag_or :: "params \<Rightarrow> string \<Rightarrow> string \<Rightarrow> string" where
  "flag_or ps k dflt = (case map_of (rev ps) k of None \<Rightarrow> dflt | Some v \<Rightarrow> v)"

definition flag_on :: "params \<Rightarrow> string \<Rightarrow> bool" where
  "flag_on ps k = (flag_bool (flag_or ps k ''false'') = Some True)"

section \<open>Arguments before the command\<close>

definition parseGlobalArgs :: "string list \<Rightarrow> goerr + string \<times> string list" where
  "parseGlobalArgs args =
     (case args of
        a # p # rest \<Rightarrow> if a \<in> {''--config'', ''-config''} then Inr (p, rest) else Inr ('''', args)
      | [a] \<Rightarrow> if a \<in> {''--config'', ''-config''} then Inl (New ''--config requires a path'') else Inr ('''', args)
      | [] \<Rightarrow> Inr ('''', args))"

fun migrate_args :: "string list \<Rightarrow> string \<times> string \<Rightarrow> goerr + string \<times> string" where
  "migrate_args [] acc = Inr acc"
| "migrate_args (a # args) (cmd, dir) =
     (if a = ''up'' then migrate_args args (''up'', dir)
      else if a = ''--dir'' then
        (case args of [] \<Rightarrow> Inl (New ''--dir requires a path'') | p # rest \<Rightarrow> migrate_args rest (cmd, p))
      else if has_prefix ''--dir='' a then migrate_args args (cmd, TrimPrefix ''--dir='' a)
      else Inl (New (''unknown migrate argument '' @ quoted a)))"

definition parseMigrateArgs :: "string list \<Rightarrow> goerr + string \<times> string" where
  "parseMigrateArgs args = migrate_args args (''up'', ''migrations'')"

section \<open>Output\<close>

datatype cli_output =
    Silent
  | Line "string list"
  | Table "string list list"
  | Details "string list" "string list list"
  | JSON answer

definition cli_shortID :: "string \<Rightarrow> string" where
  "cli_shortID i = (if length i \<le> 8 then i else take 8 i)"

definition formatTime :: "time \<Rightarrow> string" where
  "formatTime t = (if t = 0 then ''-'' else rfc3339 t)"

definition job_line :: "job \<Rightarrow> string list" where
  "job_line j = [cli_shortID (job_id j), queue j, workflow_type j, status_string (status j), int_str (attempt j),
     int_str (max_attempts j), formatTime (run_after j), formatTime (updated_at j)]"

definition printJobsTable :: "job list \<Rightarrow> cli_output" where
  "printJobsTable js =
     Table ([''ID'', ''QUEUE'', ''TYPE'', ''STATUS'', ''ATTEMPT'', ''MAX'', ''RUN_AFTER'', ''UPDATED''] # map job_line js)"

text \<open>The head of \<open>printJobDetails\<close>; \<open>compact\<close> is \<open>json.Compact\<close>.\<close>

definition job_details :: "(bytes \<Rightarrow> bytes) \<Rightarrow> job \<Rightarrow> string list" where
  "job_details compact j =
     [''id: '' @ job_id j, ''queue: '' @ queue j, ''type: '' @ workflow_type j, ''status: '' @ status_string (status j),
      ''attempt: '' @ int_str (attempt j) @ ''/'' @ int_str (max_attempts j), ''run_after: '' @ formatTime (run_after j)]
     @ (case job_error j of None \<Rightarrow> [] | Some x \<Rightarrow> [''error: '' @ x])
     @ (case lease_owner j of None \<Rightarrow> [] | Some x \<Rightarrow> [''lease_owner: '' @ x])
     @ (if payload j \<noteq> '''' then [''payload: '' @ compact (payload j)] else [])
     @ (case job_result j of None \<Rightarrow> [] | Some x \<Rightarrow> if x \<noteq> '''' then [''result: '' @ compact x] else [])"

section \<open>Commands\<close>

definition cli_try ::
    "(goerr + 'a) \<times> 'x world \<Rightarrow> ('a \<Rightarrow> cli_output) \<Rightarrow> (goerr + cli_output) \<times> 'x world" where
  "cli_try r out = (case r of (Inl err, w) \<Rightarrow> (Inl err, w) | (Inr x, w) \<Rightarrow> (Inr (out x), w))"

definition enqueue_flags :: flags where
  "enqueue_flags = [(''queue'', FString), (''type'', FString), (''payload'', FString), (''idempotency-key'', FString),
     (''max-attempts'', FInt), (''delay'', FDuration), (''run-after'', FString), (''json'', FBool)]"

text \<open>The earliest run time the flags ask for, the zero time for none; \<open>now\<close> is \<open>time.Now()\<close>.\<close>

definition not_before :: "time \<Rightarrow> params \<Rightarrow> goerr + time" where
  "not_before now ps =
     (let delay = (case ParseDuration (flag_or ps ''delay'' ''0'') of None \<Rightarrow> 0 | Some t \<Rightarrow> t);
          after = flag_or ps ''run-after'' ''''
      in if delay \<noteq> 0 \<and> after \<noteq> '''' then Inl (New ''--delay and --run-after are mutually exclusive'')
         else if delay \<noteq> 0 then Inr (now + delay)
         else if after \<noteq> '''' then
           (case parse_rfc3339 after of
              None \<Rightarrow> Inl (Wrapf (''invalid --run-after '' @ quoted after @ '': '') (New ''cannot parse the time'') '''')
            | Some t \<Rightarrow> Inr t)
         else Inr 0)"

definition enqueue_of_flags :: "params \<Rightarrow> time \<Rightarrow> enqueue_request" where
  "enqueue_of_flags ps after = \<lparr>rq_queue = flag_or ps ''queue'' ''default'', rq_type = flag_or ps ''type'' ''echo'',
     rq_payload = flag_or ps ''payload'' ''{}'', rq_key = flag_or ps ''idempotency-key'' '''',
     rq_max_attempts = (case flag_int (flag_or ps ''max-attempts'' ''3'') of None \<Rightarrow> 0 | Some n \<Rightarrow> n),
     rq_run_after = after, rq_parent = ''''\<rparr>"

definition cli_enqueue ::
    "(nat \<Rightarrow> call_env) \<Rightarrow> time \<Rightarrow> string list \<Rightarrow> 'x world \<Rightarrow> (goerr + cli_output) \<times> 'x world" where
  "cli_enqueue E now args w =
     (case parse_flags enqueue_flags args [] of
        Inl err \<Rightarrow> (Inl err, w)
      | Inr (ps, _) \<Rightarrow>
          (case not_before now ps of
             Inl err \<Rightarrow> (Inl err, w)
           | Inr after \<Rightarrow>
               cli_try (call E (\<lambda>e. Enqueue e (enqueue_of_flags ps after)) w) (\<lambda>(j, inserted).
                 if flag_on ps ''json'' then JSON (AJob j)
                 else Line [if inserted then ''enqueued'' else ''exists'', job_id j, queue j, status_string (status j)])))"

definition list_flags :: flags where
  "list_flags = [(''limit'', FInt), (''queue'', FString), (''status'', FString), (''type'', FString), (''json'', FBool)]"

definition print_jobs :: "params \<Rightarrow> job list \<Rightarrow> cli_output" where
  "print_jobs ps js = (if flag_on ps ''json'' then JSON (AJobs js) else printJobsTable js)"

definition limit_flag :: "params \<Rightarrow> int" where
  "limit_flag ps = (case flag_int (flag_or ps ''limit'' ''20'') of None \<Rightarrow> 0 | Some n \<Rightarrow> n)"

definition cli_list ::
    "(nat \<Rightarrow> call_env) \<Rightarrow> string list \<Rightarrow> 'x world \<Rightarrow> (goerr + cli_output) \<times> 'x world" where
  "cli_list E args w =
     (case parse_flags list_flags args [] of
        Inl err \<Rightarrow> (Inl err, w)
      | Inr (ps, _) \<Rightarrow>
          cli_try (call E (\<lambda>e. List_jobs e (zero_list_options\<lparr>lo_limit := limit_flag ps, lo_queue := flag_or ps ''queue'' '''',
            lo_status := flag_or ps ''status'' '''', lo_type := flag_or ps ''type'' ''''\<rparr>)) w) (print_jobs ps))"

definition event_line :: "(details \<Rightarrow> bytes) \<Rightarrow> event \<Rightarrow> string list" where
  "event_line text v = [int_str (ev_id v), ev_type v, formatTime (ev_at v), text (ev_details v)]"

text \<open>\<open>text\<close> prints the details of an event, \<open>compact\<close> a payload, both without spaces.\<close>

definition printJobDetails :: "(bytes \<Rightarrow> bytes) \<Rightarrow> (details \<Rightarrow> bytes) \<Rightarrow> job \<Rightarrow> event list \<Rightarrow> cli_output" where
  "printJobDetails compact text j evs =
     Details (job_details compact j)
       (if evs = [] then [] else [''ID'', ''TYPE'', ''CREATED'', ''DETAILS''] # map (event_line text) evs)"

definition inspect_usage :: goerr where "inspect_usage = New ''usage: workrail inspect <job-id>''"
definition cancel_usage :: goerr where "cancel_usage = New ''usage: workrail cancel <job-id>''"
definition replay_usage :: goerr where "replay_usage = New ''usage: workrail replay <job-id>''"
definition retry_usage :: goerr where "retry_usage = New ''usage: workrail dlq retry <job-id>''"
definition dlq_usage :: goerr where "dlq_usage = New ''usage: workrail dlq <list|retry>''"

definition signal_usage :: goerr where
  "signal_usage = New ''usage: workrail signal <job-id> --name <name> [--payload '{...}']''"

definition cli_inspect ::
    "(bytes \<Rightarrow> bytes) \<Rightarrow> (details \<Rightarrow> bytes) \<Rightarrow> (nat \<Rightarrow> call_env) \<Rightarrow> string list \<Rightarrow> 'x world \<Rightarrow>
     (goerr + cli_output) \<times> 'x world" where
  "cli_inspect compact text E args w =
     (case parse_flags [(''json'', FBool)] args [] of
        Inl err \<Rightarrow> (Inl err, w)
      | Inr (ps, rest) \<Rightarrow>
          (case rest of
             [i] \<Rightarrow> cli_try (call E (\<lambda>e. Get e i) w) (\<lambda>(j, evs).
               if flag_on ps ''json'' then JSON (AJobEvents j evs) else printJobDetails compact text j evs)
           | _ \<Rightarrow> (Inl inspect_usage, w)))"

definition cli_cancel :: "(nat \<Rightarrow> call_env) \<Rightarrow> string list \<Rightarrow> 'x world \<Rightarrow> (goerr + cli_output) \<times> 'x world" where
  "cli_cancel E args w =
     (case args of [i] \<Rightarrow> cli_try (call E (\<lambda>e. Cancel e i) w) (\<lambda>_. Silent) | _ \<Rightarrow> (Inl cancel_usage, w))"

definition cli_replay :: "(nat \<Rightarrow> call_env) \<Rightarrow> string list \<Rightarrow> 'x world \<Rightarrow> (goerr + cli_output) \<times> 'x world" where
  "cli_replay E args w =
     (case args of [i] \<Rightarrow> cli_try (call E (\<lambda>e. Replay e i) w) (\<lambda>j. JSON (AJob j)) | _ \<Rightarrow> (Inl replay_usage, w))"

definition cli_signal :: "(nat \<Rightarrow> call_env) \<Rightarrow> string list \<Rightarrow> 'x world \<Rightarrow> (goerr + cli_output) \<times> 'x world" where
  "cli_signal E args w =
     (case parse_flags [(''name'', FString), (''payload'', FString), (''idempotency-key'', FString)] args [] of
        Inl err \<Rightarrow> (Inl err, w)
      | Inr (ps, rest) \<Rightarrow>
          (if length rest \<noteq> 1 \<or> flag_or ps ''name'' '''' = '''' then (Inl signal_usage, w)
           else cli_try (call E (\<lambda>e. Signal e (hd rest) (flag_or ps ''name'' '''') (flag_or ps ''payload'' ''{}'')
                  (flag_or ps ''idempotency-key'' '''')) w) (\<lambda>_. Silent)))"

definition listDeadLetters ::
    "(nat \<Rightarrow> call_env) \<Rightarrow> string list \<Rightarrow> 'x world \<Rightarrow> (goerr + cli_output) \<times> 'x world" where
  "listDeadLetters E args w =
     (case parse_flags [(''limit'', FInt), (''queue'', FString), (''type'', FString), (''json'', FBool)] args [] of
        Inl err \<Rightarrow> (Inl err, w)
      | Inr (ps, _) \<Rightarrow>
          cli_try (call E (\<lambda>e. List_jobs e (zero_list_options\<lparr>lo_limit := limit_flag ps, lo_queue := flag_or ps ''queue'' '''',
            lo_status := status_string StatusDeadLetter, lo_type := flag_or ps ''type'' ''''\<rparr>)) w) (print_jobs ps))"

definition retryDeadLetter ::
    "(nat \<Rightarrow> call_env) \<Rightarrow> string list \<Rightarrow> 'x world \<Rightarrow> (goerr + cli_output) \<times> 'x world" where
  "retryDeadLetter E args w =
     (case parse_flags [(''json'', FBool)] args [] of
        Inl err \<Rightarrow> (Inl err, w)
      | Inr (ps, rest) \<Rightarrow>
          (case rest of
             [i] \<Rightarrow> cli_try (call E (\<lambda>e. RetryDeadLetter e i) w) (\<lambda>j.
               if flag_on ps ''json'' then JSON (AJob j) else Line [''retried'', job_id j, status_string (status j)])
           | _ \<Rightarrow> (Inl retry_usage, w)))"

definition cli_dlq :: "(nat \<Rightarrow> call_env) \<Rightarrow> string list \<Rightarrow> 'x world \<Rightarrow> (goerr + cli_output) \<times> 'x world" where
  "cli_dlq E args w =
     (case args of
        [] \<Rightarrow> (Inl dlq_usage, w)
      | a # rest \<Rightarrow>
          if a = ''list'' then listDeadLetters E rest w
          else if a = ''retry'' then retryDeadLetter E rest w
          else (Inl (New (''unknown dlq command '' @ quoted a)), w))"

section \<open>Facts\<close>

lemma parse_flags_simps:
  "flag_word a = Stop \<Longrightarrow> parse_flags fs (a # args) acc = Inr (acc, a # args)"
  "flag_word a = Flag k None \<Longrightarrow> map_of fs k = Some FString \<Longrightarrow>
     parse_flags fs (a # x # args) acc = parse_flags fs args (acc @ [(k, x)])"
  by (simp_all add: flag_value_ok_def)

lemma signal_words: "flag_word ''--name'' = Flag ''name'' None" "flag_word ''--payload'' = Flag ''payload'' None"
  by code_simp+

text \<open>
  The documented way to send a signal never works. The usage text and the docs put the
  job id first, but the flags end at the first argument that is no flag, so such a command
  line is refused with the usage text itself and sends nothing; with the id last, the signal
  is sent.
\<close>

lemma signal_usage_refused:
  assumes "flag_word i = Stop" and "n \<noteq> ''''"
  shows "cli_signal E (i # ''--name'' # n # rest) w = (Inl signal_usage, w)
    \<and> cli_signal E [''--name'', n, ''--payload'', p, i] w = cli_try (call E (\<lambda>e. Signal e i n p '''') w) (\<lambda>_. Silent)"
proof
  show "cli_signal E (i # ''--name'' # n # rest) w = (Inl signal_usage, w)"
    by (simp add: cli_signal_def assms(1))
  have "parse_flags [(''name'', FString), (''payload'', FString), (''idempotency-key'', FString)]
      [''--name'', n, ''--payload'', p, i] [] = Inr ([(''name'', n), (''payload'', p)], [i])"
    by (simp add: signal_words assms(1) flag_value_ok_def)
  then show "cli_signal E [''--name'', n, ''--payload'', p, i] w = cli_try (call E (\<lambda>e. Signal e i n p '''') w) (\<lambda>_. Silent)"
    using assms(2) by (simp add: cli_signal_def flag_or_def)
qed

lemma signal_usage_refused_witness:
  "cli_signal quiet [''j1'', ''--name'', ''approval''] sample_world = (Inl signal_usage, sample_world)
   \<and> cli_signal quiet [''--name'', ''approval'', ''--payload'', ''1'', ''j1''] sample_world =
       cli_try (call quiet (\<lambda>e. Signal e ''j1'' ''approval'' ''1'' '''') sample_world) (\<lambda>_. Silent)"
proof -
  have "flag_word ''j1'' = Stop" by code_simp
  from signal_usage_refused [OF this, of "''approval''" quiet "[]" sample_world "''1''"] show ?thesis by simp
qed

end
