(* ===== verification/Payweb.thy ===== *)
theory Payweb
  imports Payments Api Urls Config
begin

text \<open>
  The HTTP surface of \<open>examples/payments/http.go\<close> and what \<open>main.go\<close> prepares for it: decoding
  of a payout request from JSON or a form, the answers, the listings and the routes. A page is
  the data its template gets. A form is the argument \<open>req_form\<close> of the request, as
  \<open>ParseForm\<close> leaves it.
\<close>

section \<open>Requests\<close>

record create_request =
  cr_account :: string
  cr_amount :: int
  cr_destination :: destination

definition zero_destination :: destination where
  "zero_destination = \<lparr>ds_account_name = '''', ds_account_number = '''', ds_routing_number = ''''\<rparr>"

definition zero_create :: create_request where
  "zero_create = \<lparr>cr_account = '''', cr_amount = 0, cr_destination = zero_destination\<rparr>"

definition destination_fields :: "(string \<times> destination setter) list" where
  "destination_fields =
     [(''account_name'', string_field (\<lambda>s d. d\<lparr>ds_account_name := s\<rparr>)),
      (''account_number'', string_field (\<lambda>s d. d\<lparr>ds_account_number := s\<rparr>)),
      (''routing_number'', string_field (\<lambda>s d. d\<lparr>ds_routing_number := s\<rparr>))]"

text \<open>A struct inside a struct.\<close>

definition struct_field :: "(string \<times> 's setter) list \<Rightarrow> ('r \<Rightarrow> 's) \<Rightarrow> ('s \<Rightarrow> 'r \<Rightarrow> 'r) \<Rightarrow> 'r setter" where
  "struct_field flds get upd raw x =
     (if raw = ''null'' then Some x
      else case Unmarshal flds raw (get x) of (ok, y) \<Rightarrow> if ok then Some (upd y x) else None)"

definition create_fields :: "(string \<times> create_request setter) list" where
  "create_fields =
     [(''account_id'', string_field (\<lambda>s r. r\<lparr>cr_account := s\<rparr>)),
      (''amount_cents'', int_field (\<lambda>n r. r\<lparr>cr_amount := n\<rparr>)),
      (''destination'', struct_field destination_fields cr_destination (\<lambda>d r. r\<lparr>cr_destination := d\<rparr>))]"

text \<open>Whether the answer is to be a page, and the request or the error.\<close>

definition decodeCreate :: "request \<Rightarrow> bool \<times> (goerr + create_request)" where
  "decodeCreate r =
     (if has_prefix ''application/json'' (first_value (req_headers r) ''Content-Type'')
      then (False, Decode create_fields (req_body r) zero_create)
      else (True, case req_form r of
          Inl err \<Rightarrow> Inl err
        | Inr form \<Rightarrow>
            (case parseAmount (first_value form ''amount'') of
               Inl err \<Rightarrow> Inl err
             | Inr n \<Rightarrow> Inr \<lparr>cr_account = first_value form ''account_id'', cr_amount = n,
                 cr_destination = \<lparr>ds_account_name = first_value form ''account_name'',
                   ds_account_number = first_value form ''account_number'',
                   ds_routing_number = first_value form ''routing_number''\<rparr>\<rparr>)))"

section \<open>Answers\<close>

record payout_view =
  pv_id :: string
  pv_account :: string
  pv_amount :: int
  pv_status :: string
  pv_ref :: string
  pv_reason :: string
  pv_job :: string
  pv_number :: string

record account_view =
  av_id :: string
  av_name :: string
  av_balance :: int

record index_page =
  ix_accounts :: "account_view list"
  ix_payouts :: "payout_view list"
  ix_notifications :: "notification list"
  ix_dashboard :: string
  ix_error :: string

datatype pay_reply =
    Pay_error int string
  | Pay_created string string
  | Pay_list "payout_view list"
  | Pay_status string
  | Pay_redirect string
  | Pay_page index_page
  | Pay_plain int string

definition pay_fail :: "bool \<Rightarrow> int \<Rightarrow> goerr \<Rightarrow> pay_reply" where
  "pay_fail wantsHTML code err =
     (if wantsHTML then Pay_redirect (''/?error='' @ QueryEscape (err_string err))
      else Pay_error code (err_string err))"

section \<open>Listings\<close>

text \<open>\<open>destination ->> 'account_number'\<close>, the empty text for NULL.\<close>

definition member_as_text :: "bytes \<Rightarrow> string \<Rightarrow> string" where
  "member_as_text b k =
     (case unmarshal_any Some b of
        Some (JObj ms) \<Rightarrow>
          (case map_of ms k of
             None \<Rightarrow> ''''
           | Some JNull \<Rightarrow> ''''
           | Some (JStr s) \<Rightarrow> s
           | Some v \<Rightarrow> json_text v)
      | _ \<Rightarrow> '''')"

definition or_empty :: "string option \<Rightarrow> string" where
  "or_empty x = (case x of None \<Rightarrow> '''' | Some s \<Rightarrow> s)"

definition view_payout :: "payout \<Rightarrow> payout_view" where
  "view_payout x = \<lparr>pv_id = po_id x, pv_account = po_account x, pv_amount = po_amount x, pv_status = po_status x,
     pv_ref = or_empty (po_ref x), pv_reason = or_empty (po_reason x), pv_job = or_empty (po_job x),
     pv_number = member_as_text (po_destination x) ''account_number''\<rparr>"

definition list_accounts :: "senv \<Rightarrow> paydb \<Rightarrow> (goerr + account_view list) \<times> paydb" where
  "list_accounts e = withTx e 0 (\<lambda>d. Inr (map (\<lambda>(k, b). \<lparr>av_id = k,
     av_name = or_empty (map_of (names d) k), av_balance = b\<rparr>) (sort_key fst (accounts d)), d))"

definition list_payouts :: "senv \<Rightarrow> paydb \<Rightarrow> (goerr + payout_view list) \<times> paydb" where
  "list_payouts e = withTx e 0 (\<lambda>d. Inr (map view_payout (take 25 (sort_key (\<lambda>x. - po_created x) (payouts d))), d))"

definition list_notifications :: "senv \<Rightarrow> paydb \<Rightarrow> (goerr + notification list) \<times> paydb" where
  "list_notifications e = withTx e 0 (\<lambda>d. Inr (take 10 (sort_key (\<lambda>x. - nt_at x) (notifications d)), d))"

section \<open>Handlers\<close>

text \<open>A handler's further statement: an error is answered with status 500.\<close>

definition or_fail ::
    "bool \<Rightarrow> (goerr + 'a) \<times> 's \<Rightarrow> ('a \<Rightarrow> 's \<Rightarrow> pay_reply \<times> 's) \<Rightarrow> pay_reply \<times> 's" where
  "or_fail wantsHTML r k = (case r of (Inl err, w) \<Rightarrow> (pay_fail wantsHTML 500 err, w) | (Inr x, w) \<Rightarrow> k x w)"

definition handle_create ::
    "(nat \<Rightarrow> call_env) \<Rightarrow> (nat \<Rightarrow> pay_env) \<Rightarrow> (destination \<Rightarrow> goerr + bytes) \<Rightarrow> (payout_job \<Rightarrow> goerr + bytes) \<Rightarrow>
     request \<Rightarrow> paydb world \<Rightarrow> pay_reply \<times> paydb world" where
  "handle_create E P enc_dest enc_job r w =
     (case decodeCreate r of
        (wantsHTML, Inl err) \<Rightarrow> (pay_fail wantsHTML 400 err, w)
      | (wantsHTML, Inr c) \<Rightarrow>
          (case createPayout E P enc_dest enc_job (cr_account c) (cr_amount c) (cr_destination c) w of
             (Inl (code, err), w1) \<Rightarrow> (pay_fail wantsHTML code err, w1)
           | (Inr (p, i), w1) \<Rightarrow> (if wantsHTML then Pay_redirect ''/'' else Pay_created p i, w1)))"

definition dashboardURL :: "environment \<Rightarrow> string" where
  "dashboardURL env =
     (let url = Getenv env ''WORKRAIL_DASHBOARD_URL'' in if url \<noteq> '''' then url else ''http://localhost:8080'')"

definition pay_index :: "environment \<Rightarrow> (nat \<Rightarrow> pay_env) \<Rightarrow> request \<Rightarrow> paydb world \<Rightarrow> pay_reply \<times> paydb world" where
  "pay_index env P r w0 =
     or_fail True (pcall P list_accounts w0) (\<lambda>acs w1.
     or_fail True (pcall P list_payouts w1) (\<lambda>pos w2.
     or_fail True (pcall P list_notifications w2) (\<lambda>nts w3.
       (Pay_page \<lparr>ix_accounts = acs, ix_payouts = pos, ix_notifications = nts,
          ix_dashboard = dashboardURL env, ix_error = first_value (req_query r) ''error''\<rparr>, w3))))"

definition listPayouts :: "(nat \<Rightarrow> pay_env) \<Rightarrow> paydb world \<Rightarrow> pay_reply \<times> paydb world" where
  "listPayouts P w = or_fail False (pcall P list_payouts w) (\<lambda>pos w1. (Pay_list pos, w1))"

text \<open>The routes; a path that the mux would first clean is not treated.\<close>

definition pay_routes ::
    "environment \<Rightarrow> (nat \<Rightarrow> call_env) \<Rightarrow> (nat \<Rightarrow> pay_env) \<Rightarrow> (destination \<Rightarrow> goerr + bytes) \<Rightarrow>
     (payout_job \<Rightarrow> goerr + bytes) \<Rightarrow> request \<Rightarrow> paydb world \<Rightarrow> pay_reply \<times> paydb world" where
  "pay_routes env E P enc_dest enc_job r w =
     (let get = (req_method r \<in> {''GET'', ''HEAD''})
      in if req_path r = ''/'' \<and> get then pay_index env P r w
         else if req_path r = ''/payouts'' \<and> req_method r = ''POST'' then handle_create E P enc_dest enc_job r w
         else if req_path r = ''/payouts'' \<and> get then listPayouts P w
         else if req_path r = ''/healthz'' \<and> get then (Pay_status ''ok'', w)
         else (Pay_plain (if req_path r \<in> {''/'', ''/payouts'', ''/healthz''} then 405 else 404)
                (if req_path r \<in> {''/'', ''/payouts'', ''/healthz''} then ''Method Not Allowed'' else ''404 page not found''), w))"

section \<open>Start-up\<close>

definition payments_workerID :: "environment \<Rightarrow> string" where
  "payments_workerID env =
     (let i = Getenv env ''PAYMENTS_WORKER_ID'' in if i \<noteq> '''' then i else ''payments-worker-1'')"

definition payments_addr :: "environment \<Rightarrow> string" where
  "payments_addr env = (let a = Getenv env ''PAYMENTS_ADDR'' in if a = '''' then '':8090'' else a)"

text \<open>The options of \<open>RunWorker\<close>; those left out have their zero value.\<close>

definition payments_worker :: "environment \<Rightarrow> worker" where
  "payments_worker env = \<lparr>wk_id = payments_workerID env, wk_queue = payments_queue, wk_poll = second, wk_lease = 30 * second,
     wk_shutdown = 20 * second, wk_retention = 0, wk_concurrency = 4\<rparr>"

definition seed_rows :: "(string \<times> string \<times> int) list" where
  "seed_rows = [(''acct_ada'', ''Ada Lovelace'', 500000), (''acct_grace'', ''Grace Hopper'', 25000)]"

definition seedAccounts :: "senv \<Rightarrow> paydb \<Rightarrow> (goerr + unit) \<times> paydb" where
  "seedAccounts e = withTx e 0 (\<lambda>d. Inr ((), fold (\<lambda>(k, nm, b) d.
     if k \<in> fst ` set (accounts d) then d
     else d\<lparr>accounts := accounts d @ [(k, b)], names := names d @ [(k, nm)]\<rparr>) seed_rows d))"

section \<open>Facts\<close>

text \<open>The page of a refused form shows the text of its error.\<close>

lemma error_shown:
  assumes "pay_fail True code err = Pay_redirect url" and "req_query r = ParseQuery (drop 2 url)"
    and "pay_index env P r w = (Pay_page pg, w')"
  shows "ix_error pg = err_string err"
proof -
  have "drop 2 url = QueryEscape ''error'' @ CHR ''='' # QueryEscape (err_string err)"
    using assms(1) by (auto simp: pay_fail_def QueryEscape_def escape_char_def unreserved_def)
  then have "req_query r = [(''error'', err_string err)]"
    using assms(2) ParseQuery_Encode [of "[(''error'', err_string err)]"] by (simp add: Encode_def)
  with assms(3) show ?thesis
    by (auto simp: pay_index_def or_fail_def first_value_def pay_fail_def split: prod.splits sum.splits)
qed

text \<open>Seeding is repeatable: a restart leaves balances that have changed as they are.\<close>

lemma seed_once:
  assumes "seedAccounts e d = (Inr (), d1)" and "fst ` set (accounts d1) \<subseteq> fst ` set (accounts d2)"
  shows "snd (seedAccounts e' d2) = d2"
proof -
  have "{''acct_ada'', ''acct_grace''} \<subseteq> fst ` set (accounts d1)"
    using assms(1) by (auto simp: seedAccounts_def seed_rows_def dest!: withTx_InrD split: if_splits)
  with assms(2) have "''acct_ada'' \<in> fst ` set (accounts d2)" "''acct_grace'' \<in> fst ` set (accounts d2)" by auto
  then show ?thesis by (auto simp: seedAccounts_def seed_rows_def withTx_def split: outcome.split)
qed

end
