(* ===== verification/Jsonview.thy ===== *)
theory Jsonview
  imports Redact Structs Dashboard
begin

text \<open>
  How JSON is shown: \<open>json.Compact\<close> and \<open>json.Indent\<close>, \<open>prettyJSON\<close> and \<open>compactJSON\<close> of the
  dashboard and the command line, and the functions the dashboard gives its templates.
\<close>

section \<open>Compact\<close>

text \<open>Drops the space outside strings; \<open>q\<close> says whether the text starts inside a string.\<close>

fun compact_text :: "bool \<Rightarrow> string \<Rightarrow> string" where
  "compact_text q [] = []"
| "compact_text q (c # s) =
     (if q then
        (if c = CHR 0x5C then (case s of [] \<Rightarrow> [c] | x # r \<Rightarrow> c # x # compact_text True r)
         else c # compact_text (c \<noteq> CHR 0x22) s)
      else if is_space c then compact_text False s
      else c # compact_text (c = CHR 0x22) s)"

definition json_Compact :: "bytes \<Rightarrow> bytes option" where
  "json_Compact s = (if json_Valid s then Some (compact_text False s) else None)"

definition compactJSON :: "bytes \<Rightarrow> bytes" where
  "compactJSON data = (case json_Compact data of None \<Rightarrow> data | Some t \<Rightarrow> t)"

section \<open>Indent\<close>

definition line_break :: "nat \<Rightarrow> string" where
  "line_break depth = CHR 0x0A # concat (replicate depth ''  '')"

text \<open>
  The loop of \<open>json.Indent\<close> with two spaces: \<open>need\<close> is \<open>needIndent\<close>, which delays the line
  after an opening bracket so that an empty object or array stays on one line.
\<close>

fun indent_text :: "bool \<Rightarrow> bool \<Rightarrow> nat \<Rightarrow> string \<Rightarrow> string" where
  "indent_text q need depth [] = []"
| "indent_text q need depth (c # s) =
     (if q then
        (if c = CHR 0x5C then (case s of [] \<Rightarrow> [c] | x # r \<Rightarrow> c # x # indent_text True False depth r)
         else c # indent_text (c \<noteq> CHR 0x22) False depth s)
      else if is_space c then indent_text False need depth s
      else if c \<in> {CHR 0x7D, CHR '']''} then
        (if need then c # indent_text False False depth s
         else line_break (depth - 1) @ c # indent_text False False (depth - 1) s)
      else
        (let inner = (if need then depth + 1 else depth);
             start = (if need then line_break inner else [])
         in start @ (if c \<in> {CHR 0x7B, CHR ''[''} then c # indent_text False True inner s
              else if c = CHR '','' then c # line_break inner @ indent_text False False inner s
              else if c = CHR '':'' then c # CHR '' '' # indent_text False False inner s
              else c # indent_text (c = CHR 0x22) False inner s)))"

text \<open>Space after the document is kept.\<close>

definition json_Indent :: "bytes \<Rightarrow> bytes option" where
  "json_Indent s = (if json_Valid s then Some (indent_text False False 0 s @ rev (takeWhile is_space (rev s))) else None)"

definition prettyJSON :: "bytes \<Rightarrow> bytes" where
  "prettyJSON data = (case json_Indent data of None \<Rightarrow> data | Some t \<Rightarrow> t)"

section \<open>Template functions\<close>

text \<open>A dash for the zero time, in UTF-8.\<close>

definition template_rfc3339 :: "time \<Rightarrow> string" where
  "template_rfc3339 t = (if t = 0 then [CHR 0xE2, CHR 0x80, CHR 0x94] else rfc3339 t)"

definition template_deref :: "string option \<Rightarrow> string" where
  "template_deref s = (case s of None \<Rightarrow> '''' | Some x \<Rightarrow> x)"

definition template_prettyJSON :: "(string \<Rightarrow> string option) \<Rightarrow> redactor \<Rightarrow> bytes \<Rightarrow> bytes" where
  "template_prettyJSON num r data = prettyJSON (redact_JSON num r data)"

definition template_compactJSON :: "(string \<Rightarrow> string option) \<Rightarrow> redactor \<Rightarrow> bytes \<Rightarrow> bytes" where
  "template_compactJSON num r data = compactJSON (redact_JSON num r data)"

section \<open>Facts\<close>

lemma compact_spaces: "list_all is_space t \<Longrightarrow> compact_text False (t @ s) = compact_text False s"
  by (induction t) simp_all

lemma line_break_spaces: "list_all is_space (line_break n)"
  by (simp add: line_break_def list_all_iff is_space_def)

lemma compact_line_break [simp]: "compact_text False (line_break n @ s) = compact_text False s"
  by (rule compact_spaces [OF line_break_spaces])

lemma space_not_bracket: "is_space c \<Longrightarrow> c \<notin> {CHR 0x7D, CHR '']'', CHR 0x7B, CHR ''['', CHR '','', CHR '':'', CHR 0x22}"
  by (auto simp: is_space_def)

text \<open>The indented text differs from the compact one in space only.\<close>

lemma compact_plain: "\<not> is_space c \<Longrightarrow> compact_text False (c # s) = c # compact_text (c = CHR 0x22) s"
  and compact_space: "is_space c \<Longrightarrow> compact_text False (c # s) = compact_text False s"
  and compact_escape: "compact_text True (CHR 0x5C # x # s) = CHR 0x5C # x # compact_text True s"
  and compact_quoted: "c \<noteq> CHR 0x5C \<Longrightarrow> compact_text True (c # s) = c # compact_text (c \<noteq> CHR 0x22) s"
  by simp_all

lemma indent_shape:
  assumes "\<not> is_space c"
  obtains start gap need' depth' where "list_all is_space start" and "list_all is_space gap"
    and "c = CHR 0x22 \<Longrightarrow> gap = []"
    and "indent_text False need depth (c # s) = start @ c # gap @ indent_text (c = CHR 0x22) need' depth' s"
proof -
  let ?inner = "if need then depth + 1 else depth"
  let ?br = "if need then line_break ?inner else []"
  have sp: "list_all is_space ?br" "list_all is_space '' ''" by (simp_all add: line_break_spaces is_space_def)
  consider "c \<in> {CHR 0x7D, CHR '']''}" | "c \<in> {CHR 0x7B, CHR ''[''}" | "c = CHR '',''" | "c = CHR '':''"
    | "c \<notin> {CHR 0x7D, CHR '']'', CHR 0x7B, CHR ''['', CHR '','', CHR '':''}" by blast
  then show thesis
  proof cases
    case 1
    then have "(c = CHR 0x22) = False" by auto
    with 1 assms show ?thesis
      by (intro that [of "if need then [] else line_break (depth - 1)" "[]" False "if need then depth else depth - 1"])
        (simp_all add: line_break_spaces)
  next
    case 2
    then have "(c = CHR 0x22) = False" "c \<notin> {CHR 0x7D, CHR '']''}" by auto
    with 2 assms sp show ?thesis by (intro that [of ?br "[]" True ?inner]) simp_all
  next
    case 3
    with assms sp show ?thesis
      by (intro that [of ?br "line_break ?inner" False ?inner]) (simp_all add: line_break_spaces)
  next
    case 4
    with assms sp show ?thesis by (intro that [of ?br "'' ''" False ?inner]) simp_all
  next
    case 5
    with assms sp show ?thesis by (intro that [of ?br "[]" False ?inner]) simp_all
  qed
qed

lemma compact_indent: "compact_text q (indent_text q need depth s) = compact_text q s"
proof (induction q s arbitrary: need depth rule: compact_text.induct)
  case (2 q c s)
  note [simp del] = compact_text.simps(2) indent_text.simps(2)
  consider "q" "c = CHR 0x5C" | "q" "c \<noteq> CHR 0x5C" | "\<not> q" "is_space c" | "\<not> q" "\<not> is_space c" by blast
  then show ?case
  proof cases
    case 1
    then show ?thesis
      using "2.IH"(1) by (cases s) (simp_all add: indent_text.simps(2) compact_escape)
  next
    case 2
    then show ?thesis using "2.IH"(2) by (simp add: indent_text.simps(2) compact_quoted)
  next
    case 3
    then show ?thesis using "2.IH"(3) by (simp add: indent_text.simps(2) compact_space)
  next
    case 4
    obtain start gap need' depth' where sp: "list_all is_space start" "list_all is_space gap" "c = CHR 0x22 \<longrightarrow> gap = []"
      and shape: "indent_text False need depth (c # s) = start @ c # gap @ indent_text (c = CHR 0x22) need' depth' s"
      by (rule indent_shape [OF 4(2)]) blast
    have "compact_text (c = CHR 0x22) (gap @ indent_text (c = CHR 0x22) need' depth' s) = compact_text (c = CHR 0x22) s"
      using "2.IH"(4) [OF 4] sp by (cases "c = CHR 0x22") (simp_all add: compact_spaces)
    then show ?thesis using 4 sp by (simp add: shape compact_spaces compact_plain)
  qed
qed simp

lemma pretty_examples:
  "prettyJSON (dq ''{'a':[1,{}],'b':'x y'}'') = dq (''{'' @ line_break 1 @ [CHR 0x22] @ ''a': ['' @ line_break 2 @ ''1,''
     @ line_break 2 @ ''{}'' @ line_break 1 @ ''],'' @ line_break 1 @ [CHR 0x22] @ ''b': 'x y'' @ [CHR 0x22] @ line_break 0 @ ''}'')"
  "compactJSON (dq ''{ 'a' : [ 1 ] , 'b' : 'x y' } '') = dq ''{'a':[1],'b':'x y'}''"
  "prettyJSON ''[1'' = ''[1''"
  by code_simp+

section \<open>What a page shows\<close>

text \<open>A text that compaction passes through, wherever it stands.\<close>

definition tight :: "string \<Rightarrow> bool" where
  "tight t \<longleftrightarrow> (\<forall>r. compact_text False (t @ r) = t @ compact_text False r)"

lemma tightD: "tight t \<Longrightarrow> compact_text False (t @ r) = t @ compact_text False r"
  by (simp add: tight_def)

lemma tight_append: "tight s \<Longrightarrow> tight t \<Longrightarrow> tight (s @ t)"
  by (simp add: tight_def)

lemma tight_chars: "list_all (\<lambda>c. \<not> is_space c \<and> c \<noteq> CHR 0x22) t \<Longrightarrow> tight t"
proof (induction t)
  case (Cons c t)
  then show ?case by (auto simp: tight_def compact_plain simp del: compact_text.simps(2))
qed (simp add: tight_def)

lemma hex_digit_plain: "hex_digit n \<noteq> CHR 0x22" "hex_digit n \<noteq> CHR 0x5C"
proof -
  have "hex_value (CHR 0x22) = None" "hex_value (CHR 0x5C) = None" by (simp_all add: hex_value_def)
  then show "hex_digit n \<noteq> CHR 0x22" "hex_digit n \<noteq> CHR 0x5C" by (metis hex_digit_value option.distinct(1))+
qed

lemma compact_json_char: "compact_text True (json_char c @ r) = json_char c @ compact_text True r"
  by (simp add: json_char_def hex_digit_plain)

lemma compact_json_body: "compact_text True (concat (map json_char s) @ CHR 0x22 # r) = concat (map json_char s) @ CHR 0x22 # compact_text False r"
  by (induction s) (simp_all add: compact_json_char compact_quoted del: compact_text.simps(2))

lemma tight_marshal: "tight (marshal_string s)"
  using compact_json_body [of s]
  by (simp add: tight_def marshal_string_def compact_plain is_space_def del: compact_text.simps(2))

lemma tight_commaed: "(\<And>t. t \<in> set ts \<Longrightarrow> tight t) \<Longrightarrow> tight (commaed ts)"
proof (induction ts rule: commaed.induct)
  case (3 t u ts)
  have "tight '',''" by (rule tight_chars) (simp add: is_space_def)
  with 3 have "tight (t @ '','' @ commaed (u # ts))" by (intro tight_append) simp_all
  then show ?case by simp
qed (simp_all add: tight_chars)

lemma number_char_plain: "number_char c \<Longrightarrow> \<not> is_space c \<and> c \<noteq> CHR 0x22"
  by (auto simp: number_char_def is_space_def is_digit_def)

lemma json_text_tight: "json_ok num v \<Longrightarrow> tight (json_text v)"
proof (induction v)
  case (JNum t)
  then show ?case
    using number_char_plain by (auto simp: fixed_number_def list_all_iff dest!: valid_number_start intro!: tight_chars)
next
  case (JArr vs)
  have b: "tight ''[''" "tight '']''" by (auto intro!: tight_chars simp: is_space_def)
  have "tight (commaed (map json_text vs))"
    using JArr by (intro tight_commaed) (auto simp: list_all_iff)
  with b have "tight (''['' @ commaed (map json_text vs) @ '']'')" by (intro tight_append)
  then show ?case by simp
next
  case (JObj ms)
  have b: "tight [CHR 0x7B]" "tight [CHR 0x7D]" "tight '':''" by (auto intro!: tight_chars simp: is_space_def)
  have "tight (member_text m)" if "m \<in> set ms" for m
  proof -
    have "tight (json_text (snd m))" using JObj that by (cases m) (force simp: list_all_iff)
    then have "tight (marshal_string (fst m) @ '':'' @ json_text (snd m))"
      using b tight_marshal by (intro tight_append)
    then show ?thesis by (simp add: member_text_def)
  qed
  then have "tight (commaed (map member_text ms))" by (intro tight_commaed) auto
  with b have "tight ([CHR 0x7B] @ commaed (map member_text ms) @ [CHR 0x7D])" by (intro tight_append)
  then show ?case by (simp add: object_text del: json_text.simps)
next
  case (JBool b)
  show ?case by (cases b) (auto intro!: tight_chars simp: is_space_def)
qed (auto intro!: tight_chars tight_marshal simp: is_space_def)

lemma json_text_end: "json_ok num v \<Longrightarrow> takeWhile is_space (rev (json_text v)) = []"
proof (cases v)
  case (JNum t)
  moreover assume "json_ok num v"
  ultimately have "t \<noteq> ''''" "list_all number_char t" by (auto simp: fixed_number_def dest: valid_number_start)
  then have "\<not> is_space (last t)" using number_char_plain by (simp add: list_all_iff)
  then show ?thesis using JNum \<open>t \<noteq> ''''\<close> by (cases t rule: rev_cases) simp_all
qed (simp_all add: marshal_string_def is_space_def)

lemma json_ok_literal: "json_ok num v \<Longrightarrow> json_ok Some v"
proof (induction v)
  case (JObj ms)
  then show ?case by (force simp: list_all_iff)
qed (auto simp: fixed_number_def list_all_iff)

lemma shown_text:
  assumes "json_ok num v"
  shows "compactJSON (json_text v) = json_text v" and "compact_text False (prettyJSON (json_text v)) = json_text v"
proof -
  have valid: "json_Valid (json_text v)"
    using json_roundtrip [OF json_ok_literal [OF assms]] by (simp add: json_Valid_def)
  have c: "compact_text False (json_text v) = json_text v"
    using tightD [OF json_text_tight [OF assms], of "[]"] by simp
  show "compactJSON (json_text v) = json_text v" by (simp add: compactJSON_def json_Compact_def valid c)
  show "compact_text False (prettyJSON (json_text v)) = json_text v"
    by (simp add: prettyJSON_def json_Indent_def valid json_text_end [OF assms] compact_indent c)
qed

text \<open>
  C31: Nothing sensitive is shown. When redaction is configured, whatever bytes are stored,
  a page shows a valid document in which every member whose name matches a configured field,
  at any depth, shows the mask; the indented form differs from the compact one in space
  outside strings only; and redacting again changes nothing more.
\<close>

theorem page_masked:
  assumes "number_law num" and "data \<noteq> ''''" and "New_redactor names = Some keys"
    and "shown = template_compactJSON num (New_redactor names) data"
  shows "(\<exists>v. unmarshal_any num shown = Some v \<and> masked keys v)
    \<and> (\<forall>name\<in>set names. normalize name = '''' \<or> normalize name \<in> set keys)
    \<and> compact_text False (template_prettyJSON num (New_redactor names) data) = shown
    \<and> redact_JSON num (New_redactor names) shown = shown"
proof -
  obtain v where v: "redact_JSON num (Some keys) data = json_text v" "json_ok num v" "masked keys v"
    "redact_JSON num (Some keys) (json_text v) = json_text v"
    by (rule redacted [OF assms(1,2)])
  note shown = shown_text [OF v(2)]
  have s: "shown = json_text v"
    using assms(3,4) v(1) shown(1) by (simp add: template_compactJSON_def)
  moreover have "compact_text False (template_prettyJSON num (New_redactor names) data) = json_text v"
    using assms(3) v(1) shown(2) by (simp add: template_prettyJSON_def)
  moreover have "normalize name = '''' \<or> normalize name \<in> set keys" if "name \<in> set names" for name
    using New_redactor_masks [OF that] assms(3) by auto
  ultimately show ?thesis using assms(3) v(3,4) json_roundtrip [OF v(2)] by auto
qed

lemma page_masked_witness:
  "let data = dq ''{'Account-Number':12345,'n':[1]}'';
       shown = template_compactJSON Some (New_redactor [''account_number'']) data
   in shown = dq (''{'Account-Number':'' @ map (\<lambda>c. if c = CHR 0x22 then CHR 0x27 else c) (json_text (JStr Mask)) @ '','n':[1]}'')
     \<and> (\<exists>v. unmarshal_any Some shown = Some v \<and> masked [''accountnumber''] v)"
proof -
  let ?data = "dq ''{'Account-Number':12345,'n':[1]}''"
  have n: "number_law Some" by (simp add: number_law_def fixed_number_def)
  have d: "?data \<noteq> ''''" by (simp add: dq_def)
  have r: "New_redactor [''account_number''] = Some [''accountnumber'']" by code_simp
  have e: "template_compactJSON Some (New_redactor [''account_number'']) ?data =
      dq (''{'Account-Number':'' @ map (\<lambda>c. if c = CHR 0x22 then CHR 0x27 else c) (json_text (JStr Mask)) @ '','n':[1]}'')"
    by code_simp
  show ?thesis using page_masked [OF n d r refl] e by (simp add: Let_def)
qed

end
