(* ===== verification/Console.thy ===== *)
theory Console
  imports Cli Migrations Serving Jsonview
begin

text \<open>
  The process of \<open>cmd/workrail/main.go\<close>: the command line from its first argument to the
  command, with the configuration loaded in between; \<open>migrate\<close>; and what the long-running
  commands hand to the server and the worker. \<open>api\<close> and \<open>worker\<close> end in a value that says what
  would be run: the server is \<open>serve\<close> of \<open>Serving\<close>, the worker \<open>node_step\<close> of \<open>Worker\<close>.
\<close>

section \<open>The server of a configuration\<close>

text \<open>\<open>api.Options\<close>, and what \<open>api.New\<close> keeps of them beside the store.\<close>

record api_options =
  ap_token :: string
  ap_redact :: "string list"

record api_server =
  as_token :: string
  as_redactor :: redactor

definition New_server :: "api_options \<Rightarrow> api_server" where
  "New_server opts = \<lparr>as_token = ap_token opts, as_redactor = New_redactor (ap_redact opts)\<rparr>"

record tracing_options =
  to_service :: string
  to_enabled :: bool
  to_endpoint :: string
  to_insecure :: bool

definition tracingConfig :: "string \<Rightarrow> config \<Rightarrow> tracing_options" where
  "tracingConfig srv cfg =
     (let tc = cf_tracing cfg
      in \<lparr>to_service = srv, to_enabled = tc_enabled tc, to_endpoint = tc_endpoint tc, to_insecure = tc_insecure tc\<rparr>)"

section \<open>Commands\<close>

datatype command_result =
    Usage
  | Printed cli_output
  | Serve_api string api_server tracing_options
  | Run_worker worker string tracing_options

text \<open>\<open>migrate\<close>; \<open>loaded\<close> is \<open>LoadDir\<close> of a directory of the file system.\<close>

definition applied_line :: "applied \<Rightarrow> string list" where
  "applied_line a = [''applied '' @ ap_version a @ '' '' @ ap_name a]"

definition cli_migrate ::
    "(bytes \<Rightarrow> 'y \<Rightarrow> goerr + 'y) \<Rightarrow> senv \<Rightarrow> (string \<Rightarrow> goerr + migration list) \<Rightarrow> string list \<Rightarrow> 'y schema \<Rightarrow>
     (goerr + cli_output) \<times> 'y schema" where
  "cli_migrate exec e loaded args m =
     (case parseMigrateArgs args of
        Inl err \<Rightarrow> (Inl err, m)
      | Inr (cmd, dir) \<Rightarrow>
          if cmd \<noteq> ''up'' then (Inl (New (''unknown migrate command '' @ quoted cmd)), m)
          else (case Up exec e (loaded dir) m of
             (Inl err, m1) \<Rightarrow> (Inl err, m1)
           | (Inr rows, m1) \<Rightarrow>
               (Inr (if rows = [] then Line [''migrations already up to date''] else Table (map applied_line rows)), m1)))"

text \<open>The command line has its own copy of \<open>compactJSON\<close>.\<close>

definition cli_compactJSON :: "bytes \<Rightarrow> bytes" where
  "cli_compactJSON data = (case json_Compact data of None \<Rightarrow> data | Some t \<Rightarrow> t)"

text \<open>What the process is started with.\<close>

record 'y process =
  pr_yaml :: "bytes \<Rightarrow> config \<Rightarrow> goerr + config"
  pr_read :: "string \<Rightarrow> config_file"
  pr_env :: environment
  pr_hostname :: string
  pr_now :: time
  pr_text :: "details \<Rightarrow> bytes"
  pr_exec :: "bytes \<Rightarrow> 'y \<Rightarrow> goerr + 'y"
  pr_senv :: senv
  pr_dir :: "string \<Rightarrow> goerr + migration list"

definition printed ::
    "(goerr + cli_output) \<times> 'x world \<Rightarrow> 'y schema \<Rightarrow> (goerr + command_result) \<times> 'x world \<times> 'y schema" where
  "printed r m = (case r of (Inl err, w) \<Rightarrow> (Inl err, w, m) | (Inr out, w) \<Rightarrow> (Inr (Printed out), w, m))"

definition run_command ::
    "'y process \<Rightarrow> (nat \<Rightarrow> call_env) \<Rightarrow> config \<Rightarrow> string \<Rightarrow> string list \<Rightarrow> 'x world \<times> 'y schema \<Rightarrow>
     (goerr + command_result) \<times> 'x world \<times> 'y schema" where
  "run_command P E cfg cmd args st =
     (case st of (w, m) \<Rightarrow>
        if cmd = ''api'' then
          (Inr (Serve_api (ac_addr (cf_api cfg))
             (New_server \<lparr>ap_token = ac_token (cf_api cfg), ap_redact = cf_redact cfg\<rparr>)
             (tracingConfig ''workrail-api'' cfg)), w, m)
        else if cmd = ''worker'' then
          (Inr (Run_worker (config_worker (pr_hostname P) cfg) (wc_metrics (cf_worker cfg))
             (tracingConfig ''workrail-worker'' cfg)), w, m)
        else if cmd = ''migrate'' then
          (case cli_migrate (pr_exec P) (pr_senv P) (pr_dir P) args m of
             (Inl err, m1) \<Rightarrow> (Inl err, w, m1)
           | (Inr out, m1) \<Rightarrow> (Inr (Printed out), w, m1))
        else if cmd = ''enqueue'' then printed (cli_enqueue E (pr_now P) args w) m
        else if cmd = ''list'' then printed (cli_list E args w) m
        else if cmd = ''dlq'' then printed (cli_dlq E args w) m
        else if cmd = ''inspect'' then printed (cli_inspect cli_compactJSON (pr_text P) E args w) m
        else if cmd = ''cancel'' then printed (cli_cancel E args w) m
        else if cmd = ''replay'' then printed (cli_replay E args w) m
        else if cmd = ''signal'' then printed (cli_signal E args w) m
        else (Inl (New (''unknown command '' @ quoted cmd)), w, m))"

definition cli_run ::
    "'y process \<Rightarrow> (nat \<Rightarrow> call_env) \<Rightarrow> string list \<Rightarrow> 'x world \<times> 'y schema \<Rightarrow>
     (goerr + command_result) \<times> 'x world \<times> 'y schema" where
  "cli_run P E argv st =
     (case parseGlobalArgs argv of
        Inl err \<Rightarrow> (Inl err, st)
      | Inr (path, []) \<Rightarrow> (Inr Usage, st)
      | Inr (path, cmd # args) \<Rightarrow>
          (case Load (pr_yaml P) (pr_read P) (pr_env P) path of
             Inl err \<Rightarrow> (Inl err, st)
           | Inr cfg \<Rightarrow> run_command P E cfg cmd args st))"

section \<open>Facts\<close>

text \<open>A configuration that does not load stops every command before it touches anything.\<close>

lemma bad_config_stops:
  assumes "parseGlobalArgs argv = Inr (path, cmd # args)"
    and "Load (pr_yaml P) (pr_read P) (pr_env P) path = Inl err"
  shows "cli_run P E argv st = (Inl err, st)"
  using assms by (simp add: cli_run_def)

text \<open>
  With the default configuration the process serves without authentication and without
  redaction, and its worker is the documented one.
\<close>

lemma default_process:
  assumes "pr_read P = (\<lambda>_. Missing)" and "pr_env P = Map.empty"
  shows "fst (cli_run P E [''api''] st) =
      Inr (Serve_api '':8080'' \<lparr>as_token = '''', as_redactor = None\<rparr>
        \<lparr>to_service = ''workrail-api'', to_enabled = False, to_endpoint = '''', to_insecure = True\<rparr>)"
proof -
  have l: "Load yaml (\<lambda>_. Missing) Map.empty '''' = Inr Default_config" for yaml
    by code_simp
  have g: "parseGlobalArgs [''api''] = Inr ('''', [''api''])" by code_simp
  have "New_redactor [] = None" by (simp add: New_redactor_def)
  then show ?thesis
    by (simp add: cli_run_def g assms l run_command_def split_beta New_server_def tracingConfig_def Default_config_def)
qed

end
