(* ===== verification/Interface.thy ===== *)
theory Interface
  imports Queries
begin

text \<open>
  The interfaces \<open>StepStore\<close> (\<open>steps.go\<close>) and \<open>Store\<close> (\<open>store.go\<close>) of the engine as records
  of their methods over a state \<open>'d\<close>, the second embedding the first; the PostgreSQL store as
  the value of them its methods make; and that whatever is done through the interface is a
  run of the operations \<open>store_op\<close> over which the properties of the store are stated.
\<close>

section \<open>The interfaces\<close>

type_synonym ('d, 'r) store_method = "'d \<Rightarrow> (goerr + 'r) \<times> 'd"

record 'd StepStore =
  m_GetStep :: "string \<Rightarrow> string \<Rightarrow> ('d, bytes option) store_method"
  m_SaveStep :: "string \<Rightarrow> string \<Rightarrow> string \<Rightarrow> bytes \<Rightarrow> ('d, bytes) store_method"
  m_GetSignalAt :: "string \<Rightarrow> string \<Rightarrow> int \<Rightarrow> ('d, bytes option) store_method"
  m_Enqueue :: "enqueue_request \<Rightarrow> ('d, job \<times> bool) store_method"
  m_GetJob :: "string \<Rightarrow> ('d, job) store_method"

record 'd Store = "'d StepStore" +
  m_Claim :: "claim_options \<Rightarrow> ('d, job list) store_method"
  m_Heartbeat :: "string \<Rightarrow> string \<Rightarrow> duration \<Rightarrow> ('d, unit) store_method"
  m_ListSteps :: "string \<Rightarrow> ('d, step_result list) store_method"
  m_DeadLetterExhausted :: "('d, string list) store_method"
  m_PruneCompleted :: "string \<Rightarrow> duration \<Rightarrow> ('d, int) store_method"
  m_Complete :: "string \<Rightarrow> string \<Rightarrow> bytes \<Rightarrow> ('d, unit) store_method"
  m_Fail :: "string \<Rightarrow> string \<Rightarrow> goerr \<Rightarrow> ('d, unit) store_method"
  m_Suspend :: "string \<Rightarrow> string \<Rightarrow> time \<Rightarrow> int \<Rightarrow> ('d, bool) store_method"
  m_Signal :: "string \<Rightarrow> string \<Rightarrow> bytes \<Rightarrow> string \<Rightarrow> ('d, unit) store_method"
  m_Cancel :: "string \<Rightarrow> ('d, unit) store_method"
  m_RetryDeadLetter :: "string \<Rightarrow> ('d, job) store_method"
  m_Replay :: "string \<Rightarrow> ('d, job) store_method"
  m_Get :: "string \<Rightarrow> ('d, job \<times> event list) store_method"
  m_ListSignals :: "string \<Rightarrow> ('d, signal list) store_method"
  m_RecordEvent :: "string \<Rightarrow> string \<Rightarrow> bytes \<Rightarrow> ('d, unit) store_method"
  m_List :: "list_options \<Rightarrow> ('d, job list) store_method"
  m_QueueDepth :: "('d, (string \<times> string \<times> nat) list) store_method"
  m_ParkedCount :: "('d, nat) store_method"

text \<open>The PostgreSQL store, under the environment of one call.\<close>

definition postgres_store :: "senv \<Rightarrow> db Store" where
  "postgres_store e = \<lparr>m_GetStep = GetStep e, m_SaveStep = SaveStep e, m_GetSignalAt = GetSignalAt e,
     m_Enqueue = Enqueue e, m_GetJob = GetJob e, m_Claim = Claim e, m_Heartbeat = Heartbeat e, m_ListSteps = ListSteps e,
     m_DeadLetterExhausted = DeadLetterExhausted e, m_PruneCompleted = PruneCompleted e, m_Complete = Complete e,
     m_Fail = Fail e, m_Suspend = Suspend e, m_Signal = Signal e, m_Cancel = Cancel e,
     m_RetryDeadLetter = RetryDeadLetter e, m_Replay = Replay e, m_Get = Get e, m_ListSignals = ListSignals e,
     m_RecordEvent = RecordEvent e, m_List = List_jobs e, m_QueueDepth = QueueDepth e, m_ParkedCount = ParkedCount e\<rparr>"

section \<open>Runs through the interface\<close>

text \<open>What one call of some method, with some arguments, may make of the state.\<close>

inductive called :: "'d Store \<Rightarrow> 'd \<Rightarrow> 'd \<Rightarrow> bool" for S where
  "called S d (snd (m_GetStep S i n d))"
| "called S d (snd (m_SaveStep S i w n v d))"
| "called S d (snd (m_GetSignalAt S i n k d))"
| "called S d (snd (m_Enqueue S req d))"
| "called S d (snd (m_GetJob S i d))"
| "called S d (snd (m_Claim S opts d))"
| "called S d (snd (m_Heartbeat S i w lease d))"
| "called S d (snd (m_ListSteps S i d))"
| "called S d (snd (m_DeadLetterExhausted S d))"
| "called S d (snd (m_PruneCompleted S q older d))"
| "called S d (snd (m_Complete S i w res d))"
| "called S d (snd (m_Fail S i w cause d))"
| "called S d (snd (m_Suspend S i w ra version d))"
| "called S d (snd (m_Signal S i n pl key d))"
| "called S d (snd (m_Cancel S i d))"
| "called S d (snd (m_RetryDeadLetter S i d))"
| "called S d (snd (m_Replay S i d))"
| "called S d (snd (m_Get S i d))"
| "called S d (snd (m_ListSignals S i d))"
| "called S d (snd (m_RecordEvent S i ty det d))"
| "called S d (snd (m_List S lo d))"
| "called S d (snd (m_QueueDepth S d))"
| "called S d (snd (m_ParkedCount S d))"

text \<open>A call either reads, or is one of the operations; and every operation is a call.\<close>

lemma called_postgres:
  assumes "called (postgres_store e) d d'"
  shows "d' = d \<or> (\<exists>a. d' = apply_op e a d)"
  using assms
  by (cases; simp add: postgres_store_def reads_pure)
    (metis apply_op.simps)+

lemma operation_called: "called (postgres_store e) d (apply_op e a d)"
  using called.intros [where S = "postgres_store e" and d = d]
  by (cases a) (simp_all add: postgres_store_def)

text \<open>A sequence of calls, each in its environment, is a run of the store.\<close>

inductive calls :: "senv list \<Rightarrow> db \<Rightarrow> db \<Rightarrow> bool" where
  none: "calls [] d d"
| more: "called (postgres_store e) d d1 \<Longrightarrow> calls es d1 d2 \<Longrightarrow> calls (e # es) d d2"

lemma calls_run: "calls es d d' \<Longrightarrow> \<exists>ops. d' = run_ops ops d \<and> set (map fst ops) \<subseteq> set es"
proof (induction rule: calls.induct)
  case (more e d d1 es d2)
  then obtain ops where ops: "d2 = run_ops ops d1" "set (map fst ops) \<subseteq> set es" by blast
  from called_postgres [OF more.hyps(1)] show ?case
  proof
    assume "d1 = d"
    with ops show ?thesis by (intro exI [where x = ops]) auto
  next
    assume "\<exists>a. d1 = apply_op e a d"
    then obtain a where "d1 = apply_op e a d" ..
    with ops show ?thesis by (intro exI [where x = "(e, a) # ops"]) auto
  qed
qed (simp add: exI [where x = "[]"])

end
