(* ===== verification/Outcome.thy ===== *)
theory Outcome
  imports Worker
begin

text \<open>
  What one execution comes to: from the value the workflow returned to the row of the job,
  for every way a workflow can end, as long as the worker still holds the lease and the
  store answers. The parts are the contracts of \<open>Complete\<close>, \<open>Fail\<close> and \<open>Suspend\<close>.
\<close>

section \<open>The three reports\<close>

definition answering :: "senv \<Rightarrow> bool" where
  "answering e \<longleftrightarrow> link e 0 = Acked \<and> link e 1 = Acked"

text \<open>A result the server does not take as JSON is refused and leaves the job leased.\<close>

lemma complete_refused: "jsonb e (if res = '''' then ''{}'' else res) = None \<Longrightarrow> link e 0 = Acked \<Longrightarrow>
  Complete e i w res d = (Inl json_error, d)"
  by (simp add: Complete_def Let_def withTx_def)

definition succeeded_row :: "bytes option \<Rightarrow> job \<Rightarrow> job \<Rightarrow> bool" where
  "succeeded_row stored j k \<longleftrightarrow>
     (case stored of
        None \<Rightarrow> k = j
      | Some r \<Rightarrow> status k = StatusSucceeded \<and> job_result k = Some r \<and> attempt k = attempt j \<and> lease_owner k = None)"

definition parked_row :: "int \<Rightarrow> time \<Rightarrow> job \<Rightarrow> job \<Rightarrow> bool" where
  "parked_row version t j k \<longleftrightarrow>
     (if wake_version j = version
      then status k = StatusQueued \<and> run_after k = t \<and> attempt k = attempt j - 1 \<and> lease_owner k = None
      else k = j)"

definition failed_row :: "goerr \<Rightarrow> job \<Rightarrow> job \<Rightarrow> bool" where
  "failed_row err j k \<longleftrightarrow>
     status k = (if IsPermanent err \<or> max_attempts j \<le> attempt j then StatusDeadLetter else StatusRetrying)
     \<and> job_error k = Some (err_string err) \<and> attempt k = attempt j \<and> lease_owner k = None"

lemma report_success:
  assumes "tables_ok (met E s)" and j: "lookup_job (met E s) (job_id j0) = Some j"
    and held: "held_by (job_id j0) (wk_id w) j" and up: "answering (env_at E s)"
  obtains s' k where "report E w reg j0 (Inr out) s = (Ok (), s')"
    and "lookup_job (wdb s') (job_id j0) = Some k"
    and "succeeded_row (jsonb (env_at E s) (if out = '''' then ''{}'' else out)) j k"
proof (cases "jsonb (env_at E s) (if out = '''' then ''{}'' else out)")
  case None
  then show ?thesis
    using up j by (intro that [of "s\<lparr>wdb := met E s, tick := tick s + 1\<rparr>" j])
      (simp_all add: report_def call_met complete_refused answering_def succeeded_row_def)
next
  case (Some r)
  obtain d' where c: "Complete (env_at E s) (job_id j0) (wk_id w) out (met E s) = (Inr (), d')"
    and l: "lookup_job d' (job_id j0) = Some (complete_row (env_at E s) r j)"
    using complete_accepted [OF assms(1) j held _ _ Some] up by (auto simp: answering_def)
  show ?thesis
    by (rule that [of "s\<lparr>wdb := d', tick := tick s + 1\<rparr>" "complete_row (env_at E s) r j"])
      (simp_all add: report_def call_met c l Some succeeded_row_def, simp add: complete_row_def)
qed

text \<open>A suspension decided on an older wake version is skipped.\<close>

lemma suspend_skipped:
  assumes "tables_ok d" and "lookup_job d i = Some j" and "wake_version j \<noteq> version"
  shows "snd (Suspend e i w ra version d) = d"
proof -
  have "rows_affected (\<lambda>k. held_by i w k \<and> wake_version k = version) d = 0"
    using only_row [OF assms(1,2)] assms(3) by (auto simp: rows_affected_0 held_by_def)
  then show ?thesis by (auto simp: Suspend_def withTx_def split: outcome.split)
qed

lemma report_suspension:
  assumes "db_ok now (met E s)" and j: "lookup_job (met E s) (job_id j0) = Some j"
    and held: "held_by (job_id j0) (wk_id w) j" and up: "answering (env_at E s)"
    and err: "errors_As_suspend err = Some t"
  obtains s' k where "report E w reg j0 (Inl err) s = (Ok (), s')"
    and "lookup_job (wdb s') (job_id j0) = Some k" and "parked_row (wake_version j0) t j k"
proof (cases "wake_version j = wake_version j0")
  case True
  obtain d' k where c: "Suspend (env_at E s) (job_id j0) (wk_id w) t (wake_version j0) (met E s) = (Inr True, d')"
    and l: "lookup_job d' (job_id j0) = Some k" and p: "parked_row (wake_version j0) t j k"
    using suspend_returns_attempt [OF db_okD(1) [OF assms(1)] j held lookup_job_ok [OF assms(1) j] _ True, of "env_at E s" t] up True
    by (auto simp: answering_def parked_row_def)
  show ?thesis
    by (rule that [of "s\<lparr>wdb := d', tick := tick s + 1\<rparr>", OF _ _ p]) (simp_all add: report_def err call_met c l)
next
  case False
  show ?thesis
    by (rule that [of "s\<lparr>wdb := met E s, tick := tick s + 1\<rparr>" j])
      (simp_all add: report_def err call_met suspend_skipped [OF db_okD(1) [OF assms(1)] j False] j parked_row_def False)
qed

section \<open>One execution\<close>

text \<open>The error an execution is reported with: a panic is an error with the stack as its text.\<close>

definition reported :: "string \<Rightarrow> bytes ret \<Rightarrow> goerr + bytes" where
  "reported stack out =
     (case out of
        Ok b \<Rightarrow> Inr b
      | Err err \<Rightarrow> Inl err
      | Panic msg \<Rightarrow> Inl (New (''workflow panic: '' @ msg @ [CHR 0x0A] @ stack)))"

lemma runJob_reported:
  "Execute reg (job_ctx w j0) (workflow_type j0) (payload j0) s = (out, s1) \<Longrightarrow>
   runJob E w reg stack j0 s = report E w reg j0 (reported stack out) s1"
  by (simp add: runJob_def executeSafely_def reported_def split: ret.split)

text \<open>
  C13: What an execution comes to, when its worker still holds the lease and the store answers.
  A result makes the job succeed with the stored form of the result, unless the store refuses
  the text, which leaves the job leased; a suspension puts it back in the queue for the time
  asked, with its attempt returned, unless a signal came since the claim, which leaves it
  leased; any other error, or a panic, retries the job or dead-letters it, as the budget and
  the error say, and then the hook of dead letters is looked up.
\<close>

theorem run_outcome:
  assumes "Execute reg (job_ctx w j0) (workflow_type j0) (payload j0) s = (out, s1)"
    and "db_ok now (met E s1)" and "lookup_job (met E s1) (job_id j0) = Some j"
    and "held_by (job_id j0) (wk_id w) j" and "answering (env_at E s1)"
  shows "\<exists>s2 k. lookup_job (wdb s2) (job_id j0) = Some k \<and>
    (case reported stack out of
       Inr b \<Rightarrow> runJob E w reg stack j0 s = (Ok (), s2)
         \<and> succeeded_row (jsonb (env_at E s1) (if b = '''' then ''{}'' else b)) j k
     | Inl err \<Rightarrow>
         (case errors_As_suspend err of
            Some t \<Rightarrow> runJob E w reg stack j0 s = (Ok (), s2) \<and> parked_row (wake_version j0) t j k
          | None \<Rightarrow> runJob E w reg stack j0 s = compensate E w reg (job_id j0) s2 \<and> failed_row err j k))"
proof -
  note run = runJob_reported [OF assms(1), where E = E and stack = stack]
  note ok = db_okD(1) [OF assms(2)]
  show ?thesis
  proof (cases "reported stack out")
    case (Inr b)
    show ?thesis
      unfolding run Inr sum.case
      by (rule report_success [OF ok assms(3-5), where out = b and reg = reg]) blast
  next
    case (Inl err)
    show ?thesis
    proof (cases "errors_As_suspend err")
      case (Some t)
      show ?thesis
        unfolding run Inl sum.case Some option.case
        by (rule report_suspension [OF assms(2-5) Some, where reg = reg]) blast
    next
      case None
      have up: "link (env_at E s1) 0 = Acked" using assms(5) by (simp add: answering_def)
      obtain d' k where "lookup_job d' (job_id j0) = Some k" "failed_row err j k"
        "report E w reg j0 (Inl err) s1 = compensate E w reg (job_id j0) (s1\<lparr>wdb := d', tick := tick s1 + 1\<rparr>)"
        using report_failure [OF ok assms(3,4) None, where reg = reg] up unfolding failed_row_def by metis
      then show ?thesis
        unfolding run Inl sum.case None option.case
        by (intro exI [where x = "s1\<lparr>wdb := d', tick := tick s1 + 1\<rparr>"] exI [where x = k]) simp
    qed
  qed
qed

text \<open>A worker with the built-in echo activity runs the sample job.\<close>

definition echo_registry :: "unit world registry" where
  "echo_registry = RegisterActivity ''echo'' echoWorkflow
     \<lparr>workflows = (\<lambda>_. None), activities = (\<lambda>_. None), compensations = (\<lambda>_. None)\<rparr>"

lemma run_outcome_witness:
  "\<exists>s2 k. runJob quiet sample_worker echo_registry ''goroutine 1'' sample_job sample_world = (Ok (), s2)
    \<and> lookup_job (wdb s2) ''j1'' = Some k \<and> status k = StatusSucceeded \<and> job_result k = Some (payload sample_job)
    \<and> attempt k = 1"
proof -
  have p: "payload sample_job \<noteq> ''''" "attempt sample_job = 1" by (simp_all add: sample_job_def)
  have e: "Execute echo_registry (job_ctx sample_worker sample_job) (workflow_type sample_job) (payload sample_job) sample_world
      = (Ok (payload sample_job), sample_world)"
    by (simp add: Execute_def echo_registry_def RegisterActivity_def echoWorkflow_def p sample_job_def)
  have m: "met quiet sample_world = sample_db" "env_at quiet sample_world = plain_env 41 ''j8''"
    by (simp_all add: met_quiet sample_world_def)
  have i: "job_id sample_job = ''j1''" by (simp add: sample_job_def)
  have h: "held_by ''j1'' (wk_id sample_worker) sample_job"
    by (simp add: held_by_def sample_job_def sample_worker_def)
  have up: "answering (plain_env 41 ''j8'')" by (simp add: answering_def)
  from run_outcome [where E = quiet and stack = "''goroutine 1''", OF e, unfolded m i, OF sample_db_ok sample_lookup h up] p
  show ?thesis by (auto simp: reported_def succeeded_row_def)
qed

end
