(* ===== verification/Embedded.thy ===== *)
theory Embedded
  imports Client Structs
begin

text \<open>
  The example of \<open>examples/embedded/main.go\<close>: one workflow with two steps on the SDK, the
  job it enqueues and the worker it starts. What the workflow does to the outside is the log
  line of its second step; the \<open>outside\<close> of a world is the list of greetings logged so far.
\<close>

section \<open>The workflow\<close>

record greet_payload =
  gp_name :: string

definition greet_fields :: "(string \<times> greet_payload setter) list" where
  "greet_fields = [(''name'', string_field (\<lambda>s p. p\<lparr>gp_name := s\<rparr>))]"

definition enc_greet :: "greet_payload \<Rightarrow> goerr + bytes" where
  "enc_greet p = Inr (json_object [(''name'', marshal_string (gp_name p))])"

text \<open>The function of the step \<open>deliver\<close>: it logs the greeting.\<close>

definition deliver :: "string \<Rightarrow> ctx \<Rightarrow> string list world \<Rightarrow> bool ret \<times> string list world" where
  "deliver greeting c w = (Ok True, w\<lparr>outside := outside w @ [greeting]\<rparr>)"

definition greetWorkflow :: "(nat \<Rightarrow> call_env) \<Rightarrow> string list world workflow" where
  "greetWorkflow E c pl w =
     (case Unmarshal greet_fields pl \<lparr>gp_name = ''''\<rparr> of
        (False, _) \<Rightarrow> (Err decode_error, w)
      | (True, p) \<Rightarrow>
          (case Step (postgres E) enc_text dec_text c ''compose'' (\<lambda>_ w. (Ok (''hello '' @ gp_name p), w)) w of
             (Panic msg, w1) \<Rightarrow> (Panic msg, w1)
           | (Err err, w1) \<Rightarrow> (Err err, w1)
           | (Ok greeting, w1) \<Rightarrow>
               (case Step (postgres E) enc_bool dec_bool c ''deliver'' (deliver greeting) w1 of
                  (Panic msg, w2) \<Rightarrow> (Panic msg, w2)
                | (Err err, w2) \<Rightarrow> (Err err, w2)
                | (Ok _, w2) \<Rightarrow> (Ok (json_object [(''greeting'', marshal_string greeting)]), w2))))"

section \<open>The program\<close>

definition embedded_worker :: "string \<Rightarrow> worker" where
  "embedded_worker hostname = worker_of_options hostname
     \<lparr>wk_id = '''', wk_queue = ''default'', wk_poll = 0, wk_lease = 30 * second, wk_shutdown = 0,
      wk_retention = 7 * 24 * 60 * minute, wk_concurrency = 2\<rparr>"

text \<open>
  \<open>main\<close> up to the call of \<open>RunWorker\<close>: an error ends the process; otherwise the job, whether
  it is new, the registry and the worker that runs from here on.
\<close>

definition embedded_main ::
    "(string \<Rightarrow> goerr + 'st) \<Rightarrow> string list world registry \<Rightarrow> (nat \<Rightarrow> call_env) \<Rightarrow> string \<Rightarrow> string \<Rightarrow>
     string list world \<Rightarrow> (goerr + job \<times> bool \<times> string list world registry \<times> worker) \<times> string list world" where
  "embedded_main connect fresh E hostname database_url w =
     (case Open connect fresh database_url of
        Inl err \<Rightarrow> (Inl err, w)
      | Inr client \<Rightarrow>
          (let reg = client_register ''greet'' (greetWorkflow E) (cl_registry client)
           in case EnqueueJSON E enc_greet ''greet'' \<lparr>gp_name = ''workrail''\<rparr>
                [WithIdempotencyKey ''greet-example'', WithMaxAttempts 3] w of
                (Inl err, w1) \<Rightarrow> (Inl err, w1)
              | (Inr (j, inserted), w1) \<Rightarrow> (Inr (j, inserted, reg, embedded_worker hostname), w1)))"

section \<open>Greeting once\<close>

lemma world_later_outside: "world_later E i js w (w'\<lparr>outside := x\<rparr>) \<longleftrightarrow> world_later E i js w w'"
  by (simp add: world_later_def world_valid_def)

text \<open>The two step functions as \<open>RunStep\<close> is given them, and what they do to a world.\<close>

definition compose_fn :: "string \<Rightarrow> string list world step_fn" where
  "compose_fn name = marshaled enc_text (\<lambda>_ w. (Ok (''hello '' @ name), w))"

definition deliver_fn :: "string \<Rightarrow> string list world step_fn" where
  "deliver_fn greeting = marshaled enc_bool (deliver greeting)"

lemma step_fns:
  "compose_fn name c w = (Ok (marshal_string (''hello '' @ name)), w)"
  "deliver_fn greeting c w = (Ok ''true'', w\<lparr>outside := outside w @ [greeting]\<rparr>)"
  by (simp_all add: compose_fn_def deliver_fn_def marshaled_def enc_text_def enc_bool_def deliver_def)

lemma step_fns_evolve: "pg.evolves E i js (compose_fn name)" "pg.evolves E i js (deliver_fn greeting)"
  by (simp_all add: pg.evolves_def step_fns world_later_outside world_later_refl)

lemma greet_Ok:
  assumes "greetWorkflow E c pl w = (Ok out, w2)"
  obtains p raw greeting w1 raw2 b where "Unmarshal greet_fields pl \<lparr>gp_name = ''''\<rparr> = (True, p)"
    and "RunStep (postgres E) c ''compose'' (compose_fn (gp_name p)) w = (Ok raw, w1)" and "dec_text raw = Inr greeting"
    and "RunStep (postgres E) c ''deliver'' (deliver_fn greeting) w1 = (Ok raw2, w2)" and "dec_bool raw2 = Inr b"
    and "out = json_object [(''greeting'', marshal_string greeting)]"
proof -
  obtain p where p: "Unmarshal greet_fields pl \<lparr>gp_name = ''''\<rparr> = (True, p)"
    using assms by (auto simp: greetWorkflow_def split: prod.splits bool.splits)
  obtain o1 w1 where s1: "Step (postgres E) enc_text dec_text c ''compose'' (\<lambda>_ w. (Ok (''hello '' @ gp_name p), w)) w = (o1, w1)"
    by fastforce
  then obtain greeting where o1: "o1 = Ok greeting" using assms p by (auto simp: greetWorkflow_def split: ret.splits)
  obtain o2 w2' where s2: "Step (postgres E) enc_bool dec_bool c ''deliver'' (deliver greeting) w1 = (o2, w2')" by fastforce
  then obtain b where "o2 = Ok b" and o2: "w2' = w2" "out = json_object [(''greeting'', marshal_string greeting)]"
    using assms p s1 o1 by (auto simp: greetWorkflow_def split: ret.splits)
  then show ?thesis
    using that [OF p _ _ _ _ o2(2)] s1 s2 o1 unfolding compose_fn_def deliver_fn_def by (auto simp: Step_Ok)
qed

text \<open>A job that is gone does not come back.\<close>

lemma gone_later:
  assumes "world_later E i js w w'" and "world_valid E i js w" and "lookup_job (wdb w) i = None"
  shows "lookup_job (wdb w') i = None"
proof -
  obtain ops where "clocked (call_start E (tick w)) ops" "fresh_run i ops" "wdb w' = run_ops ops (wdb w)"
    using assms(1,2) by (auto simp: world_later_def)
  then show ?thesis using run_ops_absent assms(2,3) by (auto simp: world_valid_def)
qed

text \<open>A run that finds both steps recorded repeats neither.\<close>

lemma greet_replays:
  assumes "ctx_runner c = Some r" and "rn_job r = i" and v: "world_valid E i js s" and l: "world_later E i js s w"
    and rec: "lookup_step (wdb s) i (scope r ''compose'') = Some x" "lookup_step (wdb s) i (scope r ''deliver'') = Some y"
    and dec: "dec_text x = Inr greeting" "dec_bool y = Inr b" and run: "greetWorkflow E c pl w = (out, w')"
    and there: "lookup_job (met E (after_read E w)) i \<noteq> None"
  shows "outside w' = outside w \<and>
    (if fst (Unmarshal greet_fields pl \<lparr>gp_name = ''''\<rparr>) \<and> link (env_at E w) 0 = Acked
        \<and> link (env_at E (after_read E w)) 0 = Acked
     then out = Ok (json_object [(''greeting'', marshal_string greeting)]) else \<exists>err. out = Err err)"
proof -
  have read: "w'' = after_read E u \<and> (isl q \<longleftrightarrow> link (env_at E u) 0 \<noteq> Acked)"
    if "get_step (postgres E) i n u = (q, w'')" for n u q and w'' :: "string list world"
    using that read_GetStep [of E i n u q w''] by simp
  note unfold = greetWorkflow_def Step_def decoded_def dec
  show ?thesis
  proof (rule pg.run_step_replays [OF assms(1-3) rec(1) l], goal_cases)
    case (1 w1)
    have w1: "w1 = after_read E w" "link (env_at E w) 0 = Acked" using read [OF 1(3)] by simp_all
    show ?case
    proof (rule pg.run_step_replays [OF assms(1-3) rec(2) pg.later_trans [OF l 1(2)]], goal_cases)
      case (1 w2)
      then show ?case using run \<open>\<And>fn. RunStep (postgres E) c ''compose'' fn w = (Ok x, w1)\<close> read [OF 1(3)] w1
        by (auto simp: unfold split: prod.splits bool.splits)
    next
      case (2 err w2 e)
      then show ?case using run \<open>\<And>fn. RunStep (postgres E) c ''compose'' fn w = (Ok x, w1)\<close> read [OF 2(4)] w1
        by (auto simp: unfold split: prod.splits bool.splits)
    next
      case (3 w2 q)
      then show ?case using there read [OF 3(3)] w1 by simp
    qed
  next
    case (2 err w1 e)
    then show ?case using run read [OF 2(4)] by (auto simp: unfold split: prod.splits bool.splits)
  next
    case (3 w1 q)
    have "world_valid E i js w1" using pg.later_valid [OF pg.later_trans [OF l 3(2)] v] .
    moreover have "get_step (postgres E) i '''' w1
        = (fst (GetStep (env_at E w1) i '''' (met E w1)), after_read E w1)"
      by (simp add: call_reads [where f = "\<lambda>e. GetStep e i ''''"] reads_pure)
    then have "world_later E i js w1 (after_read E w1)" by (rule pg.get_later)
    ultimately have "lookup_job (wdb (after_read E w1)) i = None" using gone_later 3(1) by blast
    then show ?case using there read [OF 3(3)] by simp
  qed
qed

text \<open>A checkpoint belongs to a job of the table.\<close>

lemma recorded_job:
  assumes "tables_ok d" and "lookup_step d i name = Some x"
  shows "lookup_job d i \<noteq> None"
proof -
  obtain st where "row_at step_key (i, name) (job_steps d) = Some st" using assms(2) by (auto simp: lookup_step_def)
  then have "st \<in> set (job_steps d)" "st_job st = i"
    using row_at_in row_at_key by (fastforce simp: step_key_def)+
  then show ?thesis using assms(1) by (auto simp: tables_ok_def steps_ok_def lookup_job_None)
qed

text \<open>A run that succeeds has recorded both steps, and has logged at most one greeting.\<close>

lemma greet_records:
  assumes "ctx_runner c = Some r" and "rn_job r = i" and "world_valid E i js w"
    and keeps: "\<And>u v t. js u = Some v \<Longrightarrow> dec_text u = Inr t \<Longrightarrow> dec_text v = Inr t"
    and keeps_bool: "\<And>u v b. js u = Some v \<Longrightarrow> dec_bool u = Inr b \<Longrightarrow> dec_bool v = Inr b"
    and "greetWorkflow E c pl w = (Ok out, w2)"
  obtains x y greeting b where "world_later E i js w w2"
    and "lookup_step (wdb w2) i (scope r ''compose'') = Some x" and "lookup_step (wdb w2) i (scope r ''deliver'') = Some y"
    and "dec_text x = Inr greeting" and "dec_bool y = Inr b"
    and "out = json_object [(''greeting'', marshal_string greeting)]"
    and "outside w2 = outside w \<or> outside w2 = outside w @ [greeting]"
proof (rule greet_Ok [OF assms(6)])
  fix p raw greeting w1 raw2 b
  assume compose: "RunStep (postgres E) c ''compose'' (compose_fn (gp_name p)) w = (Ok raw, w1)"
    and deliver: "RunStep (postgres E) c ''deliver'' (deliver_fn greeting) w1 = (Ok raw2, w2)"
    and g: "dec_text raw = Inr greeting" "dec_bool raw2 = Inr b" and out: "out = json_object [(''greeting'', marshal_string greeting)]"
  note ev = step_fns_evolve [of E i js]
  have l1: "world_later E i js w w1" by (rule pg.run_step_later [OF assms(1,2) ev(1) compose])
  have l2: "world_later E i js w1 w2" by (rule pg.run_step_later [OF assms(1,2) ev(2) deliver])
  have v1: "world_valid E i js w1" by (rule pg.later_valid [OF l1 assms(3)])
  obtain x where x: "lookup_step (wdb w1) i (scope r ''compose'') = Some x" "raw = x \<or> js raw = Some x"
    using pg.run_step_records [OF assms(1,2) ev(1) assms(3) compose] by blast
  obtain y where y: "lookup_step (wdb w2) i (scope r ''deliver'') = Some y" "raw2 = y \<or> js raw2 = Some y"
    using pg.run_step_records [OF assms(1,2) ev(2) v1 deliver] by blast
  have "tables_ok (wdb w2)"
    using pg.later_valid [OF l2 v1] by (auto simp: world_valid_def dest: db_okD(1))
  then have "lookup_job (wdb w2) i \<noteq> None" using recorded_job y(1) by blast
  with pg.later_step [OF l2 v1 x(1)] have x2: "lookup_step (wdb w2) i (scope r ''compose'') = Some x"
    by (elim disjE) simp_all
  have d: "dec_text x = Inr greeting" "dec_bool y = Inr b" using x(2) y(2) g keeps keeps_bool by blast+
  have "outside w1 = outside w" by (rule RunStep_outside [OF compose]) (simp_all add: step_fns)
  moreover have "outside w2 = outside w1 \<or> outside w2 = outside w1 @ [greeting]"
    by (rule RunStep_outside [OF deliver]) (simp_all add: step_fns)
  ultimately have "outside w2 = outside w \<or> outside w2 = outside w @ [greeting]" by simp
  with that [OF pg.later_trans [OF l1 l2] x2 y(1) d out] show thesis by blast
qed

text \<open>
  C30: A job greets once. When a run of the example's workflow has succeeded, it has logged
  at most one greeting, and every later run of the job, by whatever worker and whatever happened
  in between, logs nothing more: it returns the same result when its payload decodes and the
  reads of the two checkpoints are answered, and otherwise fails. The job must still be there
  when the second checkpoint is read, and \<open>jsonb\<close> must keep what JSON texts and booleans
  denote.
\<close>

theorem greet_once:
  assumes "world_valid E i js w" and "ctx_runner c = Some r" and "rn_job r = i"
    and "\<And>u v t. js u = Some v \<Longrightarrow> dec_text u = Inr t \<Longrightarrow> dec_text v = Inr t"
    and "\<And>u v b. js u = Some v \<Longrightarrow> dec_bool u = Inr b \<Longrightarrow> dec_bool v = Inr b"
    and "greetWorkflow E c pl w = (Ok out, w1)" and "world_later E i js w1 w2"
    and "ctx_runner c' = Some r'" and "rn_job r' = i" and "scope r' = scope r"
    and "greetWorkflow E c' pl' w2 = (out', w3)" and "lookup_job (met E (after_read E w2)) i \<noteq> None"
  shows "(\<exists>greeting. out = json_object [(''greeting'', marshal_string greeting)]
      \<and> (outside w1 = outside w \<or> outside w1 = outside w @ [greeting]))
    \<and> outside w3 = outside w2
    \<and> (if fst (Unmarshal greet_fields pl' \<lparr>gp_name = ''''\<rparr>) \<and> link (env_at E w2) 0 = Acked
         \<and> link (env_at E (after_read E w2)) 0 = Acked
       then out' = Ok out else \<exists>err. out' = Err err)"
proof (rule greet_records [OF assms(2,3,1,4,5,6)])
  fix x y greeting b
  assume l: "world_later E i js w w1" and x: "lookup_step (wdb w1) i (scope r ''compose'') = Some x"
    and y: "lookup_step (wdb w1) i (scope r ''deliver'') = Some y" and d: "dec_text x = Inr greeting" "dec_bool y = Inr b"
    and o: "out = json_object [(''greeting'', marshal_string greeting)]"
    and "outside w1 = outside w \<or> outside w1 = outside w @ [greeting]"
  moreover have "outside w3 = outside w2
    \<and> (if fst (Unmarshal greet_fields pl' \<lparr>gp_name = ''''\<rparr>) \<and> link (env_at E w2) 0 = Acked
         \<and> link (env_at E (after_read E w2)) 0 = Acked
       then out' = Ok out else \<exists>err. out' = Err err)"
    unfolding o
    by (rule greet_replays [OF assms(8,9) pg.later_valid [OF l assms(1)] assms(7) _ _ d assms(11,12)])
      (simp_all add: assms(10) x y)
  ultimately show ?thesis by blast
qed auto

text \<open>Two runs of the sample job, one after the other: the log has one line.\<close>

definition greet_world :: "string list world" where
  "greet_world = \<lparr>wdb = sample_db, tick = 1, outside = []\<rparr>"

definition greet_bytes :: bytes where
  "greet_bytes = [CHR ''{''] @ marshal_string ''name'' @ '':'' @ marshal_string ''ada'' @ [CHR ''}'']"

lemma greet_once_witness:
  "let r = greetWorkflow quiet sample_ctx greet_bytes greet_world; r' = greetWorkflow quiet sample_ctx greet_bytes (snd r)
   in fst r = Ok (json_object [(''greeting'', marshal_string ''hello ada'')]) \<and> outside (snd r) = [''hello ada'']
     \<and> outside (snd r') = outside (snd r) \<and> fst r' = fst r"
proof -
  let ?r = "greetWorkflow quiet sample_ctx greet_bytes greet_world"
  let ?r' = "greetWorkflow quiet sample_ctx greet_bytes (snd ?r)"
  have o: "fst ?r = Ok (json_object [(''greeting'', marshal_string ''hello ada'')])" "outside (snd ?r) = [''hello ada'']"
    by code_simp+
  have v: "world_valid quiet ''j1'' Some greet_world"
    using sample_world_valid by (simp add: world_valid_def greet_world_def sample_world_def)
  have r: "?r = (Ok (json_object [(''greeting'', marshal_string ''hello ada'')]), snd ?r)" using o(1) by (simp add: prod_eq_iff)
  have r': "?r' = (fst ?r', snd ?r')" by simp
  have there: "lookup_job (met quiet (after_read quiet (snd ?r))) ''j1'' \<noteq> None" by code_simp
  have p: "fst (Unmarshal greet_fields greet_bytes \<lparr>gp_name = ''''\<rparr>)" by code_simp
  have l: "link (env_at quiet w) 0 = Acked" for w :: "string list world" by (simp add: env_at_def quiet_def)
  show ?thesis
    unfolding Let_def
    using greet_once [OF v sample_ctx_runner sample_runner_job _ _ r world_later_refl sample_ctx_runner
        sample_runner_job refl r' there] o p l by simp
qed

end
