(* ===== verification/Metrics.thy ===== *)
theory Metrics
  imports Console
begin

text \<open>
  The metrics and the tracing set-up of \<open>internal/observability/observability.go\<close>, and the
  places of \<open>server.go\<close> and \<open>worker.go\<close> that record. The Prometheus client is a table of
  series, a metric with its label values, each with a number: the count of a counter or of
  a histogram's observations, the level of a gauge. Values are exact, where the client's
  \<open>float64\<close> is exact up to \<open>2 ^ 53\<close>. \<open>net/url\<close>'s parser, the exporter of OpenTelemetry and
  the outcome of a registration are arguments.
\<close>

section \<open>Metrics\<close>

datatype metric =
    JobsEnqueued | JobsClaimed | JobsSucceeded | JobsFailed | JobHeartbeats | WorkerInFlightJobs
  | WorkerConfiguredConcurrency | HTTPRequests | HTTPRequestDuration

primrec metric_name :: "metric \<Rightarrow> string" where
  "metric_name JobsEnqueued = ''workrail_jobs_enqueued_total''"
| "metric_name JobsClaimed = ''workrail_jobs_claimed_total''"
| "metric_name JobsSucceeded = ''workrail_jobs_succeeded_total''"
| "metric_name JobsFailed = ''workrail_jobs_failed_total''"
| "metric_name JobHeartbeats = ''workrail_job_heartbeats_total''"
| "metric_name WorkerInFlightJobs = ''workrail_worker_inflight_jobs''"
| "metric_name WorkerConfiguredConcurrency = ''workrail_worker_configured_concurrency''"
| "metric_name HTTPRequests = ''workrail_http_requests_total''"
| "metric_name HTTPRequestDuration = ''workrail_http_request_duration_seconds''"

primrec label_names :: "metric \<Rightarrow> string list" where
  "label_names JobsEnqueued = [''queue'', ''workflow_type'']"
| "label_names JobsClaimed = [''queue'', ''workflow_type'']"
| "label_names JobsSucceeded = [''queue'', ''workflow_type'']"
| "label_names JobsFailed = [''queue'', ''workflow_type'']"
| "label_names JobHeartbeats = [''queue'']"
| "label_names WorkerInFlightJobs = [''queue'', ''workflow_type'']"
| "label_names WorkerConfiguredConcurrency = [''worker_id'', ''queue'']"
| "label_names HTTPRequests = [''method'', ''path'', ''status'']"
| "label_names HTTPRequestDuration = [''method'', ''path'']"

type_synonym series = "metric \<times> string list"
type_synonym gathered = "series \<rightharpoonup> int"

datatype sample = Inc series | Dec series | Set_to series int | Observe series duration

primrec sample_series :: "sample \<Rightarrow> series" where
  "sample_series (Inc k) = k"
| "sample_series (Dec k) = k"
| "sample_series (Set_to k n) = k"
| "sample_series (Observe k d) = k"

definition level :: "gathered \<Rightarrow> series \<Rightarrow> int" where
  "level g k = (case g k of None \<Rightarrow> 0 | Some n \<Rightarrow> n)"

primrec sampled :: "sample \<Rightarrow> gathered \<Rightarrow> int" where
  "sampled (Inc k) g = level g k + 1"
| "sampled (Dec k) g = level g k - 1"
| "sampled (Set_to k n) g = n"
| "sampled (Observe k d) g = level g k + 1"

text \<open>\<open>WithLabelValues\<close> panics (None) when the number of values is not that of the
  names; it would also refuse a value that is no UTF-8, and label values are taken to be.\<close>

definition record_sample :: "sample \<Rightarrow> gathered \<Rightarrow> gathered option" where
  "record_sample s g =
     (if length (snd (sample_series s)) = length (label_names (fst (sample_series s)))
      then Some (g(sample_series s \<mapsto> sampled s g)) else None)"

primrec record_all :: "sample list \<Rightarrow> gathered \<Rightarrow> gathered option" where
  "record_all [] g = Some g"
| "record_all (s # ss) g = (case record_sample s g of None \<Rightarrow> None | Some g' \<Rightarrow> record_all ss g')"

section \<open>The HTTP middleware\<close>

text \<open>The patterns of \<open>routes\<close>, which the multiplexer leaves in \<open>r.Pattern\<close>.\<close>

fun pattern :: "handler \<Rightarrow> string" where
  "pattern HEnqueue = ''POST /jobs''"
| "pattern HList = ''GET /jobs''"
| "pattern HDeadLetters = ''GET /dlq''"
| "pattern (HInspect i) = ''GET /jobs/{id}''"
| "pattern (HCancel i) = ''POST /jobs/{id}/cancel''"
| "pattern (HReplay i) = ''POST /jobs/{id}/replay''"
| "pattern (HRetry i) = ''POST /jobs/{id}/retry''"
| "pattern (HSignal i) = ''POST /jobs/{id}/signals''"
| "pattern (HListSignals i) = ''GET /jobs/{id}/signals''"
| "pattern HMetrics = ''GET /metrics''"
| "pattern HHealthz = ''GET /healthz''"
| "pattern HRoot = ''GET /{$}''"
| "pattern HUiOverview = ''GET /ui''"
| "pattern HUiJobs = ''GET /ui/jobs''"
| "pattern (HUiJob i) = ''GET /ui/jobs/{id}''"
| "pattern (HUiRetry i) = ''POST /ui/jobs/{id}/retry''"
| "pattern (HUiCancel i) = ''POST /ui/jobs/{id}/cancel''"
| "pattern (HUiReplay i) = ''POST /ui/jobs/{id}/replay''"
| "pattern (HUiSignal i) = ''POST /ui/jobs/{id}/signal''"
| "pattern HUiLoginForm = ''GET /ui/login''"
| "pattern HUiLogin = ''POST /ui/login''"
| "pattern HUiLogout = ''POST /ui/logout''"

definition matched_pattern :: "request \<Rightarrow> string" where
  "matched_pattern r = (case route (req_method r) (req_path r) of None \<Rightarrow> '''' | Some h \<Rightarrow> pattern h)"

text \<open>The status recorder: the last code given to \<open>WriteHeader\<close>, 200 before any.\<close>

definition WriteHeader :: "int \<Rightarrow> int \<Rightarrow> int" where
  "WriteHeader code recorded = code"

primrec written_headers :: "reply \<Rightarrow> int list" where
  "written_headers (Json resp) = [fst resp]"
| "written_headers (Page code p) = [code]"
| "written_headers (Plain code t) = [code]"
| "written_headers (Redirect url c) = [303]"

text \<open>A handler answers, changes the state and records samples.\<close>

type_synonym 'st measured = "request \<Rightarrow> 'st \<Rightarrow> reply \<times> 'st \<times> sample list"

definition HTTPMetrics :: "duration \<Rightarrow> 'st measured \<Rightarrow> 'st measured" where
  "HTTPMetrics elapsed handler r st =
     (case handler r st of (rep, st1, ss) \<Rightarrow>
        (let status = fold WriteHeader (written_headers rep) 200;
             rt = (if matched_pattern r = '''' then ''unmatched'' else matched_pattern r)
         in (rep, st1, ss @
              [Inc (HTTPRequests, [req_method r, rt, int_str status]),
               Observe (HTTPRequestDuration, [req_method r, rt]) elapsed])))"

text \<open>The handler of an enqueue counts the job it answers with.\<close>

definition enqueue_samples :: "request \<Rightarrow> reply \<Rightarrow> sample list" where
  "enqueue_samples r rep =
     (case (route (req_method r) (req_path r), rep) of
        (Some HEnqueue, Json (_, AJob j)) \<Rightarrow> [Inc (JobsEnqueued, [queue j, workflow_type j])]
      | _ \<Rightarrow> [])"

definition measured_dispatch :: "site \<Rightarrow> (nat \<Rightarrow> call_env) \<Rightarrow> time \<Rightarrow> 'x service measured" where
  "measured_dispatch S E now r st =
     (case dispatch S E now r st of (rep, st1) \<Rightarrow> (rep, st1, enqueue_samples r rep))"

text \<open>\<open>Handler\<close>: authentication stands before the middleware.\<close>

definition measured_serve ::
    "site \<Rightarrow> (nat \<Rightarrow> call_env) \<Rightarrow> time \<Rightarrow> duration \<Rightarrow> 'x service measured" where
  "measured_serve S E now elapsed r st =
     (if auth (sv_url_host S) (sv_session S) (sv_token S) r = Next
      then HTTPMetrics elapsed (measured_dispatch S E now) r st
      else (case serve S E now r st of (rep, st1) \<Rightarrow> (rep, st1, [])))"

text \<open>A visit is a request with the time it is handled and how long that takes.\<close>

type_synonym visit = "time \<times> duration \<times> request"

primrec measured_run ::
    "site \<Rightarrow> (nat \<Rightarrow> call_env) \<Rightarrow> visit list \<Rightarrow> 'x service \<times> gathered \<Rightarrow> ('x service \<times> gathered) option" where
  "measured_run S E [] sg = Some sg"
| "measured_run S E (v # vs) sg =
     (case v of (now, elapsed, r) \<Rightarrow>
        (case measured_serve S E now elapsed r (fst sg) of (rep, st1, ss) \<Rightarrow>
           (case record_all ss (snd sg) of
              None \<Rightarrow> None
            | Some g1 \<Rightarrow> measured_run S E vs (st1, g1))))"

section \<open>The worker's samples\<close>

definition job_series :: "metric \<Rightarrow> job \<Rightarrow> series" where
  "job_series m j = (m, [queue j, workflow_type j])"

definition start_samples :: "worker \<Rightarrow> sample list" where
  "start_samples w = [Set_to (WorkerConfiguredConcurrency, [wk_id w, wk_queue w]) (wk_concurrency w)]"

definition claim_samples :: "job list \<Rightarrow> sample list" where
  "claim_samples js = map (\<lambda>j. Inc (job_series JobsClaimed j)) js"

text \<open>The heartbeat loop counts the beats that are acknowledged.\<close>

fun beat_samples :: "job \<Rightarrow> ((goerr + unit) \<times> time) list \<Rightarrow> sample list" where
  "beat_samples j [] = []"
| "beat_samples j ((Inr u, now) # beats) = Inc (JobHeartbeats, [queue j]) # beat_samples j beats"
| "beat_samples j ((Inl err, now) # beats) = beat_samples j beats"

text \<open>What \<open>runJob\<close> records with its terminal write.\<close>

definition report_samples ::
    "(nat \<Rightarrow> call_env) \<Rightarrow> worker \<Rightarrow> job \<Rightarrow> goerr + bytes \<Rightarrow> 'x world \<Rightarrow> sample list" where
  "report_samples E w j res s =
     (case res of
        Inl err \<Rightarrow>
          (case errors_As_suspend err of
             Some t \<Rightarrow> []
           | None \<Rightarrow>
               (case fst (call E (\<lambda>e. Fail e (job_id j) (wk_id w) err) s) of
                  Inl _ \<Rightarrow> []
                | Inr _ \<Rightarrow> [Inc (job_series JobsFailed j)]))
      | Inr out \<Rightarrow>
          (case fst (call E (\<lambda>e. Complete e (job_id j) (wk_id w) out) s) of
             Inl _ \<Rightarrow> []
           | Inr _ \<Rightarrow> [Inc (job_series JobsSucceeded j)]))"

text \<open>The gauge goes up when a job starts and down, deferred, when its goroutine is through.\<close>

datatype job_moment = Begin job | Finish job

primrec moment_sample :: "job_moment \<Rightarrow> sample" where
  "moment_sample (Begin j) = Inc (job_series WorkerInFlightJobs j)"
| "moment_sample (Finish j) = Dec (job_series WorkerInFlightJobs j)"

section \<open>Queue depths\<close>

datatype registration = Registered | AlreadyRegistered | Refused goerr

record 'r collectors =
  known_readers :: "'r list"
  live_collectors :: "'r list"
  handled :: "goerr list"

definition RegisterQueueDepthCollector ::
    "('r \<Rightarrow> registration) \<Rightarrow> 'r option \<Rightarrow> 'r collectors \<Rightarrow> 'r collectors" where
  "RegisterQueueDepthCollector register reader c =
     (case reader of
        None \<Rightarrow> c
      | Some rd \<Rightarrow>
          if rd \<in> set (known_readers c) then c
          else let c = c\<lparr>known_readers := known_readers c @ [rd]\<rparr>
               in case register rd of
                    Registered \<Rightarrow> c\<lparr>live_collectors := live_collectors c @ [rd]\<rparr>
                  | AlreadyRegistered \<Rightarrow> c
                  | Refused err \<Rightarrow> c\<lparr>handled := handled c @ [err]\<rparr>)"

text \<open>One scrape: a gauge of \<open>workrail_queue_depth\<close> per pair, or nothing when the query fails.\<close>

definition Collect :: "(nat \<Rightarrow> call_env) \<Rightarrow> 'x world \<Rightarrow> (string list \<times> int) list \<times> 'x world" where
  "Collect E w =
     (case call E QueueDepth w of
        (Inl _, w1) \<Rightarrow> ([], w1)
      | (Inr depths, w1) \<Rightarrow> (map (\<lambda>(q, st, n). ([q, st], int n)) depths, w1))"

section \<open>Tracing\<close>

text \<open>\<open>parse\<close> gives scheme and host of a URL, None where it does not parse.\<close>

definition normalizeOTLPEndpoint ::
    "(string \<Rightarrow> (string \<times> string) option) \<Rightarrow> string \<Rightarrow> bool \<Rightarrow> string \<times> bool" where
  "normalizeOTLPEndpoint parse endpoint insecure =
     (case parse endpoint of
        None \<Rightarrow> (endpoint, insecure)
      | Some (scheme, host) \<Rightarrow>
          if scheme = '''' \<or> host = '''' then (endpoint, insecure)
          else if scheme = ''http'' then (host, True)
          else if scheme = ''https'' then (host, False)
          else (endpoint, insecure))"

text \<open>
  \<open>Init\<close>: no provider when tracing is off; else one made of an exporter and a resource, whose
  shutdown is the function returned. The error handler and the propagator it sets first are
  settings of the library.
\<close>

definition Init ::
    "(string \<Rightarrow> (string \<times> string) option) \<Rightarrow> (string \<Rightarrow> bool \<Rightarrow> goerr + 'exporter) \<Rightarrow> (string \<Rightarrow> goerr + 'resource) \<Rightarrow>
     tracing_options \<Rightarrow> goerr + ('exporter \<times> 'resource) option" where
  "Init parse new_exporter merge cfg =
     (if \<not> to_enabled cfg \<or> to_endpoint cfg = '''' then Inr None
      else (case normalizeOTLPEndpoint parse (to_endpoint cfg) (to_insecure cfg) of (endpoint, insecure) \<Rightarrow>
        (case new_exporter endpoint insecure of
           Inl err \<Rightarrow> Inl err
         | Inr exporter \<Rightarrow>
             (case merge (to_service cfg) of
                Inl err \<Rightarrow> Inl err
              | Inr res \<Rightarrow> Inr (Some (exporter, res))))))"

section \<open>Tables of series\<close>

definition well_labelled :: "sample \<Rightarrow> bool" where
  "well_labelled s \<longleftrightarrow> length (snd (sample_series s)) = length (label_names (fst (sample_series s)))"

lemma record_sample_ok: "well_labelled s \<Longrightarrow> record_sample s g = Some (g(sample_series s \<mapsto> sampled s g))"
  by (simp add: record_sample_def well_labelled_def)

lemma record_all_ok: "list_all well_labelled ss \<Longrightarrow> \<exists>g'. record_all ss g = Some g'"
  by (induction ss arbitrary: g) (simp_all add: record_sample_ok)

lemma record_all_other: "record_all ss g = Some g' \<Longrightarrow> k \<notin> sample_series ` set ss \<Longrightarrow> g' k = g k"
  by (induction ss arbitrary: g) (auto simp: record_sample_def split: option.splits if_splits)

lemma record_all_known: "record_all ss g = Some g' \<Longrightarrow> dom g' = dom g \<union> sample_series ` set ss"
proof (induction ss arbitrary: g)
  case (Cons s ss)
  from Cons.prems have "record_all ss (g(sample_series s \<mapsto> sampled s g)) = Some g'"
    by (auto simp: record_sample_def split: if_splits)
  from Cons.IH [OF this] show ?case by auto
qed simp

text \<open>A gauge that goes up and down by one is the number of its starts less its ends.\<close>

lemma inflight_level:
  "record_all (map moment_sample evs) g = Some g' \<Longrightarrow>
   level g' (WorkerInFlightJobs, [q, ty]) = level g (WorkerInFlightJobs, [q, ty])
     + int (length (filter (\<lambda>m. case m of Begin j \<Rightarrow> queue j = q \<and> workflow_type j = ty | _ \<Rightarrow> False) evs))
     - int (length (filter (\<lambda>m. case m of Finish j \<Rightarrow> queue j = q \<and> workflow_type j = ty | _ \<Rightarrow> False) evs))"
proof (induction evs arbitrary: g)
  case (Cons m evs)
  show ?case
  proof (cases m)
    case (Begin j)
    with Cons.prems have "record_all (map moment_sample evs) (g(job_series WorkerInFlightJobs j \<mapsto> level g (job_series WorkerInFlightJobs j) + 1)) = Some g'"
      by (simp add: record_sample_def job_series_def)
    from Cons.IH [OF this] Begin show ?thesis by (auto simp: level_def job_series_def)
  next
    case (Finish j)
    with Cons.prems have "record_all (map moment_sample evs) (g(job_series WorkerInFlightJobs j \<mapsto> level g (job_series WorkerInFlightJobs j) - 1)) = Some g'"
      by (simp add: record_sample_def job_series_def)
    from Cons.IH [OF this] Finish show ?thesis by (auto simp: level_def job_series_def)
  qed
qed simp

text \<open>The success and failure counters count only reports of the holder of the lease.\<close>

lemma report_samples_holder:
  assumes "report_samples E w j res s \<noteq> []" and "tables_ok (met E s)" and "lookup_job (met E s) (job_id j) = Some k"
  shows "held_by (job_id j) (wk_id w) k"
proof (cases res)
  case (Inl err)
  then obtain u where "fst (Fail (env_at E s) (job_id j) (wk_id w) err (met E s)) = Inr u"
    using assms(1) by (auto simp: report_samples_def call_met split: option.splits sum.splits)
  then show ?thesis
    by (intro fail.accepted_holder [OF _ TrueI assms(2,3)]) (auto simp: prod_eq_iff)
next
  case (Inr out)
  then obtain u where "fst (Complete (env_at E s) (job_id j) (wk_id w) out (met E s)) = Inr u"
    using assms(1) by (auto simp: report_samples_def call_met split: sum.splits)
  then show ?thesis
    by (intro complete.accepted_holder [OF _ TrueI assms(2,3)]) (auto simp: prod_eq_iff)
qed

section \<open>The labels of requests\<close>

definition route_labels :: "string list" where
  "route_labels = ''unmatched'' # map pattern
     [HEnqueue, HList, HDeadLetters, HInspect '''', HCancel '''', HReplay '''', HRetry '''', HSignal '''', HListSignals '''',
      HMetrics, HHealthz, HRoot, HUiOverview, HUiJobs, HUiJob '''', HUiRetry '''', HUiCancel '''', HUiReplay '''',
      HUiSignal '''', HUiLoginForm, HUiLogin, HUiLogout]"

lemma pattern_listed: "pattern h \<in> set route_labels"
  by (cases h) (simp_all add: route_labels_def)

lemma route_labels_length: "length route_labels = 23"
  by (simp add: route_labels_def)

lemma unmatched_listed: "''unmatched'' \<in> set route_labels"
  by (simp add: route_labels_def)

definition path_label :: "request \<Rightarrow> string" where
  "path_label r = (if matched_pattern r = '''' then ''unmatched'' else matched_pattern r)"

lemma path_label_listed: "path_label r \<in> set route_labels"
  using pattern_listed by (auto simp: path_label_def matched_pattern_def unmatched_listed split: option.split)

text \<open>A request passes authentication.\<close>

definition admitted :: "site \<Rightarrow> request \<Rightarrow> bool" where
  "admitted S r \<longleftrightarrow> auth (sv_url_host S) (sv_session S) (sv_token S) r = Next"

definition status_text :: "reply \<Rightarrow> string" where
  "status_text rep = int_str (fold WriteHeader (written_headers rep) 200)"

lemma measured_serve_eq:
  "measured_serve S E now elapsed r st =
    (let (rep, st1) = serve S E now r st
     in (rep, st1, if admitted S r
       then enqueue_samples r rep @ [Inc (HTTPRequests, [req_method r, path_label r, status_text rep]),
         Observe (HTTPRequestDuration, [req_method r, path_label r]) elapsed]
       else []))"
  by (simp add: measured_serve_def admitted_def HTTPMetrics_def measured_dispatch_def serve_def path_label_def
      status_text_def Let_def split: prod.split)

lemma enqueue_samples_shape:
  "s \<in> set (enqueue_samples r rep) \<Longrightarrow> \<exists>q ty. s = Inc (JobsEnqueued, [q, ty])"
  by (auto simp: enqueue_samples_def split: option.splits handler.splits reply.splits prod.splits answer.splits)

lemma measured_serve_labelled: "measured_serve S E now elapsed r st = (rep, st1, ss) \<Longrightarrow> list_all well_labelled ss"
  using enqueue_samples_shape [of _ r rep]
  by (force simp: measured_serve_eq list_all_iff well_labelled_def split: prod.splits if_splits)

text \<open>The service without the middleware.\<close>

definition visited :: "site \<Rightarrow> (nat \<Rightarrow> call_env) \<Rightarrow> visit list \<Rightarrow> 'x service \<Rightarrow> 'x service" where
  "visited S E vs st = fold (\<lambda>(now, elapsed, r) st. snd (serve S E now r st)) vs st"

lemma measured_run_Cons:
  obtains rep ss g1 where "measured_serve S E now elapsed r st = (rep, snd (serve S E now r st), ss)"
    and "rep = fst (serve S E now r st)" and "record_all ss g = Some g1"
    and "measured_run S E ((now, elapsed, r) # vs) (st, g) = measured_run S E vs (snd (serve S E now r st), g1)"
proof -
  obtain rep st1 ss where m: "measured_serve S E now elapsed r st = (rep, st1, ss)" by (metis prod_cases3)
  obtain g1 where g1: "record_all ss g = Some g1" using record_all_ok [OF measured_serve_labelled [OF m]] by blast
  have s: "rep = fst (serve S E now r st)" "st1 = snd (serve S E now r st)"
    using m by (auto simp: measured_serve_eq split: prod.splits)
  show ?thesis using that [OF _ s(1) g1] m g1 by (simp add: s(2))
qed

text \<open>
  C36: The path label of the request metrics comes from a fixed list. Over any run of requests
  no label mismatch panics and the answers and the state are those of the server without
  metrics; and a series of the request counter that is new or has moved carries one of 23 path
  labels and the method of a request that passed authentication.
\<close>

theorem metric_labels:
  "\<exists>g'. measured_run S E vs (st, g) = Some (visited S E vs st, g')
    \<and> (\<forall>m p code. g' (HTTPRequests, [m, p, code]) \<noteq> g (HTTPRequests, [m, p, code]) \<longrightarrow>
         p \<in> set route_labels \<and> (\<exists>(now, elapsed, r)\<in>set vs. admitted S r \<and> req_method r = m))
    \<and> length route_labels = 23"
proof (induction vs arbitrary: st g)
  case Nil
  show ?case by (simp add: visited_def route_labels_length)
next
  case (Cons v vs)
  obtain now elapsed r where v: "v = (now, elapsed, r)" by (rule prod_cases3)
  show ?case
  proof (rule measured_run_Cons [of S E now elapsed r st g vs])
    fix rep ss g1
    let ?st = "snd (serve S E now r st)"
    assume m: "measured_serve S E now elapsed r st = (rep, ?st, ss)" and g1: "record_all ss g = Some g1"
      and run: "measured_run S E ((now, elapsed, r) # vs) (st, g) = measured_run S E vs (?st, g1)"
    from Cons.IH obtain g' where ih: "measured_run S E vs (?st, g1) = Some (visited S E vs ?st, g')"
      "\<And>m p code. g' (HTTPRequests, [m, p, code]) \<noteq> g1 (HTTPRequests, [m, p, code]) \<Longrightarrow>
         p \<in> set route_labels \<and> (\<exists>(now, elapsed, r)\<in>set vs. admitted S r \<and> req_method r = m)" by blast
    have one: "p \<in> set route_labels \<and> admitted S r \<and> req_method r = mt"
      if "g1 (HTTPRequests, [mt, p, code]) \<noteq> g (HTTPRequests, [mt, p, code])" for mt p code
    proof -
      have "(HTTPRequests, [mt, p, code]) \<in> sample_series ` set ss" using record_all_other [OF g1] that by blast
      then show ?thesis
        using m enqueue_samples_shape [of _ r rep] path_label_listed [of r]
        by (auto simp: measured_serve_eq split: prod.splits if_splits) force+
    qed
    have "visited S E (v # vs) st = visited S E vs ?st" by (simp add: visited_def v)
    then have "measured_run S E (v # vs) (st, g) = Some (visited S E (v # vs) st, g')"
      using ih(1) run unfolding v by simp
    moreover have "p \<in> set route_labels \<and> (\<exists>(now, elapsed, r)\<in>set (v # vs). admitted S r \<and> req_method r = mt)"
      if h: "g' (HTTPRequests, [mt, p, code]) \<noteq> g (HTTPRequests, [mt, p, code])" for mt p code
    proof (cases "g' (HTTPRequests, [mt, p, code]) = g1 (HTTPRequests, [mt, p, code])")
      case True
      with h one [of mt p code] show ?thesis unfolding v by simp
    next
      case False
      from ih(2) [OF this] show ?thesis by simp
    qed
    ultimately show ?case using route_labels_length by blast
  qed
qed

text \<open>Two visits: a probe of the health endpoint, and a request that is refused.\<close>

definition visit_of :: "string \<Rightarrow> string \<Rightarrow> visit" where
  "visit_of m path = (5, 7, \<lparr>req_method = m, req_path = path, req_host = ''h'', req_headers = [], req_cookies = [],
     req_query = [], req_form = Inr [], req_body = '''', req_tls = True\<rparr>)"

definition sample_visits :: "visit list" where
  "sample_visits = [visit_of ''BREW'' ''/healthz'', visit_of ''GET'' ''/jobs'']"

lemma metric_labels_witness:
  "\<exists>g'. measured_run sample_site quiet sample_visits ((sample_world, zero_limiter), Map.empty)
        = Some (visited sample_site quiet sample_visits (sample_world, zero_limiter), g')
    \<and> {(m, p). \<exists>code. (HTTPRequests, [m, p, code]) \<in> dom g'} \<subseteq> {''BREW''} \<times> set route_labels"
proof -
  have a: "\<not> admitted sample_site (snd (snd (visit_of ''GET'' ''/jobs'')))" by code_simp
  have b: "req_method (snd (snd (visit_of ''BREW'' ''/healthz''))) = ''BREW''" by (simp add: visit_of_def)
  from metric_labels [of sample_site quiet sample_visits "(sample_world, zero_limiter)" Map.empty]
  obtain g' where g': "measured_run sample_site quiet sample_visits ((sample_world, zero_limiter), Map.empty)
        = Some (visited sample_site quiet sample_visits (sample_world, zero_limiter), g')"
    and l: "\<And>m p code. g' (HTTPRequests, [m, p, code]) \<noteq> Map.empty (HTTPRequests, [m, p, code]) \<Longrightarrow>
        p \<in> set route_labels \<and> (\<exists>(now, elapsed, r)\<in>set sample_visits. admitted sample_site r \<and> req_method r = m)"
    by blast
  have "p \<in> set route_labels \<and> m = ''BREW''" if "g' (HTTPRequests, [m, p, code]) \<noteq> None" for m p code
    using l [of m p code] that a b by (auto simp: sample_visits_def split: prod.splits)
  then have "{(m, p). \<exists>code. (HTTPRequests, [m, p, code]) \<in> dom g'} \<subseteq> {''BREW''} \<times> set route_labels" by blast
  with g' show ?thesis by blast
qed

text \<open>
  C37: The method label has no bound: without any credentials, whatever the token, requests to
  the health endpoint change nothing of the service, are answered 405, and each new method
  name among them leaves a new series of the request counter behind.
\<close>

theorem probe_mints_series:
  assumes "\<forall>(now, elapsed, r)\<in>set vs. req_path r = ''/healthz'' \<and> req_method r \<notin> {''GET'', ''HEAD''}"
  shows "\<exists>g'. measured_run S E vs (st, g) = Some (st, g')
    \<and> (\<forall>(now, elapsed, r)\<in>set vs. (HTTPRequests, [req_method r, ''unmatched'', ''405'']) \<in> dom g') \<and> dom g \<subseteq> dom g'"
  using assms
proof (induction vs arbitrary: g)
  case (Cons v vs)
  obtain now elapsed r where v: "v = (now, elapsed, r)" by (rule prod_cases3)
  have r: "req_path r = ''/healthz''" "req_method r \<notin> {''GET'', ''HEAD''}" using Cons.prems by (auto simp: v)
  have seg: "tl (Split_at (CHR ''/'') ''/healthz'') = [''healthz'']" by code_simp
  have rt: "route (req_method r) (req_path r) = None" "unrouted (req_path r) = Plain 405 ''Method Not Allowed''"
    using r by (simp_all add: route_def unrouted_def Let_def seg post_route_def get_route_def)
  have "\<not> has_prefix ''/ui'' ''/healthz''" by code_simp
  then have adm: "auth (sv_url_host S) (sv_session S) (sv_token S) r = Next" by (simp add: auth_def r)
  have sv: "serve S E now r st = (Plain 405 ''Method Not Allowed'', st)"
    by (simp add: serve_def adm dispatch_def rt)
  have lab: "path_label r = ''unmatched''" "enqueue_samples r (Plain 405 t) = []" for t
    by (simp_all add: path_label_def matched_pattern_def rt enqueue_samples_def)
  have code: "status_text (Plain 405 t) = ''405''" for t
    unfolding status_text_def by (simp add: WriteHeader_def) code_simp
  show ?case
  proof (rule measured_run_Cons [of S E now elapsed r st g vs])
    fix rep ss g1
    assume m: "measured_serve S E now elapsed r st = (rep, snd (serve S E now r st), ss)"
      and g1: "record_all ss g = Some g1"
      and run: "measured_run S E ((now, elapsed, r) # vs) (st, g) = measured_run S E vs (snd (serve S E now r st), g1)"
    have "(HTTPRequests, [req_method r, ''unmatched'', ''405'']) \<in> sample_series ` set ss"
      using m by (auto simp: measured_serve_eq sv admitted_def adm lab code Let_def)
    then have new: "(HTTPRequests, [req_method r, ''unmatched'', ''405'']) \<in> dom g1" and old: "dom g \<subseteq> dom g1"
      using record_all_known [OF g1] by auto
    have "\<forall>(now, elapsed, r)\<in>set vs. req_path r = ''/healthz'' \<and> req_method r \<notin> {''GET'', ''HEAD''}"
      using Cons.prems by simp
    from Cons.IH [OF this, of g1] obtain g' where ih: "measured_run S E vs (st, g1) = Some (st, g')"
      "\<forall>(now, elapsed, r)\<in>set vs. (HTTPRequests, [req_method r, ''unmatched'', ''405'']) \<in> dom g'" "dom g1 \<subseteq> dom g'"
      by blast
    have "measured_run S E (v # vs) (st, g) = Some (st, g')" using run ih(1) by (simp add: v sv)
    moreover have "(HTTPRequests, [req_method r, ''unmatched'', ''405'']) \<in> dom g'" using new ih(3) by blast
    then have "\<forall>(now, elapsed, r)\<in>set (v # vs). (HTTPRequests, [req_method r, ''unmatched'', ''405'']) \<in> dom g'"
      using ih(2) by (simp add: v)
    ultimately show ?case using old ih(3) by blast
  qed
qed simp

definition probes :: "visit list" where
  "probes = map (\<lambda>m. visit_of m ''/healthz'') [''BREW'', ''WHEN'', ''PROPFIND'']"

lemma probe_mints_series_witness:
  "\<exists>g'. measured_run sample_site quiet probes ((sample_world, zero_limiter), Map.empty) = Some ((sample_world, zero_limiter), g')
    \<and> list_all (\<lambda>m. (HTTPRequests, [m, ''unmatched'', ''405'']) \<in> dom g') [''BREW'', ''WHEN'', ''PROPFIND'']"
proof -
  have "\<forall>(now, elapsed, r)\<in>set probes. req_path r = ''/healthz'' \<and> req_method r \<notin> {''GET'', ''HEAD''}"
    by (simp add: probes_def visit_of_def)
  from probe_mints_series [OF this, of sample_site quiet "(sample_world, zero_limiter)" Map.empty]
  show ?thesis by (auto simp: probes_def visit_of_def)
qed

section \<open>Scrapes and tracing\<close>

text \<open>A scrape reads; what it shows are the counts of the query, and nothing when that fails.\<close>

lemma collect_reads: "wdb (snd (Collect E w)) = met E w"
  by (simp add: Collect_def call_met reads_pure split: sum.split prod.split)

lemma collect_counts:
  "fst (call E QueueDepth w) = Inr ds \<Longrightarrow> fst (Collect E w) = map (\<lambda>(q, st, n). ([q, st], int n)) ds"
  by (auto simp: Collect_def split: prod.split)

text \<open>A store is registered once, however often it is offered.\<close>

lemma collector_once:
  "RegisterQueueDepthCollector reg rd (RegisterQueueDepthCollector reg rd c) = RegisterQueueDepthCollector reg rd c"
  by (simp add: RegisterQueueDepthCollector_def Let_def split: option.split registration.split)

text \<open>A scheme in the endpoint decides the transport; without one the setting does.\<close>

lemma endpoint_transport:
  "normalizeOTLPEndpoint parse e i =
     (if \<exists>h. h \<noteq> '''' \<and> parse e = Some (''http'', h) then (snd (the (parse e)), True)
      else if \<exists>h. h \<noteq> '''' \<and> parse e = Some (''https'', h) then (snd (the (parse e)), False)
      else (e, i))"
  by (auto simp: normalizeOTLPEndpoint_def split: option.split)

end
