(* ===== verification/Startup.thy ===== *)
theory Startup
  imports Metrics Embedded Payweb
begin

text \<open>
  How the processes come up: \<open>runAPI\<close> and \<open>runWorker\<close> of \<open>cmd/workrail/main.go\<close> and \<open>run\<close>
  of \<open>examples/payments/main.go\<close>, from their configuration to the listeners and the worker
  they end in, with every error on the way. Tracing (\<open>init\<close>) and connections (\<open>connect\<close>) are
  arguments; the goroutines that wait for the end of the context are left out.
\<close>

section \<open>The commands api and worker\<close>

text \<open>The answer of \<open>ListenAndServe\<close>: being shut down is no error.\<close>

definition ErrServerClosed :: sentinel where
  "ErrServerClosed = App_error ''http: Server closed''"

definition listened :: "goerr \<Rightarrow> goerr option" where
  "listened err = (if errors_Is err ErrServerClosed then None else Some err)"

record ('st, 'p) api_process =
  ax_tracing :: 'p
  ax_store :: 'st
  ax_collectors :: "'st collectors"
  ax_addr :: string
  ax_server :: api_server

definition runAPI ::
    "(tracing_options \<Rightarrow> goerr + 'p) \<Rightarrow> (string \<Rightarrow> goerr + 'st) \<Rightarrow> ('st \<Rightarrow> registration) \<Rightarrow> 'st collectors \<Rightarrow>
     config \<Rightarrow> goerr + ('st, 'p) api_process" where
  "runAPI init connect register c cfg =
     (case init (tracingConfig ''workrail-api'' cfg) of
        Inl err \<Rightarrow> Inl err
      | Inr tracing \<Rightarrow>
          (case connect (cf_database cfg) of
             Inl err \<Rightarrow> Inl err
           | Inr store \<Rightarrow>
               Inr \<lparr>ax_tracing = tracing, ax_store = store,
                 ax_collectors = RegisterQueueDepthCollector register (Some store) c, ax_addr = ac_addr (cf_api cfg),
                 ax_server = New_server \<lparr>ap_token = ac_token (cf_api cfg), ap_redact = cf_redact cfg\<rparr>\<rparr>))"

text \<open>The process ends with \<open>listened\<close> of the listener's answer. \<open>startMetricsServer\<close>: an empty address switches the listener off.\<close>

definition startMetricsServer :: "string \<Rightarrow> string option" where
  "startMetricsServer addr = (if addr = '''' then None else Some addr)"

record ('st, 'p) worker_process =
  wx_tracing :: 'p
  wx_store :: 'st
  wx_collectors :: "'st collectors"
  wx_metrics :: "string option"
  wx_worker :: worker

definition runWorker ::
    "(tracing_options \<Rightarrow> goerr + 'p) \<Rightarrow> (string \<Rightarrow> goerr + 'st) \<Rightarrow> ('st \<Rightarrow> registration) \<Rightarrow> 'st collectors \<Rightarrow>
     string \<Rightarrow> config \<Rightarrow> goerr + ('st, 'p) worker_process" where
  "runWorker init connect register c hostname cfg =
     (case init (tracingConfig ''workrail-worker'' cfg) of
        Inl err \<Rightarrow> Inl err
      | Inr tracing \<Rightarrow>
          (case connect (cf_database cfg) of
             Inl err \<Rightarrow> Inl err
           | Inr store \<Rightarrow>
               Inr \<lparr>wx_tracing = tracing, wx_store = store,
                 wx_collectors = RegisterQueueDepthCollector register (Some store) c,
                 wx_metrics = startMetricsServer (wc_metrics (cf_worker cfg)),
                 wx_worker = config_worker hostname cfg\<rparr>))"

section \<open>The payments service\<close>

record 'st payments_process =
  px_client :: "('st, paydb world) client"
  px_addr :: string
  px_worker :: worker

text \<open>\<open>exec_schema\<close> runs \<open>schema.sql\<close>, \<open>fresh\<close> is the registry of a new client.\<close>

definition payments_run ::
    "(string \<Rightarrow> goerr + unit) \<Rightarrow> (paydb \<Rightarrow> (goerr + unit) \<times> paydb) \<Rightarrow> senv \<Rightarrow> (string \<Rightarrow> goerr + 'st) \<Rightarrow>
     paydb world registry \<Rightarrow> (nat \<Rightarrow> call_env) \<Rightarrow> (nat \<Rightarrow> pay_env) \<Rightarrow> codecs \<Rightarrow> environment \<Rightarrow> paydb \<Rightarrow>
     (goerr + 'st payments_process) \<times> paydb" where
  "payments_run new_pool exec_schema e connect fresh E P K env d =
     (let url = (let u = Getenv env ''DATABASE_URL'' in if u = '''' then sdk_DefaultDatabaseURL else u)
      in case new_pool url of
           Inl err \<Rightarrow> (Inl err, d)
         | Inr _ \<Rightarrow>
             (case exec_schema d of
                (Inl err, d1) \<Rightarrow> (Inl err, d1)
              | (Inr _, d1) \<Rightarrow>
                  (case seedAccounts e d1 of
                     (Inl err, d2) \<Rightarrow> (Inl err, d2)
                   | (Inr _, d2) \<Rightarrow>
                       (case Open connect fresh url of
                          Inl err \<Rightarrow> (Inl err, d2)
                        | Inr client \<Rightarrow>
                            (let reg = client_register workflowSettlement (settlementWorkflow E P K)
                                   (client_register workflowPayout (payoutWorkflow E P K) (cl_registry client))
                             in (Inr \<lparr>px_client = client\<lparr>cl_registry := reg\<rparr>, px_addr = payments_addr env,
                                   px_worker = payments_worker env\<rparr>, d2))))))"

section \<open>Facts\<close>

text \<open>
  A service that has come up has both workflows, opened the database of its environment, and
  runs its worker on the queue on which payouts are enqueued.
\<close>

lemma payments_up:
  assumes "payments_run new_pool exec_schema e connect fresh E P K env d = (Inr px, d')"
  shows "workflows (cl_registry (px_client px)) workflowPayout = Some (payoutWorkflow E P K)"
    and "workflows (cl_registry (px_client px)) workflowSettlement = Some (settlementWorkflow E P K)"
    and "connect (if Getenv env ''DATABASE_URL'' = '''' then sdk_DefaultDatabaseURL else Getenv env ''DATABASE_URL'')
      = Inr (cl_store (px_client px))"
    and "wk_queue (px_worker px) = payments_queue"
proof -
  have "sdk_DefaultDatabaseURL \<noteq> ''''" by (simp add: sdk_DefaultDatabaseURL_def)
  with assms show "workflows (cl_registry (px_client px)) workflowPayout = Some (payoutWorkflow E P K)"
    "workflows (cl_registry (px_client px)) workflowSettlement = Some (settlementWorkflow E P K)"
    "connect (if Getenv env ''DATABASE_URL'' = '''' then sdk_DefaultDatabaseURL else Getenv env ''DATABASE_URL'')
      = Inr (cl_store (px_client px))"
    "wk_queue (px_worker px) = payments_queue"
    by (auto simp: payments_run_def Open_def Let_def client_registers workflowPayout_def workflowSettlement_def
        payments_worker_def split: sum.splits prod.splits if_splits)
qed

text \<open>The server of the command \<open>api\<close> is the one \<open>run_command\<close> answers with.\<close>

lemma api_up:
  assumes "runAPI init connect register c cfg = Inr ax"
    and "run_command P E cfg ''api'' args (w, m) = (Inr (Serve_api addr srv tr), w', m')"
  shows "ax_addr ax = addr" and "ax_server ax = srv" and "init tr = Inr (ax_tracing ax)" and "w' = w" and "m' = m"
  using assms by (auto simp: runAPI_def run_command_def split: sum.splits)

text \<open>The worker process is the one \<open>config_worker\<close> describes, with its store registered once.\<close>

lemma worker_up:
  assumes "runWorker init connect register c hostname cfg = Inr wx"
  shows "wx_worker wx = config_worker hostname cfg" and "wx_store wx \<in> set (known_readers (wx_collectors wx))"
    and "wx_metrics wx = None \<longleftrightarrow> wc_metrics (cf_worker cfg) = ''''"
  using assms
  by (auto simp: runWorker_def RegisterQueueDepthCollector_def startMetricsServer_def Let_def
      split: sum.splits registration.splits if_splits)

text \<open>An example that has started has its workflow, and a worker on the default queue that prunes.\<close>

lemma embedded_started:
  assumes "embedded_main connect fresh E hostname url w = (Inr (j, inserted, reg, wk), w')"
  shows "workflows reg ''greet'' = Some (greetWorkflow E)" and "wk = embedded_worker hostname"
    and "wk_queue wk = ''default''" and "0 < wk_retention wk"
  using assms
  by (auto simp: embedded_main_def Let_def client_registers embedded_worker_def worker_of_options_def
      split: sum.splits prod.splits)

end
