(* ===== verification/Spec2Isabelle.thy ===== *)
theory Spec2Isabelle
  imports Prelude Goerr Gotime Gojson Job Db Wellformed Jobstore Mailbox Lifecycle Safety Contracts
    Progress Queries Runtime Checkpoints Runfacts Workflows Worker Client Gostrings Ledger Payments
    Json Redact Migrations Structs Urls Api Dashboard Dashfacts Serving Config Cli Payweb Jsonview Console
    Interface Outcome Embedded Metrics Startup
begin

text \<open>
  A verification development of Workrail, a durable job queue and workflow engine on
  PostgreSQL written in Go.

  \<^bold>\<open>The program.\<close> Clients enqueue jobs into the table \<open>jobs\<close>; workers claim due jobs under a
  lease, run the workflow registered for the job's type, renew the lease by heartbeats and
  report success, failure or suspension. A workflow checkpoints its steps, timers, signal
  waits, activities and children in \<open>job_steps\<close>, so that a run after a crash repeats none of
  the completed ones. Signals arrive in \<open>job_signals\<close>; everything is logged in \<open>job_events\<close>.
  The store (\<open>internal/store/postgres\<close>) is the only component that writes these tables; the
  engine (\<open>internal/engine\<close>), the SDK (\<open>workrail.go\<close>), the HTTP API with its dashboard
  (\<open>internal/api\<close>) and the command line (\<open>cmd/workrail\<close>) all act through its operations.

  \<^bold>\<open>Theories and code.\<close>

  \<^item> \<open>Prelude\<close>: the types the components exchange, tables as lists of rows, generic facts.
  \<^item> \<open>Goerr\<close>: error values, \<open>errors.Is\<close> and \<open>errors.As\<close>, and \<open>engine/errors.go\<close>.
  \<^item> \<open>Gotime\<close>, \<open>Gojson\<close>, \<open>Gostrings\<close>, \<open>Json\<close>, \<open>Structs\<close>, \<open>Urls\<close>: what the program uses of Go's
    standard library: RFC 3339 times, JSON strings, documents and structs, \<open>strings\<close> and
    \<open>strconv\<close>, query escaping.
  \<^item> \<open>Job\<close>: \<open>engine/job.go\<close> (statuses, rows, requests, \<open>Backoff\<close>, \<open>NextStatusAfterFailure\<close>).
  \<^item> \<open>Db\<close>: the database, its statements, \<open>withTx\<close>, \<open>appendEvent\<close>, and the locale \<open>evolution\<close>.
  \<^item> \<open>Wellformed\<close>: the schema (\<open>tables_ok\<close>) and the row invariant (\<open>job_ok\<close>).
  \<^item> \<open>Jobstore\<close>, \<open>Mailbox\<close>, \<open>Queries\<close>: every operation of \<open>store.go\<close> under its own name.
  \<^item> \<open>Lifecycle\<close>: \<open>store_op\<close> names the operations that write, \<open>run_ops\<close> runs a list of them in
    any environments, \<open>reachable\<close> is the step relation; every operation is shown to be a
    sequence of row steps and inserts (\<open>apply_op_effects\<close>).
  \<^item> \<open>Safety\<close>, \<open>Contracts\<close>, \<open>Progress\<close>: what holds along every run of the store; what each
    operation does on every branch; the abstract automaton the store refines, the budget of
    executions and the draining of a queue. The automaton is labelled by operations: a run of the
    store, read as its operations and what they answered (\<open>transcript\<close>), fixes its transitions.
  \<^item> \<open>Runtime\<close>: \<open>steps.go\<close>, \<open>sleep.go\<close>, \<open>signal.go\<close>, \<open>activities.go\<close>, \<open>children.go\<close> over an
    abstract store (\<open>runtime\<close>); \<open>Checkpoints\<close>: the contract between runtime and store as the
    locale \<open>checkpoint_store\<close>, interpreted on the PostgreSQL model; \<open>Runfacts\<close>: what follows for
    workflows.
  \<^item> \<open>Interface\<close>: the interfaces \<open>StepStore\<close> and \<open>Store\<close> as records of their methods; whatever is
    done through them on the PostgreSQL model is a run of \<open>store_op\<close>s.
  \<^item> \<open>Workflows\<close>: \<open>workflows.go\<close>; \<open>Worker\<close>: \<open>worker.go\<close> and \<open>compensate.go\<close>; \<open>Outcome\<close>: the row
    every way to end an execution leads to; \<open>Client\<close>: \<open>workrail.go\<close>.
  \<^item> \<open>Api\<close>, \<open>Dashboard\<close>, \<open>Serving\<close>: the handlers of \<open>server.go\<close>, the pages and the sign-in of
    \<open>dashboard.go\<close>, and the routing of a request through authentication to its handler;
    \<open>Dashfacts\<close>: what the dashboard shows.
  \<^item> \<open>Redact\<close>, \<open>Migrations\<close>, \<open>Config\<close>, \<open>Cli\<close>: \<open>internal/redact\<close>, \<open>internal/migrations\<close>,
    \<open>internal/config\<close> and the commands of \<open>cmd/workrail/main.go\<close>.
  \<^item> \<open>Jsonview\<close>: the JSON shown on pages and by the command line; \<open>Console\<close>: \<open>run\<close> of \<open>main.go\<close>, from
    the arguments over the configuration to the command, with \<open>migrate\<close> and \<open>api.New\<close>.
  \<^item> \<open>Ledger\<close>, \<open>Payments\<close>, \<open>Payweb\<close>: the example \<open>examples/payments\<close>: its ledger and simulated
    bank, its workflows, and its HTTP surface with the start-up data of \<open>main.go\<close>.
  \<^item> \<open>Embedded\<close>: the example \<open>examples/embedded\<close>, its workflow on the SDK's typed steps.
  \<^item> \<open>Metrics\<close>: \<open>internal/observability\<close> and the places of server and worker that record;
    \<open>Startup\<close>: how the processes of \<open>cmd/workrail\<close> and \<open>examples/payments\<close> come up.

  \<^bold>\<open>Interfaces.\<close> Four contracts are locales. \<open>evolution\<close> (\<open>Db\<close>) is a state that only moves
  forward, interpreted on the effects of the store's operations and on the ledger and the
  rail of the example. \<open>checkpoint_store\<close> extends it by what the runtime needs of a store and is interpreted on the PostgreSQL
  model; the replay lemmas of the runtime are proved inside it. \<open>fenced\<close> and its extension
  \<open>strictly_fenced\<close> (\<open>Contracts\<close>) say that an operation is refused without the lease; they are
  interpreted on the five operations of the lease holder, and the properties on stale
  workers, reports and success counters rest on their facts.

  \<^bold>\<open>How state and operations correspond.\<close> A table is a list of rows in storage order; where
  the code orders rows, so does the model. Orders that SQL leaves open are arguments where an
  operation depends on them: in which order a claim meets ties and answers its rows, the sweep
  answers its ids, and a prune meets the jobs it may remove. An operation of the store takes an environment
  \<open>senv\<close> (both clocks, the outcome of each unit of work, the locks others hold, the id a new
  row would get, how \<open>jsonb\<close> rewrites a text) and a database, and returns the Go result with
  the new database. A transaction, or a statement outside one, is one atomic unit: it
  commits and is acknowledged, or is lost without effect, or takes effect while its answer
  is lost. Where the code makes two units, the model has two. The engine runs in a \<open>world\<close>:
  before each call other processes may have run any operations (\<open>others\<close>), and the
  environment of the \<open>n\<close>-th call is an argument. Times are integers in nanoseconds; Go's 64
  bit integers are kept at their width where the code can overflow (\<open>Backoff\<close>, amounts).

  \<^bold>\<open>What the lemmas show.\<close> Reachable databases are well formed, every operation follows the
  state machine of jobs, and the store refines the abstract life of a job; a lease is
  exclusive and a worker without it is refused; checkpoints are written once; no wake-up is
  lost; enqueueing is idempotent under a key and a signal is delivered once; claim, failure,
  sweep and retention have exactly their documented effect; retries end and polling drains a
  queue. On top of that, steps, timers and children replay: each is answered from its
  checkpoint by reads alone, as long as those reads meet the job (\<open>met\<close> and \<open>after_read\<close> in
  \<open>Checkpoints\<close>). A discarded run has no effect, a worker keeps to
  its concurrency, the ledger conserves money, redaction masks every member it names,
  migrations apply once, and the HTTP surface admits only what it should. An execution ends in
  the row its outcome asks for, the embedded example greets once, and the metrics do not
  disturb the service; their path labels are bounded, their method label is not. Some properties
  state behaviour that departs from the documentation; they are named in the findings.

  \<^bold>\<open>Bounds and fuel.\<close> The parsers of texts (\<open>parse_body\<close>, \<open>parse_value\<close>, \<open>raw_members\<close>,
  \<open>duration_terms\<close>) recurse on a number that is the length of the text: each call consumes at
  least one byte, so it is never exhausted before the text (the round trips on JSON strings
  and documents prove it for printed texts). Every other definition terminates by itself;
  loops of the program that run until they are stopped (polling, heartbeats) are step
  relations or are bounded by their list of answers.

  \<^bold>\<open>Arguments of the model.\<close> Code outside the repository enters as an argument: the decoding of
  specifications and configuration as YAML, the printing and reading of JSON numbers, the
  host of a URL, the hash in the session cookie, how a migration script changes the schema,
  the functions a user registers, the exporter of traces and the registration of a
  Prometheus collector. Ids are texts that are canonical UUIDs, stored texts hold no NUL byte,
  label values are UTF-8, and times written into event details lie before the year 10000. Texts are byte
  strings compared bytewise; \<open>TrimSpace\<close>, \<open>ToLower\<close> and \<open>EqualFold\<close> act on ASCII. The limiter
  reads the clock once per locked section; a sign-in is two such sections (\<open>uiLogin_enter\<close>,
  \<open>uiLogin_miss\<close>), which requests handled at once interleave. A client that disconnects is not modelled.

  \<^bold>\<open>Not modelled.\<close> Spans and logging, which have no effect on jobs; the Prometheus and
  OpenTelemetry libraries themselves, the series apart; signal handling, listeners and
  connection pools of the processes; HTML templates; the scanning of result rows; the
  parallelism inside one worker beyond the interleaving of its jobs' calls with those of
  other processes.
\<close>

end
